(* ===== verification/Prelude.thy ===== *)
theory Prelude
  imports Main "HOL-Library.Word" "HOL-Library.List_Lexorder" "HOL-Library.Sublist"
    "HOL-Library.Multiset"
begin

text \<open>
  Shared vocabulary of the development.  The machine integer types of the source are words of
  their width, byte strings are lists of 8-bit words ordered lexicographically (as Rust orders
  \<^verbatim>\<open>Vec<u8>\<close>), and a fallible or panicking function of the source returns a
  \<^verbatim>\<open>result\<close>: \<open>Inl\<close> is an error value of \<^verbatim>\<open>src/src/errors.rs\<close> or a panic, \<open>Inr\<close> is
  \<^verbatim>\<open>Ok\<close>.  The theory also holds the proof collections and the lemmas on lists, prefixes and
  sums that the component theories share.
\<close>

section \<open>Types\<close>

type_synonym u8 = "8 word"
type_synonym u16 = "16 word"
type_synonym u32 = "32 word"
type_synonym u64 = "64 word"
type_synonym i32 = "32 word"
type_synonym Bytes = "u8 list"

text \<open>\<^verbatim>\<open>[u8; 32]\<close> hashes (\<^verbatim>\<open>Txid\<close>, \<^verbatim>\<open>BlockHash\<close>, \<^verbatim>\<open>FullHash\<close>) and their 8-byte prefixes.\<close>

type_synonym Txid = Bytes
type_synonym BlockHash = Bytes
type_synonym FullHash = Bytes
type_synonym HashPrefix = Bytes

section \<open>Errors\<close>

datatype RpcErrorCode =
    ParseError | InvalidRequest | MethodNotFound | InvalidParams | InternalError
  | Other | NotFound | Timeout

datatype ErrorKind =
    Connection string
  | Interrupt int
  | RpcError RpcErrorCode string
  | WebSocket string
  | Msg string

text \<open>
  An \<^verbatim>\<open>error_chain\<close> error is its kind and the kinds of its causes, nearest first.  A Rust panic
  (a failed \<^verbatim>\<open>assert!\<close>, \<^verbatim>\<open>unwrap\<close>, \<^verbatim>\<open>expect\<close> or an index out of range) unwinds the
  computation in the same way, but no \<^verbatim>\<open>chain_err\<close> sees it.
\<close>

datatype error = Error ErrorKind "ErrorKind list" | Panic string

type_synonym 'a result = "error + 'a"

section \<open>Text\<close>

text \<open>\<^verbatim>\<open>str::from_utf8\<close> accepts exactly the well-formed UTF-8 sequences.\<close>

definition utf8_cont :: "u8 \<Rightarrow> bool" where
  "utf8_cont b \<longleftrightarrow> 0x80 \<le> b \<and> b \<le> 0xBF"

definition utf8_second :: "u8 \<Rightarrow> u8 \<Rightarrow> bool" where
  "utf8_second a b \<longleftrightarrow>
     (if a = 0xE0 then 0xA0 \<le> b \<and> b \<le> 0xBF
      else if a = 0xED then 0x80 \<le> b \<and> b \<le> 0x9F
      else if a = 0xF0 then 0x90 \<le> b \<and> b \<le> 0xBF
      else if a = 0xF4 then 0x80 \<le> b \<and> b \<le> 0x8F
      else utf8_cont b)"

definition utf8_len :: "u8 \<Rightarrow> nat option" where
  "utf8_len a =
     (if a < 0x80 then Some 1
      else if 0xC2 \<le> a \<and> a \<le> 0xDF then Some 2
      else if 0xE0 \<le> a \<and> a \<le> 0xEF then Some 3
      else if 0xF0 \<le> a \<and> a \<le> 0xF4 then Some 4
      else None)"

fun is_utf8 :: "Bytes \<Rightarrow> bool" where
  "is_utf8 [] = True"
| "is_utf8 (a # s) =
     (case utf8_len a of
        None \<Rightarrow> False
      | Some n \<Rightarrow>
          if n = 1 then is_utf8 s
          else n - 1 \<le> length s \<and> utf8_second a (hd s) \<and>
               list_all utf8_cont (take (n - 2) (tl s)) \<and> is_utf8 (drop (n - 1) s))"

text \<open>\<^verbatim>\<open>to_ascii_lowercase\<close> and the decimal rendering of \<^verbatim>\<open>format!("{}", n)\<close>.\<close>

definition to_ascii_lowercase :: "Bytes \<Rightarrow> Bytes" where
  "to_ascii_lowercase s = map (\<lambda>c. if 0x41 \<le> c \<and> c \<le> 0x5A then c + 0x20 else c) s"

fun show_nat :: "nat \<Rightarrow> string" where
  "show_nat n = (if n < 10 then [char_of (48 + n)] else show_nat (n div 10) @ [char_of (48 + n mod 10)])"

declare show_nat.simps [simp del]

lemma length_to_ascii_lowercase [simp]: "length (to_ascii_lowercase s) = length s"
  by (simp add: to_ascii_lowercase_def)

section \<open>Proof collections\<close>

named_theorems result_simps \<open>rules for the result type\<close>
named_theorems list_facts \<open>facts on lists shared by the components\<close>

section \<open>The result type\<close>

definition and_then :: "'a result \<Rightarrow> ('a \<Rightarrow> 'b result) \<Rightarrow> 'b result" where
  "and_then r f = (case r of Inl e \<Rightarrow> Inl e | Inr x \<Rightarrow> f x)"

definition bail :: "string \<Rightarrow> 'a result" where
  "bail m = Inl (Error (Msg m) [])"

definition bail_kind :: "ErrorKind \<Rightarrow> 'a result" where
  "bail_kind k = Inl (Error k [])"

text \<open>\<^verbatim>\<open>chain_err\<close> on a \<^verbatim>\<open>Result\<close> and on an \<^verbatim>\<open>Option\<close>.\<close>

fun chain_err :: "ErrorKind \<Rightarrow> 'a result \<Rightarrow> 'a result" where
  "chain_err k (Inl (Error k' cs)) = Inl (Error k (k' # cs))"
| "chain_err k (Inl (Panic m)) = Inl (Panic m)"
| "chain_err k (Inr x) = Inr x"

definition ok_or :: "ErrorKind \<Rightarrow> 'a option \<Rightarrow> 'a result" where
  "ok_or k m = (case m of None \<Rightarrow> Inl (Error k []) | Some x \<Rightarrow> Inr x)"

text \<open>\<^verbatim>\<open>assert!(b)\<close> and \<^verbatim>\<open>expect\<close>/\<^verbatim>\<open>unwrap\<close>.\<close>

definition require :: "string \<Rightarrow> bool \<Rightarrow> unit result" where
  "require m b = (if b then Inr () else Inl (Panic m))"

definition expect :: "string \<Rightarrow> 'a option \<Rightarrow> 'a result" where
  "expect m x = (case x of None \<Rightarrow> Inl (Panic m) | Some v \<Rightarrow> Inr v)"

text \<open>\<^verbatim>\<open>collect::<Result<Vec<_>>>\<close>: the values, or the first error.\<close>

fun mapM :: "('a \<Rightarrow> 'b result) \<Rightarrow> 'a list \<Rightarrow> 'b list result" where
  "mapM f [] = Inr []"
| "mapM f (x # xs) = and_then (f x) (\<lambda>y. and_then (mapM f xs) (\<lambda>ys. Inr (y # ys)))"

definition is_ok :: "'a result \<Rightarrow> bool" where
  "is_ok r = (case r of Inl _ \<Rightarrow> False | Inr _ \<Rightarrow> True)"

definition is_panic :: "'a result \<Rightarrow> bool" where
  "is_panic r = (case r of Inl (Panic _) \<Rightarrow> True | _ \<Rightarrow> False)"

lemma and_then_Inr [simp, result_simps]: "and_then (Inr x) f = f x"
  by (simp add: and_then_def)

lemma and_then_Inl [simp, result_simps]: "and_then (Inl e) f = Inl e"
  by (simp add: and_then_def)

lemma and_then_eq_Inr [result_simps]:
  "and_then r f = Inr y \<longleftrightarrow> (\<exists>x. r = Inr x \<and> f x = Inr y)"
  by (cases r) auto

lemma and_then_eq_Inl [result_simps]:
  "and_then r f = Inl e \<longleftrightarrow> r = Inl e \<or> (\<exists>x. r = Inr x \<and> f x = Inl e)"
  by (cases r) auto

lemma require_eq_Inr [simp, result_simps]: "require m b = Inr u \<longleftrightarrow> b"
  by (simp add: require_def)

lemma require_True [simp]: "require m True = Inr ()"
  by (simp add: require_def)

lemma require_False [simp]: "require m False = Inl (Panic m)"
  by (simp add: require_def)

lemma expect_simps [simp]: "expect m (Some v) = Inr v" "expect m None = Inl (Panic m)"
  by (simp_all add: expect_def)

lemma expect_eq_Inr [result_simps]: "expect m x = Inr v \<longleftrightarrow> x = Some v"
  by (cases x) auto

lemma ok_or_simps [simp]: "ok_or k (Some v) = Inr v" "ok_or k None = Inl (Error k [])"
  by (simp_all add: ok_or_def)

lemma ok_or_eq_Inr [result_simps]: "ok_or k x = Inr v \<longleftrightarrow> x = Some v"
  by (cases x) auto

lemma chain_err_eq_Inr [simp, result_simps]: "chain_err k r = Inr x \<longleftrightarrow> r = Inr x"
  by (cases "(k, r)" rule: chain_err.cases) auto

lemma bail_neq_Inr [simp]: "bail m \<noteq> Inr x" "bail_kind k \<noteq> Inr x"
  by (simp_all add: bail_def bail_kind_def)

lemma is_ok_simps [simp]: "is_ok (Inr x)" "\<not> is_ok (Inl e)"
  by (simp_all add: is_ok_def)

lemma is_ok_iff: "is_ok r \<longleftrightarrow> (\<exists>x. r = Inr x)"
  by (cases r) auto

lemma is_panic_simps [simp]:
  "\<not> is_panic (Inr x)" "is_panic (Inl (Panic m))" "\<not> is_panic (Inl (Error k cs))"
  by (simp_all add: is_panic_def)

lemma is_panic_iff: "is_panic r \<longleftrightarrow> (\<exists>m. r = Inl (Panic m))"
  by (auto simp: is_panic_def split: sum.splits error.splits)

lemma is_panic_and_then:
  "is_panic (and_then r f) \<longleftrightarrow> is_panic r \<or> (\<exists>x. r = Inr x \<and> is_panic (f x))"
  by (cases r) (auto simp: is_panic_iff)

lemma is_panic_chain_err [simp]: "is_panic (chain_err k r) = is_panic r"
  by (cases "(k, r)" rule: chain_err.cases) auto

lemma bail_not_panic [simp]: "\<not> is_panic (bail m)" "\<not> is_panic (bail_kind k)"
  by (simp_all add: bail_def bail_kind_def)

lemma ok_or_not_panic [simp]: "\<not> is_panic (ok_or k x)"
  by (cases x) auto

lemma mapM_eq_Inr:
  "mapM f xs = Inr ys \<longleftrightarrow> list_all2 (\<lambda>x y. f x = Inr y) xs ys"
  by (induction xs arbitrary: ys) (auto simp: and_then_eq_Inr list_all2_Cons1)

lemma mapM_all_ok:
  assumes "\<And>x. x \<in> set xs \<Longrightarrow> f x = Inr (g x)"
  shows "mapM f xs = Inr (map g xs)"
  using assms by (induction xs) auto

section \<open>Lists, prefixes and sums\<close>

text \<open>
  Byte strings that start with \<open>p\<close> form an interval of the lexicographic order: this is what
  makes a forward scan from \<open>p\<close> that stops at the first key without the prefix complete.
\<close>

lemma prefix_interval:
  fixes p k l :: "'a::linorder list"
  assumes "p \<le> k" "k \<le> l" "prefix p l"
  shows "prefix p k"
  using assms
proof (induction p arbitrary: k l)
  case Nil
  then show ?case by simp
next
  case (Cons a p)
  from Cons.prems(3) obtain l' where l: "l = a # l'" "prefix p l'"
    by (auto simp: prefix_def)
  from Cons.prems(1) obtain b k' where k: "k = b # k'"
    by (cases k) auto
  from Cons.prems(1) k have "a \<le> b" by auto
  moreover from Cons.prems(2) k l have "b \<le> a" by auto
  ultimately have "b = a" by simp
  with Cons.prems k l have "p \<le> k'" "k' \<le> l'" by auto
  with Cons.IH l(2) have "prefix p k'" by blast
  with k \<open>b = a\<close> show ?case by simp
qed

lemma prefix_le:
  fixes p k :: "'a::linorder list"
  shows "prefix p k \<Longrightarrow> p \<le> k"
  by (induction p arbitrary: k) (auto simp: prefix_def)

lemma takeWhile_eq_filter_downclosed:
  assumes "sorted_wrt R xs" "\<And>x y. R x y \<Longrightarrow> P y \<Longrightarrow> x \<in> set xs \<Longrightarrow> P x"
  shows "takeWhile P xs = filter P xs"
  using assms
proof (induction xs)
  case (Cons x xs)
  show ?case
  proof (cases "P x")
    case True
    with Cons show ?thesis by simp
  next
    case False
    with Cons.prems have "\<forall>y\<in>set xs. \<not> P y" by auto
    with False show ?thesis by simp
  qed
qed simp

lemma prefix_append_fixed:
  "length p = length q \<Longrightarrow> prefix (p @ r) (q @ s) \<longleftrightarrow> p = q \<and> prefix r s"
  by (auto simp: prefix_def)

lemma prefix_same_length [list_facts]: "length p = length k \<Longrightarrow> prefix p k \<longleftrightarrow> p = k"
  by (auto simp: prefix_def)

lemma distinct_set_singleton:
  assumes "set xs = {x}" "distinct xs"
  shows "xs = [x]"
proof -
  have "length xs = 1" using distinct_card [OF assms(2)] assms(1) by simp
  with assms(1) show ?thesis by (cases xs) auto
qed

lemma last_take_nth [list_facts]: "0 < n \<Longrightarrow> n \<le> length xs \<Longrightarrow> last (take n xs) = xs ! (n - 1)"
  by (subst last_conv_nth) (auto simp: min_def)

lemma sum_list_replicate_word: "(\<Sum>x\<leftarrow>xs. c) = of_nat (length xs) * (c :: 'a::comm_semiring_1)"
  by (induction xs) (auto simp: algebra_simps)

lemma mapM_ok: "(\<And>x. x \<in> set xs \<Longrightarrow> is_ok (f x)) \<Longrightarrow> mapM f xs = Inr (map (\<lambda>x. projr (f x)) xs)"
proof (induction xs)
  case (Cons x xs)
  from Cons.prems [of x] obtain y where "f x = Inr y" by (auto simp: is_ok_def split: sum.splits)
  with Cons show ?case by simp
qed simp

lemma mapM_set: "mapM f xs = Inr ys \<Longrightarrow> y \<in> set ys \<Longrightarrow> \<exists>x\<in>set xs. f x = Inr y"
  by (induction xs arbitrary: ys) (auto simp: result_simps)

lemma mapM_length: "mapM f xs = Inr ys \<Longrightarrow> length ys = length xs"
  by (induction xs arbitrary: ys) (auto simp: result_simps)

lemma unat_ucast_u32_u64: "unat (ucast (x :: u32) :: u64) = unat x"
  unfolding unsigned_ucast_eq
  by (rule take_bit_nat_eq_self) (rule less_le_trans [OF unsigned_less], simp)

lemma unat_u32_less: "unat (x :: u32) < 4294967296"
  by (rule less_le_trans [OF unsigned_less]) simp

lemma unat_u64_less: "unat (x :: u64) < 18446744073709551616"
  by (rule less_le_trans [OF unsigned_less]) simp

lemma unat_add_u32: "unat x + unat y < 4294967296 \<Longrightarrow> unat (x + y :: u32) = unat x + unat y"
  using unat_add_lem [of x y] by simp

lemma unat_add_u64: "unat x + unat y < 18446744073709551616 \<Longrightarrow> unat (x + y :: u64) = unat x + unat y"
  using unat_add_lem [of x y] by simp

lemma unat_ucast_u64_u32: "unat x < 4294967296 \<Longrightarrow> unat (ucast (x :: u64) :: u32) = unat x"
  unfolding unsigned_ucast_eq by (rule take_bit_nat_eq_self) simp

end
