(* ===== verification/Bitcoin.thy ===== *)
theory Bitcoin
  imports Prelude
begin

text \<open>
  The data of the \<^verbatim>\<open>bitcoincash\<close> crate that the source reads (public structs with their fields),
  as records, and the null hash (\<^verbatim>\<open>Txid::default()\<close>, \<^verbatim>\<open>BlockHash::default()\<close>).  The crate's
  functions on them (transaction ids, block hashes, serialisation) stay parameters of the
  definitions that call them.
\<close>

record OutPoint =
  op_txid :: Txid
  op_vout :: u32

record TxIn =
  previous_output :: OutPoint
  script_sig :: Bytes
  sequence :: u32

record TxOut =
  out_value :: u64
  script_pubkey :: Bytes

record Transaction =
  tx_version :: i32
  tx_lock_time :: u32
  tx_input :: "TxIn list"
  tx_output :: "TxOut list"

record BlockHeader =
  bh_version :: i32
  prev_blockhash :: BlockHash
  merkle_root :: Bytes
  bh_time :: u32
  bh_bits :: u32
  bh_nonce :: u32

record Block =
  blk_header :: BlockHeader
  txdata :: "Transaction list"

definition null_hash :: Bytes where
  "null_hash = replicate 32 0"

lemma length_null_hash [simp]: "length null_hash = 32"
  by (simp add: null_hash_def)

text \<open>\<^verbatim>\<open>OutPoint::is_null\<close>: the null transaction id with the largest output index (a coinbase input).\<close>

definition is_null_outpoint :: "OutPoint \<Rightarrow> bool" where
  "is_null_outpoint op \<longleftrightarrow> op = \<lparr>op_txid = null_hash, op_vout = - 1\<rparr>"

end
