(* ===== verification/Headers.thy ===== *)
theory Headers
  imports Bitcoin
begin

text \<open>
  The chain of block headers the server has indexed (\<^verbatim>\<open>HeaderList\<close> of \<^verbatim>\<open>src/src/util.rs\<close>): the
  vector of entries and the map from block hash to height, which is never purged and may hold
  stale heights after a reorganisation.  The block hash function \<open>H\<close> of the \<^verbatim>\<open>bitcoincash\<close> crate
  is a parameter.  Every \<^verbatim>\<open>assert\<close> and \<^verbatim>\<open>unwrap\<close> of the source is a \<open>Panic\<close> branch.  Heights are
  \<^verbatim>\<open>usize\<close> values far below \<open>2 ^ 64\<close> and modelled as \<open>nat\<close>.
\<close>

section \<open>Definitions\<close>

definition HASH_PREFIX_LEN :: nat where
  "HASH_PREFIX_LEN = 8"

text \<open>\<^verbatim>\<open>hash_prefix\<close> slices the first 8 bytes, and panics on a shorter slice.\<close>

definition hash_prefix :: "Bytes \<Rightarrow> HashPrefix result" where
  "hash_prefix hash =
     (if length hash < HASH_PREFIX_LEN then Inl (Panic ''slice index out of range'')
      else Inr (take HASH_PREFIX_LEN hash))"

text \<open>On a value of an array type \<^verbatim>\<open>[u8; 32]\<close> the slice is always in range and the function is total.\<close>

definition hp :: "Bytes \<Rightarrow> HashPrefix" where
  "hp hash = take HASH_PREFIX_LEN hash"

lemma hash_prefix_array: "HASH_PREFIX_LEN \<le> length hash \<Longrightarrow> hash_prefix hash = Inr (hp hash)"
  by (simp add: hash_prefix_def hp_def)

lemma length_hp: "length hash = 32 \<Longrightarrow> length (hp hash) = 8"
  by (simp add: hp_def HASH_PREFIX_LEN_def)

record HeaderEntry =
  he_height :: nat
  he_hash :: BlockHash
  he_header :: BlockHeader

record HashedHeader =
  hh_blockhash :: BlockHash
  hh_header :: BlockHeader

record HeaderList =
  hl_headers :: "HeaderEntry list"
  hl_heights :: "BlockHash \<rightharpoonup> nat"

fun check_links :: "HashedHeader list \<Rightarrow> unit result" where
  "check_links (a # b # rest) =
     and_then (require ''prev_blockhash'' (prev_blockhash (hh_header b) = hh_blockhash a))
       (\<lambda>_. check_links (b # rest))"
| "check_links _ = Inr ()"

definition hash_headers :: "(BlockHeader \<Rightarrow> BlockHash) \<Rightarrow> BlockHeader list \<Rightarrow> HashedHeader list result" where
  "hash_headers H headers =
     (let hashed = map (\<lambda>h. \<lparr>hh_blockhash = H h, hh_header = h\<rparr>) headers
      in and_then (check_links hashed) (\<lambda>_. Inr hashed))"

definition empty_headers :: HeaderList where
  "empty_headers = \<lparr>hl_headers = [], hl_heights = Map.empty\<rparr>"

definition headers_get :: "HeaderList \<Rightarrow> nat \<Rightarrow> HeaderEntry option" where
  "headers_get hl i = (if i < length (hl_headers hl) then Some (hl_headers hl ! i) else None)"

definition header_by_blockhash :: "HeaderList \<Rightarrow> BlockHash \<Rightarrow> HeaderEntry option" where
  "header_by_blockhash hl blockhash =
     (case hl_heights hl blockhash of
        None \<Rightarrow> None
      | Some height \<Rightarrow>
          (case headers_get hl height of
             None \<Rightarrow> None
           | Some header \<Rightarrow> if blockhash = he_hash header then Some header else None))"

definition header_by_height :: "HeaderList \<Rightarrow> nat \<Rightarrow> HeaderEntry option result" where
  "header_by_height hl height =
     (case headers_get hl height of
        None \<Rightarrow> Inr None
      | Some entry \<Rightarrow>
          and_then (require ''entry height'' (he_height entry = height)) (\<lambda>_. Inr (Some entry)))"

definition tiphash :: "HeaderList \<Rightarrow> BlockHash" where
  "tiphash hl = (case hl_headers hl of [] \<Rightarrow> null_hash | _ \<Rightarrow> he_hash (last (hl_headers hl)))"

definition headers_tip :: "HeaderList \<Rightarrow> HeaderEntry option" where
  "headers_tip hl = (case hl_headers hl of [] \<Rightarrow> None | _ \<Rightarrow> Some (last (hl_headers hl)))"

definition headers_len :: "HeaderList \<Rightarrow> nat" where
  "headers_len hl = length (hl_headers hl)"

definition headers_is_empty :: "HeaderList \<Rightarrow> bool" where
  "headers_is_empty hl = (hl_headers hl = [])"

definition headers_equals :: "HeaderList \<Rightarrow> HeaderList \<Rightarrow> bool" where
  "headers_equals a b = (headers_tip a = headers_tip b)"

text \<open>\<^verbatim>\<open>(new_height..).zip(hashed_headers)\<close>.\<close>

fun number_entries :: "nat \<Rightarrow> HashedHeader list \<Rightarrow> HeaderEntry list" where
  "number_entries height [] = []"
| "number_entries height (h # hs) =
     \<lparr>he_height = height, he_hash = hh_blockhash h, he_header = hh_header h\<rparr>
       # number_entries (Suc height) hs"

definition order :: "(BlockHeader \<Rightarrow> BlockHash) \<Rightarrow> HeaderList \<Rightarrow> BlockHeader list \<Rightarrow> HeaderEntry list result" where
  "order H hl new_headers =
     and_then (hash_headers H new_headers) (\<lambda>hashed_headers.
       case hashed_headers of
         [] \<Rightarrow> Inr []
       | h # _ \<Rightarrow>
           (let prev = prev_blockhash (hh_header h)
            in and_then
                 (if prev = null_hash then Inr 0
                  else and_then (expect ''not part of the blockchain'' (header_by_blockhash hl prev))
                         (\<lambda>e. Inr (he_height e + 1)))
                 (\<lambda>new_height. Inr (number_entries new_height hashed_headers))))"

text \<open>The consistency loop at the head of \<^verbatim>\<open>apply\<close>.\<close>

fun check_entries :: "HeaderEntry list \<Rightarrow> unit result" where
  "check_entries (a # b # rest) =
     and_then (require ''height'' (he_height a + 1 = he_height b)) (\<lambda>_.
     and_then (require ''prev_blockhash'' (he_hash a = prev_blockhash (he_header b))) (\<lambda>_.
     check_entries (b # rest)))"
| "check_entries _ = Inr ()"

text \<open>The height from which the chain is overwritten.\<close>

definition apply_height :: "HeaderList \<Rightarrow> HeaderEntry list \<Rightarrow> BlockHash \<Rightarrow> nat result" where
  "apply_height hl new_headers tip =
     (case new_headers of
        entry # _ \<Rightarrow>
          (let expected_tip = he_hash (last new_headers); height = he_height entry
           in and_then (require ''tip'' (tip = expected_tip)) (\<lambda>_.
              and_then
                (if height > 0
                 then and_then (expect ''index out of bounds'' (headers_get hl (height - 1)))
                        (\<lambda>e. Inr (he_hash e))
                 else Inr null_hash) (\<lambda>expected_prev_blockhash.
              and_then (require ''prev_blockhash'' (prev_blockhash (he_header entry) = expected_prev_blockhash))
                (\<lambda>_. Inr height))))
      | [] \<Rightarrow>
          and_then (expect ''missing tip'' (hl_heights hl tip)) (\<lambda>tip_height. Inr (tip_height + 1)))"

text \<open>The loop that pushes the new entries.\<close>

fun push_entries :: "HeaderList \<Rightarrow> HeaderEntry list \<Rightarrow> HeaderList result" where
  "push_entries hl [] = Inr hl"
| "push_entries hl (e # es) =
     and_then (require ''height'' (he_height e = length (hl_headers hl))) (\<lambda>_.
     and_then (require ''prev_blockhash'' (prev_blockhash (he_header e) = tiphash hl)) (\<lambda>_.
     push_entries
       \<lparr>hl_headers = hl_headers hl @ [e], hl_heights = (hl_heights hl)(he_hash e \<mapsto> he_height e)\<rparr> es))"

definition apply_headers :: "HeaderList \<Rightarrow> HeaderEntry list \<Rightarrow> BlockHash \<Rightarrow> HeaderList result" where
  "apply_headers hl new_headers tip =
     (if tip = null_hash then
        and_then (require ''new_headers.is_empty()'' (new_headers = [])) (\<lambda>_. Inr empty_headers)
      else
        and_then (check_entries new_headers) (\<lambda>_.
        and_then (apply_height hl new_headers tip) (\<lambda>new_height.
          let hl' = hl\<lparr>hl_headers := take new_height (hl_headers hl)\<rparr>
          in and_then (require ''new_height'' (new_height = length (hl_headers hl'))) (\<lambda>_.
             and_then (push_entries hl' new_headers) (\<lambda>hl''.
             and_then (require ''tip'' (tip = tiphash hl'')) (\<lambda>_.
             and_then (require ''contains_key'' (hl_heights hl'' tip \<noteq> None)) (\<lambda>_.
             Inr hl'')))))))"

section \<open>The chain invariant\<close>

text \<open>A list of headers in which each one names the hash of the one before.\<close>

fun linked :: "(BlockHeader \<Rightarrow> BlockHash) \<Rightarrow> BlockHeader list \<Rightarrow> bool" where
  "linked H (a # b # rest) = (prev_blockhash b = H a \<and> linked H (b # rest))"
| "linked H _ = True"

text \<open>Entries numbered from \<open>n\<close>, each hashing its own header and linked to the previous one.\<close>

fun chained :: "(BlockHeader \<Rightarrow> BlockHash) \<Rightarrow> nat \<Rightarrow> BlockHash \<Rightarrow> HeaderEntry list \<Rightarrow> bool" where
  "chained H n prev [] = True"
| "chained H n prev (e # es) =
     (he_height e = n \<and> he_hash e = H (he_header e) \<and> prev_blockhash (he_header e) = prev \<and>
      chained H (Suc n) (he_hash e) es)"

definition wf_headers :: "(BlockHeader \<Rightarrow> BlockHash) \<Rightarrow> HeaderList \<Rightarrow> bool" where
  "wf_headers H hl \<longleftrightarrow>
     chained H 0 null_hash (hl_headers hl) \<and>
     (\<forall>i<length (hl_headers hl). hl_heights hl (he_hash (hl_headers hl ! i)) = Some i)"

text \<open>No two of the headers collide and none hashes to the null hash.\<close>

definition collision_free :: "(BlockHeader \<Rightarrow> BlockHash) \<Rightarrow> BlockHeader set \<Rightarrow> bool" where
  "collision_free H S \<longleftrightarrow> inj_on H S \<and> (\<forall>h\<in>S. H h \<noteq> null_hash)"

text \<open>The hash at the end of a chain that starts after \<open>p\<close>.\<close>

definition last_hash :: "BlockHash \<Rightarrow> HeaderEntry list \<Rightarrow> BlockHash" where
  "last_hash p xs = (if xs = [] then p else he_hash (last xs))"

section \<open>Lemmas\<close>

lemma last_hash_simps [simp]:
  "last_hash p [] = p" "last_hash p (xs @ [e]) = he_hash e"
  "last_hash p (e # xs) = last_hash (he_hash e) xs"
  by (auto simp: last_hash_def)

lemma tiphash_alt: "tiphash hl = last_hash null_hash (hl_headers hl)"
  by (cases "hl_headers hl") (auto simp: tiphash_def last_hash_def)

lemma chained_append:
  "chained H n p (xs @ ys) \<longleftrightarrow> chained H n p xs \<and> chained H (n + length xs) (last_hash p xs) ys"
  by (induction xs arbitrary: n p) auto

lemma chained_take: "chained H n p xs \<Longrightarrow> chained H n p (take k xs)"
  by (metis append_take_drop_id chained_append)

lemma chained_nth:
  assumes "chained H n p es" "i < length es"
  shows "he_height (es ! i) = n + i" "he_hash (es ! i) = H (he_header (es ! i))"
    "prev_blockhash (he_header (es ! i)) = (if i = 0 then p else he_hash (es ! (i - 1)))"
  using assms
  by (induction es arbitrary: n p i; force simp: nth_Cons split: nat.splits)+

lemma tiphash_last: "hl_headers hl \<noteq> [] \<Longrightarrow> tiphash hl = he_hash (last (hl_headers hl))"
  by (simp add: tiphash_alt last_hash_def)

text \<open>
  Along a chain that starts at the null hash the block hashes are distinct: two equal hashes would
  give equal headers, hence equal predecessors, down to a header that hashes to the null hash.
\<close>

lemma chained_hash_neq:
  assumes "chained H 0 null_hash es" "collision_free H (he_header ` set es)"
    and "i < j" "j < length es"
  shows "he_hash (es ! i) \<noteq> he_hash (es ! j)"
  using assms(3,4)
proof (induction i arbitrary: j)
  case 0
  show ?case
  proof
    assume "he_hash (es ! 0) = he_hash (es ! j)"
    then have "H (he_header (es ! 0)) = H (he_header (es ! j))"
      using chained_nth(2) [OF assms(1)] 0 by (metis less_trans)
    moreover have "es ! 0 \<in> set es" "es ! j \<in> set es"
      using 0 by (auto intro!: nth_mem)
    ultimately have "he_header (es ! 0) = he_header (es ! j)"
      using assms(2) by (auto simp: collision_free_def inj_on_def)
    then have "he_hash (es ! (j - 1)) = null_hash"
      using chained_nth(3) [OF assms(1), of 0] chained_nth(3) [OF assms(1), of j] 0
      by (cases es) auto
    moreover have "j - 1 < length es" using 0 by simp
    ultimately show False
      using chained_nth(2) [OF assms(1), of "j - 1"] assms(2) nth_mem [of "j - 1" es]
      by (metis collision_free_def image_eqI)
  qed
next
  case (Suc i)
  show ?case
  proof
    assume "he_hash (es ! Suc i) = he_hash (es ! j)"
    then have "H (he_header (es ! Suc i)) = H (he_header (es ! j))"
      using chained_nth(2) [OF assms(1)] Suc.prems by (metis less_trans)
    then have "he_header (es ! Suc i) = he_header (es ! j)"
      using assms(2) Suc.prems by (auto simp: collision_free_def inj_on_def)
    then have "he_hash (es ! i) = he_hash (es ! (j - 1))"
      using chained_nth(3) [OF assms(1), of "Suc i"] chained_nth(3) [OF assms(1), of j] Suc.prems by auto
    moreover have "he_hash (es ! i) \<noteq> he_hash (es ! (j - 1))"
      using Suc.prems by (intro Suc.IH) auto
    ultimately show False by simp
  qed
qed

text \<open>A header has the same height on every chain from the null hash that contains it.\<close>

lemma chain_position_unique:
  assumes "chained H 0 null_hash xs" "chained H 0 null_hash ys" "i < length xs" "j < length ys"
    and "he_header (xs ! i) = he_header (ys ! j)"
    and "collision_free H (he_header ` (set xs \<union> set ys))"
  shows "i = j"
  using assms(3-5)
proof (induction i arbitrary: j)
  case 0
  show ?case
  proof (rule ccontr)
    assume "0 \<noteq> j"
    then have "j - 1 < length ys" using 0 by simp
    moreover have "he_hash (ys ! (j - 1)) = null_hash"
      using chained_nth(3) [OF assms(1) 0(1)] chained_nth(3) [OF assms(2) 0(2)] 0(3) \<open>0 \<noteq> j\<close> by simp
    ultimately show False
      using chained_nth(2) [OF assms(2), of "j - 1"] assms(6) nth_mem [of "j - 1" ys]
      by (metis UnCI collision_free_def image_eqI)
  qed
next
  case (Suc i)
  have prev: "prev_blockhash (he_header (ys ! j)) = he_hash (xs ! i)"
    using chained_nth(3) [OF assms(1) Suc.prems(1)] Suc.prems(3) by simp
  have xi: "he_hash (xs ! i) = H (he_header (xs ! i))" "xs ! i \<in> set xs"
    using chained_nth(2) [OF assms(1), of i] Suc.prems(1) by auto
  show ?case
  proof (cases j)
    case 0
    then have "H (he_header (xs ! i)) = null_hash"
      using chained_nth(3) [OF assms(2) Suc.prems(2)] prev xi by simp
    then show ?thesis using assms(6) xi(2) by (metis UnCI collision_free_def image_eqI)
  next
    case (Suc k)
    then have k: "k < length ys" using Suc.prems(2) by simp
    then have "H (he_header (xs ! i)) = H (he_header (ys ! k))"
      using chained_nth(3) [OF assms(2) Suc.prems(2)] chained_nth(2) [OF assms(2) k] prev xi Suc by simp
    then have "he_header (xs ! i) = he_header (ys ! k)"
      using assms(6) xi(2) k by (auto simp: collision_free_def inj_on_def)
    with Suc.IH [of k] Suc.prems(1) k Suc show ?thesis by simp
  qed
qed

lemma chained_mem_hash: "chained H n p es \<Longrightarrow> e \<in> set es \<Longrightarrow> he_hash e = H (he_header e)"
  by (induction es arbitrary: n p) auto

lemma collision_free_mono: "collision_free H S \<Longrightarrow> T \<subseteq> S \<Longrightarrow> collision_free H T"
  by (auto simp: collision_free_def intro: inj_on_subset)

lemma chain_entry_unique:
  assumes ch: "chained H 0 null_hash xs" "chained H 0 null_hash ys" and mem: "x \<in> set xs" "y \<in> set ys"
    and eq: "he_hash x = he_hash y" and cf: "collision_free H (he_header ` (set xs \<union> set ys))"
  shows "x = y"
proof -
  from eq have "H (he_header x) = H (he_header y)"
    using chained_mem_hash ch mem by metis
  then have hd: "he_header x = he_header y"
    using cf mem by (auto simp: collision_free_def inj_on_def)
  from mem obtain i j where i: "i < length xs" "xs ! i = x" and j: "j < length ys" "ys ! j = y"
    by (auto simp: in_set_conv_nth)
  have "i = j" using chain_position_unique [OF ch i(1) j(1) _ cf] hd i(2) j(2) by simp
  then have "he_height x = he_height y"
    using chained_nth(1) [OF ch(1) i(1)] chained_nth(1) [OF ch(2) j(1)] i j by simp
  with hd eq show ?thesis by simp
qed

lemma chained_distinct:
  assumes "chained H 0 null_hash es" "collision_free H (he_header ` set es)"
  shows "distinct (map he_hash es)"
  unfolding distinct_conv_nth
  using chained_hash_neq [OF assms] by (auto simp: nat_neq_iff) metis

lemma push_entries_ok:
  "chained H (length (hl_headers hl)) (tiphash hl) es \<Longrightarrow>
     push_entries hl es =
       Inr \<lparr>hl_headers = hl_headers hl @ es,
            hl_heights = fold (\<lambda>e m. m(he_hash e \<mapsto> he_height e)) es (hl_heights hl)\<rparr>"
  by (induction es arbitrary: hl) (auto simp: tiphash_alt)

lemma push_entries_headers:
  "push_entries hl es = Inr hl' \<Longrightarrow>
     hl_headers hl' = hl_headers hl @ es \<and>
     hl_heights hl' = fold (\<lambda>e m. m(he_hash e \<mapsto> he_height e)) es (hl_heights hl)"
  by (induction es arbitrary: hl) (auto simp: and_then_eq_Inr)

lemma push_entries_chained:
  "push_entries hl es = Inr hl' \<Longrightarrow> (\<forall>e\<in>set es. he_hash e = H (he_header e)) \<Longrightarrow>
     chained H (length (hl_headers hl)) (tiphash hl) es"
proof (induction es arbitrary: hl)
  case (Cons e es)
  then have push: "push_entries
      \<lparr>hl_headers = hl_headers hl @ [e], hl_heights = (hl_heights hl)(he_hash e \<mapsto> he_height e)\<rparr> es = Inr hl'"
    and "he_height e = length (hl_headers hl)" "prev_blockhash (he_header e) = tiphash hl"
    by (auto simp: and_then_eq_Inr)
  with Cons.IH [OF push] Cons.prems(2) show ?case by (simp add: tiphash_last)
qed simp

lemma fold_heights_notin:
  "h \<notin> he_hash ` set es \<Longrightarrow> fold (\<lambda>e m. m(he_hash e \<mapsto> he_height e)) es m h = m h"
  by (induction es arbitrary: m) auto

lemma fold_heights_in:
  "distinct (map he_hash es) \<Longrightarrow> e \<in> set es \<Longrightarrow>
     fold (\<lambda>e m. m(he_hash e \<mapsto> he_height e)) es m (he_hash e) = Some (he_height e)"
  by (induction es arbitrary: m) (auto simp: fold_heights_notin)

lemma wf_headers_empty [simp]: "wf_headers H empty_headers"
  by (simp add: wf_headers_def empty_headers_def)

lemma wf_headers_chained: "wf_headers H hl \<Longrightarrow> chained H 0 null_hash (hl_headers hl)"
  by (simp add: wf_headers_def)

text \<open>Extending a prefix of a well-formed chain keeps the invariant if no hash collides.\<close>

lemma wf_headers_push:
  assumes wf: "wf_headers H hl"
    and new: "chained H n (last_hash null_hash (take n (hl_headers hl))) es"
    and n: "n \<le> length (hl_headers hl)"
    and cf: "collision_free H (he_header ` (set (take n (hl_headers hl)) \<union> set es))"
  shows "wf_headers H \<lparr>hl_headers = take n (hl_headers hl) @ es,
            hl_heights = fold (\<lambda>e m. m(he_hash e \<mapsto> he_height e)) es (hl_heights hl)\<rparr>"
proof -
  let ?xs = "take n (hl_headers hl) @ es"
  have ch: "chained H 0 null_hash ?xs"
    using chained_take [OF wf_headers_chained [OF wf]] new n by (auto simp: chained_append)
  have dist: "distinct (map he_hash ?xs)"
    using chained_distinct [OF ch] cf by simp
  have "fold (\<lambda>e m. m(he_hash e \<mapsto> he_height e)) es (hl_heights hl) (he_hash (?xs ! i)) = Some i"
    if i: "i < length ?xs" for i
  proof (cases "i < n")
    case True
    then have xi: "?xs ! i = hl_headers hl ! i" using n by (simp add: nth_append)
    have "take n (hl_headers hl) ! i \<in> set (take n (hl_headers hl))"
      using True n by (intro nth_mem) simp
    then have "he_hash (hl_headers hl ! i) \<notin> he_hash ` set es"
      using dist True by (auto simp: image_iff)
    then show ?thesis
      using wf True n xi by (simp add: fold_heights_notin wf_headers_def)
  next
    case False
    then have "?xs ! i \<in> set es" using i n by (auto simp: nth_append)
    then show ?thesis
      using fold_heights_in [of es "?xs ! i"] dist chained_nth(1) [OF ch i] by simp
  qed
  with ch show ?thesis by (simp add: wf_headers_def)
qed

subsection \<open>Looking headers up\<close>

text \<open>
  The view of the chain that the index, the daemon client and the queries use: entries by height
  and by hash.
\<close>

locale chain_view =
  fixes entries :: "'c \<Rightarrow> HeaderEntry list"
    and by_height :: "'c \<Rightarrow> nat \<Rightarrow> HeaderEntry option result"
    and by_hash :: "'c \<Rightarrow> BlockHash \<Rightarrow> HeaderEntry option"
    and invar :: "'c \<Rightarrow> bool"
  assumes by_height_spec: "invar c \<Longrightarrow>
      by_height c i = Inr (if i < length (entries c) then Some (entries c ! i) else None)"
    and by_hash_spec: "invar c \<Longrightarrow>
      by_hash c h = Some e \<longleftrightarrow> e \<in> set (entries c) \<and> he_hash e = h"
    and height_spec: "invar c \<Longrightarrow> i < length (entries c) \<Longrightarrow> he_height (entries c ! i) = i"
begin

lemma by_hash_None: "invar c \<Longrightarrow> by_hash c h = None \<longleftrightarrow> h \<notin> he_hash ` set (entries c)"
  using by_hash_spec [of c h] by (cases "by_hash c h") (auto, metis image_eqI)

lemma hash_height_agree:
  assumes "invar c" "by_hash c h = Some e"
  shows "by_height c (he_height e) = Inr (Some e)"
proof -
  from assms obtain i where "i < length (entries c)" "entries c ! i = e"
    by (auto simp: by_hash_spec in_set_conv_nth)
  with assms(1) height_spec by_height_spec show ?thesis by metis
qed

lemma entries_distinct: "invar c \<Longrightarrow> distinct (map he_hash (entries c))"
  unfolding distinct_conv_nth
  by (metis (no_types, lifting) by_hash_spec height_spec length_map nth_map nth_mem option.inject)

end

lemma header_by_blockhash_iff:
  assumes "wf_headers H hl"
  shows "header_by_blockhash hl h = Some e \<longleftrightarrow> e \<in> set (hl_headers hl) \<and> he_hash e = h"
proof
  assume "header_by_blockhash hl h = Some e"
  then show "e \<in> set (hl_headers hl) \<and> he_hash e = h"
    by (auto simp: header_by_blockhash_def headers_get_def split: option.splits if_splits)
next
  assume e: "e \<in> set (hl_headers hl) \<and> he_hash e = h"
  then obtain i where "i < length (hl_headers hl)" "hl_headers hl ! i = e"
    by (auto simp: in_set_conv_nth)
  with e assms show "header_by_blockhash hl h = Some e"
    by (auto simp: header_by_blockhash_def headers_get_def wf_headers_def)
qed

lemma header_by_height_eq:
  "wf_headers H hl \<Longrightarrow>
     header_by_height hl i = Inr (if i < length (hl_headers hl) then Some (hl_headers hl ! i) else None)"
  using chained_nth(1) [of H 0 null_hash "hl_headers hl" i]
  by (simp add: header_by_height_def headers_get_def wf_headers_def)

interpretation hl: chain_view hl_headers header_by_height header_by_blockhash "wf_headers H"
  for H :: "BlockHeader \<Rightarrow> BlockHash"
proof (unfold_locales, goal_cases)
  case (1 c i) then show ?case by (rule header_by_height_eq)
next
  case (2 c h e) then show ?case by (rule header_by_blockhash_iff)
next
  case (3 c i) then show ?case using chained_nth(1) [OF wf_headers_chained] by force
qed

subsection \<open>Ordering and applying new headers\<close>

abbreviation hashed :: "(BlockHeader \<Rightarrow> BlockHash) \<Rightarrow> BlockHeader list \<Rightarrow> HashedHeader list" where
  "hashed H hs \<equiv> map (\<lambda>h. \<lparr>hh_blockhash = H h, hh_header = h\<rparr>) hs"

lemma check_links_linked:
  "check_links (hashed H hs) = (if linked H hs then Inr () else Inl (Panic ''prev_blockhash''))"
  by (induction H hs rule: linked.induct) (auto simp: require_def)

lemma hash_headers_linked: "linked H hs \<Longrightarrow> hash_headers H hs = Inr (hashed H hs)"
  by (simp add: hash_headers_def check_links_linked)

lemma hash_headers_not_linked:
  "\<not> linked H hs \<Longrightarrow> hash_headers H hs = Inl (Panic ''prev_blockhash'')"
  by (simp add: hash_headers_def check_links_linked)

lemma linked_imp_chained:
  "linked H hs \<Longrightarrow> chained H n (prev_blockhash (hd hs)) (number_entries n (hashed H hs))"
  by (induction H hs arbitrary: n rule: linked.induct) auto

lemma number_entries_simps [simp]:
  "map he_header (number_entries n hs) = map hh_header hs"
  "length (number_entries n hs) = length hs"
  by (induction hs arbitrary: n) auto

lemma hd_number_entries:
  "hs \<noteq> [] \<Longrightarrow> he_height (hd (number_entries n hs)) = n \<and>
     he_header (hd (number_entries n hs)) = hh_header (hd hs)"
  by (cases hs) auto

lemma set_number_entries_hash:
  "\<forall>h\<in>set hs. hh_blockhash h = H (hh_header h) \<Longrightarrow>
     \<forall>e\<in>set (number_entries n hs). he_hash e = H (he_header e)"
  by (induction hs arbitrary: n) auto

text \<open>What \<open>order\<close> returns: the same headers, numbered from the height after their parent's.\<close>

lemma order_chained:
  assumes "order H hl hs = Inr es" "es \<noteq> []"
  obtains n prev where "chained H n prev es" "map he_header es = hs" "linked H hs"
    "n = 0 \<and> prev = null_hash \<or>
     (\<exists>p. header_by_blockhash hl prev = Some p \<and> n = he_height p + 1)"
proof -
  from assms(1) have lk: "linked H hs"
    by (rule contrapos_pp) (simp add: order_def hash_headers_not_linked)
  with assms have ne: "hs \<noteq> []" by (auto simp: order_def hash_headers_linked)
  with assms lk obtain n where es: "es = number_entries n (hashed H hs)"
    and n: "n = 0 \<and> prev_blockhash (hd hs) = null_hash \<or>
     (\<exists>p. header_by_blockhash hl (prev_blockhash (hd hs)) = Some p \<and> n = he_height p + 1)"
    by (cases hs) (auto simp: order_def hash_headers_linked Let_def result_simps split: if_splits)
  show thesis
    using that [of n "prev_blockhash (hd hs)"] linked_imp_chained [OF lk] n es lk by (simp add: comp_def)
qed

lemma check_entries_chained: "chained H n p es \<Longrightarrow> check_entries es = Inr ()"
  by (induction es arbitrary: n p rule: check_entries.induct) auto

text \<open>The successful runs of \<open>apply\<close> with a tip: truncate, then push.\<close>

lemma apply_headers_Inr:
  assumes "apply_headers hl es tip = Inr hl'" "tip \<noteq> null_hash"
  obtains n where "apply_height hl es tip = Inr n" "n \<le> length (hl_headers hl)"
    "push_entries (hl\<lparr>hl_headers := take n (hl_headers hl)\<rparr>) es = Inr hl'" "tiphash hl' = tip"
  using assms by (auto simp: apply_headers_def Let_def result_simps min_def split: if_splits)

lemma apply_headers_chain:
  assumes "apply_headers hl es tip = Inr hl'" "tip \<noteq> null_hash"
  shows "\<exists>n. apply_height hl es tip = Inr n \<and> n \<le> length (hl_headers hl) \<and>
    hl_headers hl' = take n (hl_headers hl) @ es \<and> tiphash hl' = tip"
proof -
  from apply_headers_Inr [OF assms] obtain n where n: "apply_height hl es tip = Inr n"
    "n \<le> length (hl_headers hl)" "tiphash hl' = tip"
    and push: "push_entries (hl\<lparr>hl_headers := take n (hl_headers hl)\<rparr>) es = Inr hl'" .
  from push_entries_headers [OF push] n show ?thesis by auto
qed

lemma apply_headers_wf:
  assumes wf: "wf_headers H hl" and ap: "apply_headers hl es tip = Inr hl'"
    and hash: "\<forall>e\<in>set es. he_hash e = H (he_header e)"
    and cf: "collision_free H (he_header ` (set (hl_headers hl) \<union> set es))"
  shows "wf_headers H hl'"
proof (cases "tip = null_hash")
  case True
  with ap show ?thesis by (simp add: apply_headers_def and_then_eq_Inr)
next
  case False
  from apply_headers_Inr [OF ap False] obtain n where n: "n \<le> length (hl_headers hl)"
    and push: "push_entries (hl\<lparr>hl_headers := take n (hl_headers hl)\<rparr>) es = Inr hl'" .
  from push_entries_chained [OF push hash] n
  have ch: "chained H n (last_hash null_hash (take n (hl_headers hl))) es"
    by (simp add: tiphash_alt)
  have "set (take n (hl_headers hl)) \<subseteq> set (hl_headers hl)" by (rule set_take_subset)
  then have "collision_free H (he_header ` (set (take n (hl_headers hl)) \<union> set es))"
    using cf by (auto simp: collision_free_def elim!: inj_on_subset)
  from wf_headers_push [OF wf ch n this] push_entries_headers [OF push]
  show ?thesis by (cases hl') simp
qed

text \<open>Headers that \<open>order\<close> has numbered are applied without a panic.\<close>

lemma apply_ordered_ok:
  assumes wf: "wf_headers H hl" and ord: "order H hl hs = Inr es" and ne: "es \<noteq> []"
    and nz: "\<forall>h\<in>set hs. H h \<noteq> null_hash"
  shows "\<exists>hl' n. apply_headers hl es (he_hash (last es)) = Inr hl' \<and>
    hl_headers hl' = take n (hl_headers hl) @ es \<and> n = he_height (hd es)"
proof -
  from order_chained [OF ord ne] obtain n prev where ch: "chained H n prev es"
    and hs: "map he_header es = hs"
    and n: "n = 0 \<and> prev = null_hash \<or> (\<exists>p. header_by_blockhash hl prev = Some p \<and> n = he_height p + 1)" .
  have last: "he_hash (last es) \<noteq> null_hash"
    using nz chained_nth(2) [OF ch, of "length es - 1"] ne hs by (auto simp: last_conv_nth)
  have hd: "he_height (hd es) = n" "prev_blockhash (he_header (hd es)) = prev"
    using ch ne by (cases es; simp)+
  have nle: "n \<le> length (hl_headers hl) \<and> tiphash (hl\<lparr>hl_headers := take n (hl_headers hl)\<rparr>) = prev
      \<and> (0 < n \<longrightarrow> (\<exists>p. headers_get hl (n - 1) = Some p \<and> he_hash p = prev))"
    using n
  proof
    assume "\<exists>p. header_by_blockhash hl prev = Some p \<and> n = he_height p + 1"
    then obtain p where p: "header_by_blockhash hl prev = Some p" "n = he_height p + 1" by blast
    from hl.hash_height_agree [OF wf p(1)] have "he_height p < length (hl_headers hl)"
      "hl_headers hl ! he_height p = p"
      using header_by_height_eq [OF wf] by (auto split: if_splits)
    moreover have "he_hash p = prev" using p(1) hl.by_hash_spec [OF wf] by blast
    ultimately show ?thesis
      using p(2) by (auto simp: tiphash_alt headers_get_def take_Suc_conv_app_nth)
  qed (simp add: tiphash_alt)
  have "apply_height hl es (he_hash (last es)) = Inr n"
    using nle hd ne by (cases es) (auto simp: apply_height_def Let_def tiphash_alt)
  moreover have "push_entries (hl\<lparr>hl_headers := take n (hl_headers hl)\<rparr>) es =
      Inr \<lparr>hl_headers = take n (hl_headers hl) @ es,
           hl_heights = fold (\<lambda>e m. m(he_hash e \<mapsto> he_height e)) es (hl_heights hl)\<rparr>"
    using push_entries_ok [of H "hl\<lparr>hl_headers := take n (hl_headers hl)\<rparr>" es] ch nle by simp
  moreover have "fold (\<lambda>e m. m(he_hash e \<mapsto> he_height e)) es (hl_heights hl) (he_hash (last es)) \<noteq> None"
    using ne by (induction es rule: rev_induct) auto
  ultimately show ?thesis
    using last nle check_entries_chained [OF ch] hd ne
    by (simp add: apply_headers_def Let_def tiphash_last)
qed

lemma order_hashes:
  assumes "order H hl hs = Inr es"
  shows "\<forall>e\<in>set es. he_hash e = H (he_header e)"
proof (cases "es = []")
  case False
  with order_chained [OF assms] obtain n prev where "chained H n prev es" by metis
  from chained_nth(2) [OF this] show ?thesis by (auto simp: in_set_conv_nth)
qed simp

lemma order_headers:
  assumes "order H hl hs = Inr es" "es \<noteq> []"
  shows "map he_header es = hs"
  by (rule order_chained [OF assms])

section \<open>Properties\<close>

text \<open>A concrete hash and headers for the witnesses.\<close>

definition demo_hash :: "BlockHeader \<Rightarrow> BlockHash" where
  "demo_hash h = ucast (bh_nonce h) # replicate 31 1"

definition demo_header :: "u32 \<Rightarrow> BlockHash \<Rightarrow> BlockHeader" where
  "demo_header nonce prev = \<lparr>bh_version = 1, prev_blockhash = prev, merkle_root = null_hash,
     bh_time = 0, bh_bits = 0, bh_nonce = nonce\<rparr>"

definition demo_chain :: HeaderList where
  "demo_chain =
     (let g = demo_header 1 null_hash; a = demo_header 2 (demo_hash g)
      in \<lparr>hl_headers = [\<lparr>he_height = 0, he_hash = demo_hash g, he_header = g\<rparr>,
                         \<lparr>he_height = 1, he_hash = demo_hash a, he_header = a\<rparr>],
          hl_heights = [demo_hash g \<mapsto> 0, demo_hash a \<mapsto> 1]\<rparr>)"

lemmas demo_defs = demo_hash_def demo_header_def demo_chain_def Let_def

lemma demo_cons_not_null [simp]: "x # replicate 31 (1::u8) \<noteq> null_hash"
  by (simp add: null_hash_def numeral_eq_Suc)

lemma demo_hash_not_null: "demo_hash h \<noteq> null_hash"
  by (simp add: demo_hash_def)

lemma demo_chain_wf: "wf_headers demo_hash demo_chain"
  by (simp add: wf_headers_def demo_defs less_Suc_eq)

text \<open>C9: A reorganisation applies cleanly. If the index's header list is well formed, \<open>order\<close> accepts
  the new headers and no hash collides, then \<open>apply\<close> with the hash of the last new header does not
  panic, the list is well formed again, the chain is the old one cut at the new headers' first height
  followed by exactly the new headers, and its tip is the last of them.\<close>

theorem reorg_correct:
  assumes "wf_headers H hl" "order H hl hs = Inr es" "es \<noteq> []"
    and "collision_free H (he_header ` set (hl_headers hl) \<union> set hs)"
  shows "\<exists>hl'. apply_headers hl es (he_hash (last es)) = Inr hl' \<and> wf_headers H hl' \<and>
    map he_header (hl_headers hl') =
      take (he_height (hd es)) (map he_header (hl_headers hl)) @ hs \<and>
    tiphash hl' = H (last hs)"
proof -
  from assms(4) have nz: "\<forall>h\<in>set hs. H h \<noteq> null_hash" by (simp add: collision_free_def)
  from apply_ordered_ok [OF assms(1-3) nz] obtain hl' where
    ap: "apply_headers hl es (he_hash (last es)) = Inr hl'"
    and hs': "hl_headers hl' = take (he_height (hd es)) (hl_headers hl) @ es" by blast
  have map: "map he_header es = hs" using order_headers [OF assms(2,3)] .
  then have "collision_free H (he_header ` (set (hl_headers hl) \<union> set es))"
    using assms(4) by (auto simp: image_Un)
  from apply_headers_wf [OF assms(1) ap order_hashes [OF assms(2)] this]
  have "wf_headers H hl'" .
  moreover have "he_hash (last es) = H (last hs)"
    using order_hashes [OF assms(2)] assms(3) map by (metis last_in_set last_map)
  ultimately show ?thesis
    using ap hs' map assms(3) by (simp add: take_map tiphash_last)
qed

theorem reorg_correct_witness:
  "\<exists>hl'. apply_headers demo_chain
      [\<lparr>he_height = 1, he_hash = demo_hash (demo_header 3 (demo_hash (demo_header 1 null_hash))),
        he_header = demo_header 3 (demo_hash (demo_header 1 null_hash))\<rparr>]
      (demo_hash (demo_header 3 (demo_hash (demo_header 1 null_hash)))) = Inr hl' \<and>
    wf_headers demo_hash hl'"
proof -
  let ?h = "demo_header 3 (demo_hash (demo_header 1 null_hash))"
  have ord: "order demo_hash demo_chain [?h] =
      Inr [\<lparr>he_height = 1, he_hash = demo_hash ?h, he_header = ?h\<rparr>]"
    by (simp add: order_def hash_headers_def header_by_blockhash_def headers_get_def demo_defs)
  have "collision_free demo_hash (he_header ` set (hl_headers demo_chain) \<union> set [?h])"
    by (simp add: collision_free_def demo_hash_not_null) (simp add: demo_defs)
  from reorg_correct [OF demo_chain_wf ord _ this] show ?thesis by auto
qed

text \<open>C10: Stale heights never leak. After a successful \<open>apply\<close> a block is found by hash exactly when it is
  on the new chain, the entry found is the one at its own height, and every block the reorganisation
  disconnected is reported as unknown although its height may still be in the heights map.\<close>

theorem lookup_after_apply:
  assumes "wf_headers H hl" "apply_headers hl es tip = Inr hl'"
    and "\<forall>e\<in>set es. he_hash e = H (he_header e)"
    and "collision_free H (he_header ` (set (hl_headers hl) \<union> set es))"
  shows "(header_by_blockhash hl' h = Some e \<longleftrightarrow> e \<in> set (hl_headers hl') \<and> he_hash e = h) \<and>
    (header_by_blockhash hl' h = Some e \<longrightarrow> header_by_height hl' (he_height e) = Inr (Some e)) \<and>
    (e \<in> set (hl_headers hl) \<longrightarrow> e \<notin> set (hl_headers hl') \<longrightarrow> tip \<noteq> null_hash \<longrightarrow>
      header_by_blockhash hl' (he_hash e) = None)"
proof -
  have wf: "wf_headers H hl'" by (rule apply_headers_wf [OF assms])
  have "header_by_blockhash hl' (he_hash e) = None"
    if e: "e \<in> set (hl_headers hl)" "e \<notin> set (hl_headers hl')" and tip: "tip \<noteq> null_hash"
  proof -
    obtain n where "hl_headers hl' = take n (hl_headers hl) @ es"
      using apply_headers_chain [OF assms(2) tip] by auto
    then have "set (hl_headers hl') \<union> set (hl_headers hl) \<subseteq> set (hl_headers hl) \<union> set es"
      using set_take_subset by fastforce
    then have cf: "collision_free H (he_header ` (set (hl_headers hl') \<union> set (hl_headers hl)))"
      using collision_free_mono [OF assms(4)] by (meson image_mono)
    have "e \<in> set (hl_headers hl')" if "x \<in> set (hl_headers hl')" "he_hash x = he_hash e" for x
      using chain_entry_unique [OF wf_headers_chained [OF wf] wf_headers_chained [OF assms(1)] that(1) e(1) that(2) cf]
        that(1) by simp
    with e(2) show ?thesis using hl.by_hash_None [OF wf] by (metis imageE)
  qed
  then show ?thesis using hl.by_hash_spec [OF wf] hl.hash_height_agree [OF wf] by blast
qed

definition demo_fork :: HeaderEntry where
  "demo_fork = (let h = demo_header 3 (demo_hash (demo_header 1 null_hash))
     in \<lparr>he_height = 1, he_hash = demo_hash h, he_header = h\<rparr>)"

theorem lookup_after_apply_witness:
  "\<exists>hl'. apply_headers demo_chain [demo_fork] (he_hash demo_fork) = Inr hl' \<and>
     header_by_blockhash hl' (demo_hash (demo_header 2 (demo_hash (demo_header 1 null_hash)))) = None"
proof -
  let ?e = "hl_headers demo_chain ! 1"
  let ?hl = "\<lparr>hl_headers = [hl_headers demo_chain ! 0, demo_fork],
    hl_heights = (hl_heights demo_chain)(he_hash demo_fork \<mapsto> 1)\<rparr>"
  have ap: "apply_headers demo_chain [demo_fork] (he_hash demo_fork) = Inr ?hl"
    by (simp add: apply_headers_def apply_height_def headers_get_def tiphash_def demo_fork_def demo_defs)
  have hash: "\<forall>e\<in>set [demo_fork]. he_hash e = demo_hash (he_header e)"
    by (simp add: demo_fork_def demo_defs)
  have cf: "collision_free demo_hash (he_header ` (set (hl_headers demo_chain) \<union> set [demo_fork]))"
    by (simp add: collision_free_def demo_hash_not_null) (simp add: demo_fork_def demo_defs)
  have "?e \<in> set (hl_headers demo_chain)" "?e \<notin> set (hl_headers ?hl)" "he_hash demo_fork \<noteq> null_hash"
    by (simp_all add: demo_fork_def demo_defs)
  with lookup_after_apply [OF demo_chain_wf ap hash cf, of "he_hash ?e" ?e]
  have "header_by_blockhash ?hl (he_hash ?e) = None" by blast
  then have "header_by_blockhash ?hl (demo_hash (demo_header 2 (demo_hash (demo_header 1 null_hash)))) = None"
    by (simp add: demo_chain_def Let_def)
  with ap show ?thesis by blast
qed

text \<open>When the daemon's tip is a block of the indexed chain and there are no new headers, \<open>apply\<close> trims
  the chain to end at that block, keeps everything below it and stays well formed.\<close>

lemma apply_trims_to_tip:
  assumes "wf_headers H hl" "i < length (hl_headers hl)" "he_hash (hl_headers hl ! i) \<noteq> null_hash"
  shows "apply_headers hl [] (he_hash (hl_headers hl ! i)) =
      Inr (hl\<lparr>hl_headers := take (Suc i) (hl_headers hl)\<rparr>) \<and>
    wf_headers H (hl\<lparr>hl_headers := take (Suc i) (hl_headers hl)\<rparr>)"
proof
  have "hl_heights hl (he_hash (hl_headers hl ! i)) = Some i"
    using assms by (simp add: wf_headers_def)
  then show "apply_headers hl [] (he_hash (hl_headers hl ! i)) =
      Inr (hl\<lparr>hl_headers := take (Suc i) (hl_headers hl)\<rparr>)"
    using assms(2,3)
    by (simp add: apply_headers_def apply_height_def Let_def tiphash_alt take_Suc_conv_app_nth)
  show "wf_headers H (hl\<lparr>hl_headers := take (Suc i) (hl_headers hl)\<rparr>)"
    using assms(1) chained_take by (auto simp: wf_headers_def)
qed

text \<open>C11: \<open>order\<close> has no error path but the panics the source asserts: it returns entries exactly when the
  headers are linked in sequence and the first one is a genesis header or continues a block of the
  indexed chain, and it panics otherwise.\<close>

theorem order_panics_iff:
  "(is_ok (order H hl hs) \<longleftrightarrow>
      linked H hs \<and>
      (hs = [] \<or> prev_blockhash (hd hs) = null_hash \<or>
       (\<exists>parent. header_by_blockhash hl (prev_blockhash (hd hs)) = Some parent))) \<and>
   (is_panic (order H hl hs) \<longleftrightarrow> \<not> is_ok (order H hl hs))"
proof (cases "linked H hs")
  case True
  then show ?thesis
    by (cases hs) (auto simp: order_def hash_headers_linked Let_def expect_def split: option.splits)
next
  case False
  then have "\<exists>m. order H hl hs = Inl (Panic m)"
    using hash_headers_not_linked [OF False] by (auto simp: order_def)
  with False show ?thesis by auto
qed

end
