(* ===== verification/BTreeMap.thy ===== *)
theory BTreeMap
  imports Prelude
begin

text \<open>
  The ordered map of the standard library (\<^verbatim>\<open>BTreeMap\<close>) as an association list with strictly
  increasing keys: lookup, insertion, removal and the range from a lower bound.  The mempool
  index keeps its rows in such a map, and it also serves as the reference instance of the
  ordered key-value database.
\<close>

fun bt_insert :: "'k::linorder \<Rightarrow> 'v \<Rightarrow> ('k \<times> 'v) list \<Rightarrow> ('k \<times> 'v) list" where
  "bt_insert k v [] = [(k, v)]"
| "bt_insert k v ((k', v') # m) =
     (if k < k' then (k, v) # (k', v') # m
      else if k = k' then (k, v) # m
      else (k', v') # bt_insert k v m)"

fun bt_remove :: "'k::linorder \<Rightarrow> ('k \<times> 'v) list \<Rightarrow> ('k \<times> 'v) list" where
  "bt_remove k [] = []"
| "bt_remove k ((k', v') # m) = (if k = k' then m else (k', v') # bt_remove k m)"

definition bt_range_from :: "'k::linorder \<Rightarrow> ('k \<times> 'v) list \<Rightarrow> ('k \<times> 'v) list" where
  "bt_range_from p m = dropWhile (\<lambda>(k, _). k < p) m"

definition bt_ok :: "('k::linorder \<times> 'v) list \<Rightarrow> bool" where
  "bt_ok m \<longleftrightarrow> sorted_wrt (<) (map fst m)"

named_theorems bt_simps \<open>rules for ordered maps\<close>

lemma bt_ok_Nil [simp, bt_simps]: "bt_ok []"
  by (simp add: bt_ok_def)

lemma bt_ok_Cons [bt_simps]:
  "bt_ok ((k, v) # m) \<longleftrightarrow> bt_ok m \<and> (\<forall>k'\<in>fst ` set m. k < k')"
  by (auto simp: bt_ok_def)

lemma bt_ok_distinct: "bt_ok m \<Longrightarrow> distinct (map fst m)"
  by (induction m) (auto simp: bt_ok_def)

lemma keys_bt_insert [simp]: "fst ` set (bt_insert k v m) = insert k (fst ` set m)"
  by (induction k v m rule: bt_insert.induct) (simp_all add: insert_commute)

lemma bt_ok_insert [bt_simps]: "bt_ok m \<Longrightarrow> bt_ok (bt_insert k v m)"
proof (induction m)
  case (Cons a m)
  obtain k' v' where a: "a = (k', v')" by fastforce
  from Cons a show ?case
    by (cases k k' rule: linorder_cases) (auto simp: bt_ok_Cons simp del: list.set_map dest: less_trans)
qed (simp add: bt_ok_Cons)

lemma map_of_bt_insert [bt_simps]: "map_of (bt_insert k v m) = (map_of m)(k \<mapsto> v)"
  by (induction m) (auto simp: fun_eq_iff)

lemma set_bt_remove_subset: "set (bt_remove k m) \<subseteq> set m"
  by (induction m) (auto split: if_splits)

lemma bt_ok_remove [bt_simps]: "bt_ok m \<Longrightarrow> bt_ok (bt_remove k m)"
proof (induction m)
  case (Cons a m)
  then show ?case
    using set_bt_remove_subset [of k m] by (cases a) (auto simp: bt_ok_Cons)
qed simp

lemma map_of_notin: "k \<notin> fst ` set m \<Longrightarrow> map_of m k = None"
  by (simp add: map_of_eq_None_iff)

lemma map_of_bt_remove [bt_simps]: "bt_ok m \<Longrightarrow> map_of (bt_remove k m) = (map_of m)(k := None)"
proof (induction m)
  case (Cons a m)
  then show ?case
    by (cases a) (auto simp: bt_ok_Cons fun_eq_iff intro!: map_of_notin)
qed simp

lemma map_of_eq_Some_bt: "bt_ok m \<Longrightarrow> map_of m k = Some v \<longleftrightarrow> (k, v) \<in> set m"
  by (simp add: bt_ok_distinct)

lemma set_bt_range_from:
  "bt_ok m \<Longrightarrow> set (bt_range_from p m) = {(k, v). map_of m k = Some v \<and> p \<le> k}"
proof (induction m)
  case (Cons a m)
  obtain k v where a: "a = (k, v)" by fastforce
  show ?case
  proof (cases "k < p")
    case True
    with Cons a show ?thesis by (auto simp: bt_range_from_def bt_ok_Cons split: if_splits)
  next
    case False
    with Cons.prems a have all: "\<forall>(k', v')\<in>set (a # m). p \<le> k'"
      by (auto simp: bt_ok_Cons not_less dest!: bspec)
    from False a have "bt_range_from p (a # m) = a # m" by (simp add: bt_range_from_def)
    with all show ?thesis using map_of_eq_Some_bt [OF Cons.prems] by auto
  qed
qed (simp add: bt_range_from_def)

lemma sorted_bt_range_from: "bt_ok m \<Longrightarrow> bt_ok (bt_range_from p m)"
  by (induction m) (auto simp: bt_range_from_def bt_ok_Cons)

lemma bt_eqI: "bt_ok m \<Longrightarrow> bt_ok m' \<Longrightarrow> map_of m = map_of m' \<Longrightarrow> m = m'"
proof -
  assume ok: "bt_ok m" "bt_ok m'" and eq: "map_of m = map_of m'"
  have set: "set m = set m'"
    using map_of_eq_Some_bt [OF ok(1)] map_of_eq_Some_bt [OF ok(2)] eq by auto
  then have "set (map fst m) = set (map fst m')" by simp
  then have keys: "map fst m = map fst m'"
    using ok by (auto simp: bt_ok_def intro: sorted_distinct_set_unique strict_sorted_equal)
  show "m = m'"
  proof (rule nth_equalityI)
    show len: "length m = length m'" using keys by (metis length_map)
    fix i assume i: "i < length m"
    then have k: "fst (m ! i) = fst (m' ! i)" using keys len by (metis nth_map)
    have "map_of m (fst (m ! i)) = Some (snd (m ! i))" "map_of m' (fst (m' ! i)) = Some (snd (m' ! i))"
      using i len bt_ok_distinct [OF ok(1)] bt_ok_distinct [OF ok(2)] by auto
    with k eq show "m ! i = m' ! i" by (simp add: prod_eq_iff)
  qed
qed

end
