(* ===== verification/Store.thy ===== *)
theory Store
  imports BTreeMap
begin

text \<open>
  The row store (\<^verbatim>\<open>src/src/store.rs\<close>, \<^verbatim>\<open>src/src/fake.rs\<close>).  A \<^verbatim>\<open>&dyn ReadStore\<close> is a record of
  its two methods.  RocksDB is a parameter: the record \<open>rocksdb\<close> holds the calls the source makes,
  and the locale \<open>rocksdb_store\<close> states what its documentation promises of them (an ordered map,
  forward iteration from a key, batches applied in order).  The locales \<open>read_store\<close> and
  \<open>write_store\<close> are the contracts of the two traits; \<open>DbStore\<close> satisfies both over any such
  database, \<open>FakeStore\<close> the first one with empty contents.
\<close>

section \<open>Rows and the store traits\<close>

definition ascii :: "string \<Rightarrow> Bytes" where
  "ascii s = map of_char s"

record Row =
  row_key :: Bytes
  row_value :: Bytes

definition into_pair :: "Row \<Rightarrow> Bytes \<times> Bytes" where
  "into_pair r = (row_key r, row_value r)"

definition mk_row :: "Bytes \<times> Bytes \<Rightarrow> Row" where
  "mk_row kv = \<lparr>row_key = fst kv, row_value = snd kv\<rparr>"

record ReadStore =
  rs_get :: "Bytes \<Rightarrow> Bytes option"
  rs_scan :: "Bytes \<Rightarrow> Row list"

lemma into_pair_mk_row [simp]: "into_pair (mk_row kv) = kv"
  by (simp add: into_pair_def mk_row_def)

lemma mk_row_into_pair [simp]: "mk_row (into_pair r) = r"
  by (simp add: into_pair_def mk_row_def)

lemma row_key_mk_row [simp]: "row_key (mk_row kv) = fst kv"
  by (simp add: mk_row_def)

lemma inj_into_pair: "inj into_pair"
  by (rule inj_on_inverseI [where g = mk_row]) simp

text \<open>What a reader may rely on: \<open>get\<close> is lookup, \<open>scan\<close> lists the rows under a prefix in key order.\<close>

locale read_store =
  fixes rs :: "'s \<Rightarrow> ReadStore"
    and invar :: "'s \<Rightarrow> bool"
    and contents :: "'s \<Rightarrow> Bytes \<Rightarrow> Bytes option"
  assumes get_contents: "invar s \<Longrightarrow> rs_get (rs s) k = contents s k"
    and scan_set: "invar s \<Longrightarrow>
      into_pair ` set (rs_scan (rs s) p) = {(k, v). contents s k = Some v \<and> prefix p k}"
    and scan_sorted: "invar s \<Longrightarrow> sorted_wrt (<) (map row_key (rs_scan (rs s) p))"
begin

lemma scan_mem:
  assumes "invar s"
  shows "r \<in> set (rs_scan (rs s) p) \<longleftrightarrow>
    contents s (row_key r) = Some (row_value r) \<and> prefix p (row_key r)"
proof -
  have "r \<in> set (rs_scan (rs s) p) \<longleftrightarrow> into_pair r \<in> into_pair ` set (rs_scan (rs s) p)"
    by (simp add: inj_image_mem_iff [OF inj_into_pair])
  then show ?thesis
    unfolding scan_set [OF assms] by (simp add: into_pair_def)
qed

lemma scan_distinct: "invar s \<Longrightarrow> distinct (map row_key (rs_scan (rs s) p))"
  using scan_sorted [of s p] by (simp add: strict_sorted_iff)

lemma scan_Nil_iff:
  assumes "invar s"
  shows "rs_scan (rs s) p = [] \<longleftrightarrow> (\<forall>k. prefix p k \<longrightarrow> contents s k = None)"
proof -
  have "rs_scan (rs s) p = [] \<longleftrightarrow> {(k, v). contents s k = Some v \<and> prefix p k} = {}"
    unfolding scan_set [OF assms, symmetric] by simp
  then show ?thesis by auto
qed

lemma scan_unique:
  assumes "invar s" "prefix p k" "contents s k = Some v"
    and "\<And>k'. prefix p k' \<Longrightarrow> contents s k' \<noteq> None \<Longrightarrow> k' = k"
  shows "rs_scan (rs s) p = [\<lparr>row_key = k, row_value = v\<rparr>]"
proof -
  have "r = \<lparr>row_key = k, row_value = v\<rparr>" if "r \<in> set (rs_scan (rs s) p)" for r
  proof -
    from that have "contents s (row_key r) = Some (row_value r)" "prefix p (row_key r)"
      by (simp_all add: scan_mem [OF assms(1)])
    with assms(3,4) have "row_key r = k" "row_value r = v" by force+
    then show ?thesis by simp
  qed
  moreover have "\<lparr>row_key = k, row_value = v\<rparr> \<in> set (rs_scan (rs s) p)"
    using assms(2,3) by (simp add: scan_mem [OF assms(1)])
  ultimately have "set (rs_scan (rs s) p) = {\<lparr>row_key = k, row_value = v\<rparr>}"
    by blast
  moreover have "distinct (rs_scan (rs s) p)"
    using scan_distinct [OF assms(1)] by (simp add: distinct_map)
  ultimately show ?thesis
    by (rule distinct_set_singleton)
qed

end

text \<open>The contract of \<^verbatim>\<open>WriteStore\<close> over \<^verbatim>\<open>ReadStore\<close>: rows are put in order, a flush keeps the contents.\<close>

locale write_store = read_store rs invar contents
  for rs :: "'s \<Rightarrow> ReadStore" and invar :: "'s \<Rightarrow> bool"
    and contents :: "'s \<Rightarrow> Bytes \<Rightarrow> Bytes option" +
  fixes put :: "'s \<Rightarrow> Row list \<Rightarrow> bool \<Rightarrow> 's"
    and sync_all :: "'s \<Rightarrow> 's"
  assumes write_contents: "invar s \<Longrightarrow>
      contents (put s rows sync) = contents s ++ map_of (rev (map into_pair rows))"
    and flush_contents: "invar s \<Longrightarrow> contents (sync_all s) = contents s"
    and write_invar: "invar s \<Longrightarrow> invar (put s rows sync)"
    and flush_invar: "invar s \<Longrightarrow> invar (sync_all s)"
begin

lemma get_after_write:
  "invar s \<Longrightarrow> rs_get (rs (put s rows sync)) k =
    (case map_of (rev (map into_pair rows)) k of None \<Rightarrow> rs_get (rs s) k | Some v \<Rightarrow> Some v)"
  by (cases "map_of (rev (map into_pair rows)) k")
    (simp_all add: get_contents write_invar write_contents map_add_def)

lemma get_after_flush: "invar s \<Longrightarrow> rs_get (rs (sync_all s)) k = rs_get (rs s) k"
  by (simp add: get_contents flush_invar flush_contents)

lemma scan_after_write_mem:
  "invar s \<Longrightarrow> r \<in> set (rs_scan (rs (put s rows sync)) p) \<longleftrightarrow>
    prefix p (row_key r) \<and>
    (case map_of (rev (map into_pair rows)) (row_key r) of
       None \<Rightarrow> r \<in> set (rs_scan (rs s) p) | Some v \<Rightarrow> row_value r = v)"
  by (cases "map_of (rev (map into_pair rows)) (row_key r)")
    (auto simp: scan_mem write_invar write_contents map_add_def)

end

section \<open>DbStore\<close>

text \<open>
  The RocksDB calls of the source: \<^verbatim>\<open>DB::open\<close> on a new path, \<^verbatim>\<open>get\<close>, \<^verbatim>\<open>iterator(From(key, Forward))\<close>,
  \<^verbatim>\<open>prefix_iterator\<close>, \<^verbatim>\<open>write_opt\<close> of a batch of puts (with the sync and disable-WAL options),
  \<^verbatim>\<open>compact_range\<close>.
\<close>

record 'db rocksdb =
  db_new :: 'db
  db_get :: "'db \<Rightarrow> Bytes \<Rightarrow> Bytes option"
  db_iterator_from :: "'db \<Rightarrow> Bytes \<Rightarrow> (Bytes \<times> Bytes) list"
  db_prefix_iterator :: "'db \<Rightarrow> Bytes \<Rightarrow> (Bytes \<times> Bytes) list"
  db_write_opt :: "'db \<Rightarrow> (Bytes \<times> Bytes) list \<Rightarrow> bool \<Rightarrow> bool \<Rightarrow> 'db"
  db_compact_range :: "'db \<Rightarrow> 'db"

record 'db DbStore =
  ds_db :: 'db
  ds_bulk_import :: bool
  ds_low_memory :: bool
  ds_auto_compactions :: bool  \<comment> \<open>the database option \<open>disable_auto_compactions\<close>, negated\<close>

definition DATABASE_VERSION :: string where
  "DATABASE_VERSION = ''1.1''"

definition version_marker :: Row where
  "version_marker = \<lparr>row_key = ascii ''VER'', row_value = ascii DATABASE_VERSION\<rparr>"

definition full_compaction_marker :: Row where
  "full_compaction_marker = \<lparr>row_key = ascii ''F'', row_value = []\<rparr>"

definition dbstore_get :: "'db rocksdb \<Rightarrow> 'db DbStore \<Rightarrow> Bytes \<Rightarrow> Bytes option" where
  "dbstore_get R s key = db_get R (ds_db s) key"

text \<open>\<^verbatim>\<open>scan\<close>: iterate forward from the prefix and stop at the first key that does not start with it.\<close>

fun scan_loop :: "Bytes \<Rightarrow> (Bytes \<times> Bytes) list \<Rightarrow> Row list \<Rightarrow> Row list" where
  "scan_loop p [] rows = rows"
| "scan_loop p ((key, value) # it) rows =
     (if \<not> prefix p key then rows
      else scan_loop p it (rows @ [\<lparr>row_key = key, row_value = value\<rparr>]))"

definition dbstore_scan :: "'db rocksdb \<Rightarrow> 'db DbStore \<Rightarrow> Bytes \<Rightarrow> Row list" where
  "dbstore_scan R s p = scan_loop p (db_iterator_from R (ds_db s) p) []"

definition dbstore_read :: "'db rocksdb \<Rightarrow> 'db DbStore \<Rightarrow> ReadStore" where
  "dbstore_read R s = \<lparr>rs_get = dbstore_get R s, rs_scan = dbstore_scan R s\<rparr>"

definition dbstore_write :: "'db rocksdb \<Rightarrow> 'db DbStore \<Rightarrow> Row list \<Rightarrow> bool \<Rightarrow> 'db DbStore" where
  "dbstore_write R s rows sync =
     (let batch = map into_pair rows
      in s\<lparr>ds_db := db_write_opt R (ds_db s) batch sync (\<not> sync)\<rparr>)"

definition dbstore_flush :: "'db rocksdb \<Rightarrow> 'db DbStore \<Rightarrow> 'db DbStore" where
  "dbstore_flush R s = s\<lparr>ds_db := db_write_opt R (ds_db s) [] True False\<rparr>"

text \<open>
  \<^verbatim>\<open>DbStore::open\<close>: \<open>path\<close> is the database found at the path, if any.  A new database gets the
  version marker.  (The statistics thread that \<^verbatim>\<open>open_opts\<close> starts only reads.)
\<close>

definition dbstore_open_opts :: "'db rocksdb \<Rightarrow> 'db option \<Rightarrow> bool \<Rightarrow> bool \<Rightarrow> 'db DbStore" where
  "dbstore_open_opts R path bulk low =
     (let is_new_db = (path = None);
          store = \<lparr>ds_db = (case path of None \<Rightarrow> db_new R | Some d \<Rightarrow> d),
                   ds_bulk_import = bulk, ds_low_memory = low, ds_auto_compactions = (\<not> bulk)\<rparr>
      in if is_new_db then dbstore_flush R (dbstore_write R store [version_marker] True) else store)"

definition dbstore_open :: "'db rocksdb \<Rightarrow> 'db option \<Rightarrow> bool \<Rightarrow> 'db DbStore" where
  "dbstore_open R path low = dbstore_open_opts R path True low"

text \<open>\<^verbatim>\<open>enable_compaction\<close> sets \<open>bulk_import\<close> on a clone of the options, so the store keeps its own.\<close>

definition dbstore_enable_compaction :: "'db DbStore \<Rightarrow> 'db DbStore" where
  "dbstore_enable_compaction s =
     (if ds_bulk_import s then s\<lparr>ds_auto_compactions := True\<rparr> else s)"

definition dbstore_compact :: "'db rocksdb \<Rightarrow> 'db DbStore \<Rightarrow> 'db DbStore" where
  "dbstore_compact R s = s\<lparr>ds_db := db_compact_range R (ds_db s)\<rparr>"

definition full_compaction :: "'db rocksdb \<Rightarrow> 'db DbStore \<Rightarrow> 'db DbStore" where
  "full_compaction R store =
     (let store = dbstore_flush R store;
          store = dbstore_enable_compaction (dbstore_compact R store)
      in dbstore_write R store [full_compaction_marker] True)"

definition is_fully_compacted :: "ReadStore \<Rightarrow> bool" where
  "is_fully_compacted store = (rs_get store (row_key full_compaction_marker) \<noteq> None)"

text \<open>
  The stored version is compared as text with \<^verbatim>\<open>DATABASE_VERSION\<close>; the constant is ASCII, so bytes
  that are no valid UTF-8 differ from it as the source's \<^verbatim>\<open>Err\<close> branch requires.
\<close>

definition is_compatible_version :: "ReadStore \<Rightarrow> bool" where
  "is_compatible_version store =
     (case rs_get store (row_key version_marker) of
        Some v \<Rightarrow> v = ascii DATABASE_VERSION
      | None \<Rightarrow> False)"

subsection \<open>ScanIterator\<close>

record ScanIterator =
  si_prefix :: Bytes
  si_iter :: "(Bytes \<times> Bytes) list"
  si_done :: bool

definition iter_scan :: "'db rocksdb \<Rightarrow> 'db DbStore \<Rightarrow> Bytes \<Rightarrow> ScanIterator" where
  "iter_scan R s p = \<lparr>si_prefix = p, si_iter = db_prefix_iterator R (ds_db s) p, si_done = False\<rparr>"

definition scan_next :: "ScanIterator \<Rightarrow> Row option \<times> ScanIterator" where
  "scan_next it =
     (if si_done it then (None, it)
      else case si_iter it of
        [] \<Rightarrow> (None, it)
      | (key, value) # rest \<Rightarrow>
          (if \<not> prefix (si_prefix it) key then (None, it\<lparr>si_iter := rest, si_done := True\<rparr>)
           else (Some \<lparr>row_key = key, row_value = value\<rparr>, it\<lparr>si_iter := rest\<rparr>)))"

text \<open>Draining the iterator, as a \<^verbatim>\<open>for\<close> loop does: \<open>n\<close> bounds the number of calls.\<close>

fun scan_collect :: "nat \<Rightarrow> ScanIterator \<Rightarrow> Row list" where
  "scan_collect 0 it = []"
| "scan_collect (Suc n) it =
     (case scan_next it of (None, it') \<Rightarrow> [] | (Some r, it') \<Rightarrow> r # scan_collect n it')"

subsection \<open>FakeStore\<close>

definition fake_read :: "unit \<Rightarrow> ReadStore" where
  "fake_read _ = \<lparr>rs_get = (\<lambda>_. None), rs_scan = (\<lambda>_. [])\<rparr>"

definition fake_write :: "unit \<Rightarrow> Row list \<Rightarrow> bool \<Rightarrow> unit" where
  "fake_write s rows sync = ()"

definition fake_flush :: "unit \<Rightarrow> unit" where
  "fake_flush s = ()"

section \<open>What RocksDB promises, and the reference instance\<close>

locale rocksdb_store =
  fixes R :: "'db rocksdb"
    and dinv :: "'db \<Rightarrow> bool"
    and dmap :: "'db \<Rightarrow> Bytes \<Rightarrow> Bytes option"
  assumes new_inv: "dinv (db_new R)"
    and new_map: "dmap (db_new R) = (\<lambda>_. None)"
    and get_map: "dinv d \<Longrightarrow> db_get R d k = dmap d k"
    and iter_set: "dinv d \<Longrightarrow> set (db_iterator_from R d p) = {(k, v). dmap d k = Some v \<and> p \<le> k}"
    and iter_sorted: "dinv d \<Longrightarrow> sorted_wrt (<) (map fst (db_iterator_from R d p))"
    and write_inv: "dinv d \<Longrightarrow> dinv (db_write_opt R d batch sync nowal)"
    and write_map: "dinv d \<Longrightarrow> dmap (db_write_opt R d batch sync nowal) = dmap d ++ map_of (rev batch)"
    and compact_inv: "dinv d \<Longrightarrow> dinv (db_compact_range R d)"
    and compact_map: "dinv d \<Longrightarrow> dmap (db_compact_range R d) = dmap d"

definition btree_db :: "(Bytes \<times> Bytes) list rocksdb" where
  "btree_db =
     \<lparr>db_new = [],
      db_get = map_of,
      db_iterator_from = (\<lambda>d p. bt_range_from p d),
      db_prefix_iterator = (\<lambda>d p. bt_range_from p d),
      db_write_opt = (\<lambda>d batch sync nowal. fold (\<lambda>(k, v). bt_insert k v) batch d),
      db_compact_range = (\<lambda>d. d)\<rparr>"

lemma fold_bt_insert:
  "bt_ok d \<Longrightarrow> bt_ok (fold (\<lambda>(k, v). bt_insert k v) b d) \<and>
    map_of (fold (\<lambda>(k, v). bt_insert k v) b d) = map_of d ++ map_of (rev b)"
proof (induction b arbitrary: d)
  case (Cons kv b)
  obtain k v where kv: "kv = (k, v)" by fastforce
  from Cons.IH [OF bt_ok_insert [OF Cons.prems, of k v]] kv show ?case
    by (simp add: map_of_bt_insert map_add_def fun_eq_iff split: option.splits)
qed simp

interpretation refdb: rocksdb_store btree_db bt_ok map_of
proof (unfold_locales, goal_cases)
  case (4 d p) then show ?case by (simp add: btree_db_def set_bt_range_from)
next
  case (5 d p) then show ?case
    using sorted_bt_range_from [of d p] by (simp add: btree_db_def bt_ok_def)
next
  case (6 d b) then show ?case using fold_bt_insert [of d b] by (simp add: btree_db_def)
next
  case (7 d b) then show ?case using fold_bt_insert [of d b] by (simp add: btree_db_def)
qed (simp_all add: btree_db_def fun_eq_iff)

section \<open>DbStore implements the traits\<close>

lemma scan_loop_eq:
  "scan_loop p it rows = rows @ map mk_row (takeWhile (\<lambda>kv. prefix p (fst kv)) it)"
  by (induction p it rows rule: scan_loop.induct) (auto simp: mk_row_def)

text \<open>A sorted forward iteration stopped at the first foreign key yields exactly the prefix range.\<close>

lemma takeWhile_prefix_sorted:
  fixes it :: "(Bytes \<times> 'v) list"
  assumes "sorted_wrt (<) (map fst it)" "\<forall>kv\<in>set it. p \<le> fst kv"
  shows "takeWhile (\<lambda>kv. prefix p (fst kv)) it = filter (\<lambda>kv. prefix p (fst kv)) it"
proof (rule takeWhile_eq_filter_downclosed [where R = "\<lambda>x y. fst x < fst y"])
  show "sorted_wrt (\<lambda>x y. fst x < fst y) it" using assms(1) by (simp add: sorted_wrt_map)
  fix x y
  assume "fst x < fst y" "prefix p (fst y)" "x \<in> set it"
  then show "prefix p (fst x)"
    using assms(2) by (intro prefix_interval [of p "fst x" "fst y"]) auto
qed

lemma sorted_wrt_filter_map:
  "sorted_wrt R (map f xs) \<Longrightarrow> sorted_wrt R (map f (filter P xs))"
  by (induction xs) auto

context rocksdb_store
begin

lemma dbstore_scan_filter:
  assumes "dinv (ds_db s)"
  shows "dbstore_scan R s p =
    map mk_row (filter (\<lambda>kv. prefix p (fst kv)) (db_iterator_from R (ds_db s) p))"
proof -
  have "\<forall>kv\<in>set (db_iterator_from R (ds_db s) p). p \<le> fst kv"
    using iter_set [OF assms] by auto
  from takeWhile_prefix_sorted [OF iter_sorted [OF assms] this] show ?thesis
    by (simp add: dbstore_scan_def scan_loop_eq)
qed

lemma dbstore_scan_pairs:
  "dinv (ds_db s) \<Longrightarrow>
    into_pair ` set (dbstore_scan R s p) = {(k, v). dmap (ds_db s) k = Some v \<and> prefix p k}"
  by (auto simp: dbstore_scan_filter image_image iter_set prefix_le)

lemma dbstore_scan_sorted:
  "dinv (ds_db s) \<Longrightarrow> sorted_wrt (<) (map row_key (dbstore_scan R s p))"
  by (simp add: dbstore_scan_filter comp_def iter_sorted sorted_wrt_filter_map)

end

sublocale rocksdb_store \<subseteq> dbs: write_store "dbstore_read R" "\<lambda>s. dinv (ds_db s)"
  "\<lambda>s. dmap (ds_db s)" "dbstore_write R" "dbstore_flush R"
proof (unfold_locales, goal_cases)
  case (1 s k) then show ?case by (simp add: dbstore_read_def dbstore_get_def get_map)
next
  case (2 s p) then show ?case by (simp add: dbstore_read_def dbstore_scan_pairs)
next
  case (3 s p) then show ?case by (simp add: dbstore_read_def dbstore_scan_sorted)
next
  case (4 s rows sync) then show ?case by (simp add: dbstore_write_def write_map)
next
  case (5 s) then show ?case by (simp add: dbstore_flush_def write_map)
next
  case (6 s rows sync) then show ?case by (simp add: dbstore_write_def write_inv)
next
  case (7 s) then show ?case by (simp add: dbstore_flush_def write_inv)
qed

context rocksdb_store
begin

lemmas dbs_write_store = dbs.write_store_axioms

end

interpretation fake: read_store fake_read "\<lambda>_. True" "\<lambda>_ _. None"
  by unfold_locales (auto simp: fake_read_def)

text \<open>Draining a \<^verbatim>\<open>ScanIterator\<close> with enough calls gives the rows of the range.\<close>

lemma scan_collect_eq:
  "length it < n \<Longrightarrow> scan_collect n \<lparr>si_prefix = p, si_iter = it, si_done = False\<rparr> =
     map mk_row (takeWhile (\<lambda>kv. prefix p (fst kv)) it)"
proof (induction it arbitrary: n)
  case Nil
  then show ?case by (cases n) (simp_all add: scan_next_def)
next
  case (Cons kv it)
  obtain k v where kv: "kv = (k, v)" by fastforce
  obtain m where n: "n = Suc m" using Cons.prems by (cases n) auto
  have "scan_collect m \<lparr>si_prefix = p, si_iter = it, si_done = False\<rparr> =
      map mk_row (takeWhile (\<lambda>kv. prefix p (fst kv)) it)"
    using Cons.prems n by (intro Cons.IH) simp
  then show ?case by (simp add: n kv scan_next_def mk_row_def)
qed

lemma marker_keys: "row_key version_marker \<noteq> row_key full_compaction_marker"
  by (simp add: version_marker_def full_compaction_marker_def ascii_def)

context rocksdb_store
begin

lemma full_compaction_map:
  "dinv (ds_db s) \<Longrightarrow> dinv (ds_db (full_compaction R s)) \<and>
    dmap (ds_db (full_compaction R s)) = (dmap (ds_db s))(row_key full_compaction_marker \<mapsto> [])"
  by (simp add: full_compaction_def dbstore_write_def dbstore_flush_def dbstore_compact_def
      dbstore_enable_compaction_def Let_def write_inv write_map compact_inv compact_map
      full_compaction_marker_def into_pair_def)

lemma open_new_map:
  "dinv (ds_db (dbstore_open R None low)) \<and>
    dmap (ds_db (dbstore_open R None low)) = [row_key version_marker \<mapsto> ascii DATABASE_VERSION]"
  by (simp add: dbstore_open_def dbstore_open_opts_def dbstore_write_def dbstore_flush_def Let_def
      write_inv write_map new_inv new_map version_marker_def into_pair_def fun_eq_iff map_add_def)

end

section \<open>Properties\<close>

text \<open>C13: A scan of the database store returns exactly the stored rows under the prefix, in strictly ascending key
  order, although it stops at the first foreign key; and draining the lazy iterator over the same
  range gives the same rows.\<close>

theorem dbstore_scan_exact:
  assumes "rocksdb_store R dinv dmap" "dinv (ds_db s)"
  shows "set (dbstore_scan R s p) = {r. dmap (ds_db s) (row_key r) = Some (row_value r) \<and> prefix p (row_key r)} \<and>
    sorted_wrt (<) (map row_key (dbstore_scan R s p)) \<and>
    (db_prefix_iterator R (ds_db s) p = db_iterator_from R (ds_db s) p \<longrightarrow>
       scan_collect (Suc (length (db_iterator_from R (ds_db s) p))) (iter_scan R s p) = dbstore_scan R s p)"
proof (intro conjI impI)
  note ws = rocksdb_store.dbs_write_store [OF assms(1), THEN write_store.axioms(1)]
  show "set (dbstore_scan R s p) = {r. dmap (ds_db s) (row_key r) = Some (row_value r) \<and> prefix p (row_key r)}"
    using read_store.scan_mem [OF ws assms(2), of _ p] by (auto simp: dbstore_read_def)
  show "sorted_wrt (<) (map row_key (dbstore_scan R s p))"
    by (rule rocksdb_store.dbstore_scan_sorted [OF assms])
  assume "db_prefix_iterator R (ds_db s) p = db_iterator_from R (ds_db s) p"
  then show "scan_collect (Suc (length (db_iterator_from R (ds_db s) p))) (iter_scan R s p) = dbstore_scan R s p"
    unfolding iter_scan_def dbstore_scan_def by (subst scan_collect_eq) (simp_all add: scan_loop_eq)
qed

theorem dbstore_scan_exact_witness:
  "set (dbstore_scan btree_db \<lparr>ds_db = [([1], [7]), ([1, 2], []), ([2], [])], ds_bulk_import = True,
      ds_low_memory = False, ds_auto_compactions = False\<rparr> [1]) =
    {\<lparr>row_key = [1], row_value = [7]\<rparr>, \<lparr>row_key = [1, 2], row_value = []\<rparr>}"
proof -
  let ?s = "\<lparr>ds_db = [([1], [7]), ([1, 2], []), ([2], [])], ds_bulk_import = True,
      ds_low_memory = False, ds_auto_compactions = False\<rparr> :: (Bytes \<times> Bytes) list DbStore"
  have "bt_ok (ds_db ?s)" by (simp add: bt_ok_def)
  from dbstore_scan_exact [OF refdb.rocksdb_store_axioms this, of "[1]"]
  have "set (dbstore_scan btree_db ?s [1]) =
      {r. map_of (ds_db ?s) (row_key r) = Some (row_value r) \<and> prefix [1] (row_key r)}" by simp
  also have "\<dots> = {\<lparr>row_key = [1], row_value = [7]\<rparr>, \<lparr>row_key = [1, 2], row_value = []\<rparr>}"
    by (auto split: if_splits) 
  finally show ?thesis .
qed

text \<open>Opening a new database gives an empty store of the current version that is not marked as compacted; a full
  compaction sets exactly the compaction marker and keeps every other row, so a compatible database
  stays compatible.\<close>

lemma open_and_compact:
  assumes "rocksdb_store R dinv dmap" "dinv (ds_db s)"
  shows "is_compatible_version (dbstore_read R (dbstore_open R None low)) \<and>
    \<not> is_fully_compacted (dbstore_read R (dbstore_open R None low)) \<and>
    is_fully_compacted (dbstore_read R (full_compaction R s)) \<and>
    rs_get (dbstore_read R (full_compaction R s)) =
      (rs_get (dbstore_read R s))(row_key full_compaction_marker \<mapsto> []) \<and>
    is_compatible_version (dbstore_read R (full_compaction R s)) = is_compatible_version (dbstore_read R s)"
proof -
  note ws = rocksdb_store.dbs_write_store [OF assms(1), THEN write_store.axioms(1)]
  note new = rocksdb_store.open_new_map [OF assms(1), of low]
  note full = rocksdb_store.full_compaction_map [OF assms]
  have get: "dinv (ds_db t) \<Longrightarrow> rs_get (dbstore_read R t) k = dmap (ds_db t) k" for t k
    by (rule read_store.get_contents [OF ws])
  show ?thesis
    using new full assms(2) marker_keys
    by (auto simp: is_compatible_version_def is_fully_compacted_def get fun_eq_iff)
qed

end
