(* ===== verification/Codec.thy ===== *)
theory Codec
  imports Bitcoin
begin

text \<open>
  The third-party functions the indexer calls, as the fields of one record of parameters: SHA-256,
  transaction ids and block hashes, the \<^verbatim>\<open>bincode\<close> encoding of the field types of the row structs
  (\<^verbatim>\<open>serde\<close> writes the fields of a struct in order), \<^verbatim>\<open>unsigned_varint\<close>, the consensus encoding of
  block headers and hashes, and the OP\_RETURN and CashAccount parsers (the C function fills the
  account it is given and returns a code; the account is read only after a positive code).  The locale \<open>codec_laws\<close> states what
  the crates document: each encoding is decoded from the front of any byte string that starts with
  it, single bytes and fixed-size arrays are written as they are, hashes have 32 bytes.  The
  reference instance \<open>std_libs\<close> is the documented format (little-endian fixed-width integers, 64-bit
  length prefixes, LEB128) with a stand-in for the hash functions.
\<close>

record account =
  acc_name :: Bytes

record libs =
  lib_sha256 :: "Bytes \<Rightarrow> FullHash"
  lib_txid :: "Transaction \<Rightarrow> Txid"
  lib_block_hash :: "BlockHeader \<Rightarrow> BlockHash"
  lib_ser_u8 :: "u8 \<Rightarrow> Bytes"
  lib_ser_array :: "Bytes \<Rightarrow> Bytes"
  lib_ser_vec :: "Bytes \<Rightarrow> Bytes"
  lib_ser_u32 :: "u32 \<Rightarrow> Bytes"
  lib_de_u8 :: "Bytes \<Rightarrow> (u8 \<times> Bytes) option"
  lib_de_array :: "nat \<Rightarrow> Bytes \<Rightarrow> (Bytes \<times> Bytes) option"
  lib_de_vec :: "Bytes \<Rightarrow> (Bytes \<times> Bytes) option"
  lib_de_u32 :: "Bytes \<Rightarrow> (u32 \<times> Bytes) option"
  lib_varint_encode :: "u64 \<Rightarrow> Bytes"
  lib_varint_decode :: "Bytes \<Rightarrow> (u64 \<times> Bytes) option"
  lib_ser_header :: "BlockHeader \<Rightarrow> Bytes"
  lib_de_header :: "Bytes \<Rightarrow> BlockHeader option"
  lib_ser_hash :: "BlockHash \<Rightarrow> Bytes"
  lib_de_hash :: "Bytes \<Rightarrow> BlockHash option"
  lib_is_op_return :: "Bytes \<Rightarrow> bool"
  lib_malloc_failed :: int
  lib_cashacc_parse :: "Bytes \<Rightarrow> int \<times> account"

text \<open>The hashes in a block header are 32-byte arrays.\<close>

definition wf_header :: "BlockHeader \<Rightarrow> bool" where
  "wf_header h \<longleftrightarrow> length (prev_blockhash h) = 32 \<and> length (merkle_root h) = 32"

text \<open>A length that a \<^verbatim>\<open>u64\<close> length prefix can hold.\<close>

definition fits_u64 :: "nat \<Rightarrow> bool" where
  "fits_u64 n \<longleftrightarrow> n < 2 ^ 64"

locale codec_laws =
  fixes L :: libs
  assumes ser_u8: "lib_ser_u8 L c = [c]"
    and ser_array: "lib_ser_array L a = a"
    and de_u8: "lib_de_u8 L (c # r) = Some (c, r)"
    and de_array: "length a = n \<Longrightarrow> lib_de_array L n (a @ r) = Some (a, r)"
    and de_vec: "fits_u64 (length v) \<Longrightarrow> lib_de_vec L (lib_ser_vec L v @ r) = Some (v, r)"
    and de_u32: "lib_de_u32 L (lib_ser_u32 L x @ r) = Some (x, r)"
    and varint: "lib_varint_decode L (lib_varint_encode L y @ r) = Some (y, r)"
    and varint_len: "length (lib_varint_encode L y) \<le> 10"
    and de_header: "wf_header h \<Longrightarrow> lib_de_header L (lib_ser_header L h) = Some h"
    and ser_hash: "length b = 32 \<Longrightarrow> lib_ser_hash L b = b"
    and de_hash: "length b = 32 \<Longrightarrow> lib_de_hash L b = Some b"
    and sha256_len: "length (lib_sha256 L b) = 32"
    and txid_len: "length (lib_txid L tx) = 32"
    and block_hash_len: "length (lib_block_hash L h) = 32"
begin

lemma varint_vec_len: "fits_u64 (length (lib_varint_encode L y))"
  unfolding fits_u64_def by (rule le_less_trans [OF varint_len]) simp

lemma varint_inj: "lib_varint_encode L x = lib_varint_encode L y \<longleftrightarrow> x = y"
proof
  assume "lib_varint_encode L x = lib_varint_encode L y"
  then have "Some (x, [] :: Bytes) = Some (y, [])"
    by (simp only: varint [symmetric])
  then show "x = y" by simp
qed simp

text \<open>Length-prefixed vectors are self-delimiting: one is a prefix of another only if they are equal.\<close>

lemma ser_vec_prefix:
  assumes "fits_u64 (length v)" "fits_u64 (length w)" "prefix (lib_ser_vec L v @ r) (lib_ser_vec L w @ s)"
  shows "v = w \<and> prefix r s"
proof -
  obtain t where "lib_ser_vec L w @ s = (lib_ser_vec L v @ r) @ t"
    using assms(3) by (rule prefixE)
  then have t: "lib_ser_vec L w @ s = lib_ser_vec L v @ (r @ t)"
    by (simp only: append_assoc)
  have "Some (w, s) = lib_de_vec L (lib_ser_vec L w @ s)"
    by (rule de_vec [OF assms(2), symmetric])
  also have "\<dots> = Some (v, r @ t)"
    unfolding t by (rule de_vec [OF assms(1)])
  finally show ?thesis by simp
qed

lemma ser_vec_prefix_iff:
  assumes "fits_u64 (length v)" "fits_u64 (length w)"
  shows "prefix (lib_ser_vec L v @ r) (lib_ser_vec L w @ s) \<longleftrightarrow> v = w \<and> prefix r s"
proof
  assume "prefix (lib_ser_vec L v @ r) (lib_ser_vec L w @ s)"
  then show "v = w \<and> prefix r s" by (rule ser_vec_prefix [OF assms])
qed simp

end

section \<open>The documented formats\<close>

text \<open>Little-endian bytes of a number, least significant first.\<close>

fun le_bytes :: "nat \<Rightarrow> nat \<Rightarrow> Bytes" where
  "le_bytes 0 n = []"
| "le_bytes (Suc k) n = of_nat (n mod 256) # le_bytes k (n div 256)"

fun le_value :: "Bytes \<Rightarrow> nat" where
  "le_value [] = 0"
| "le_value (b # bs) = unat b + 256 * le_value bs"

lemma length_le_bytes [simp]: "length (le_bytes k n) = k"
  by (induction k arbitrary: n) auto

lemma le_value_bytes: "n < 256 ^ k \<Longrightarrow> le_value (le_bytes k n) = n"
proof (induction k arbitrary: n)
  case (Suc k)
  then have "n div 256 < 256 ^ k" by (simp add: less_mult_imp_div_less mult.commute)
  with Suc.IH have "le_value (le_bytes k (n div 256)) = n div 256" by blast
  moreover have "unat (of_nat (n mod 256) :: u8) = n mod 256"
    by (simp add: unat_of_nat)
  ultimately show ?case by simp
qed simp

lemma unat_of_nat_small8: "n < 256 \<Longrightarrow> unat (of_nat n :: u8) = n"
  by (simp only: unat_of_nat) simp

function leb128 :: "nat \<Rightarrow> Bytes" where
  "leb128 n = (if n < 128 then [of_nat n] else of_nat (n mod 128 + 128) # leb128 (n div 128))"
  by pat_completeness auto
termination by (relation "measure id") auto

declare leb128.simps [simp del]

fun leb128_decode :: "Bytes \<Rightarrow> (nat \<times> Bytes) option" where
  "leb128_decode [] = None"
| "leb128_decode (b # bs) =
     (if unat b < 128 then Some (unat b, bs)
      else case leb128_decode bs of
        None \<Rightarrow> None
      | Some (v, r) \<Rightarrow> Some (v * 128 + (unat b - 128), r))"

lemma leb128_roundtrip: "leb128_decode (leb128 n @ r) = Some (n, r)"
proof (induction n rule: leb128.induct)
  case (1 n)
  show ?case
  proof (cases "n < 128")
    case True
    then show ?thesis by (subst leb128.simps) (simp add: unat_of_nat)
  next
    case False
    have "unat (of_nat (n mod 128 + 128) :: u8) = n mod 128 + 128"
      using unat_of_nat_small8 [of "n mod 128 + 128"] by simp
    with False 1 show ?thesis by (subst leb128.simps) simp
  qed
qed

lemma length_leb128: "n < 128 ^ k \<Longrightarrow> 0 < k \<Longrightarrow> length (leb128 n) \<le> k"
proof (induction n arbitrary: k rule: leb128.induct)
  case (1 n)
  show ?case
  proof (cases "n < 128")
    case True
    with 1 show ?thesis by (subst leb128.simps) simp
  next
    case False
    with 1 obtain j where k: "k = Suc j" "0 < j" by (cases k; cases "k - 1") auto
    with 1 have "n div 128 < 128 ^ j" by (simp add: less_mult_imp_div_less mult.commute)
    with 1 False k show ?thesis by (subst leb128.simps) simp
  qed
qed

text \<open>A stand-in for the hash functions: any byte string folded to 32 bytes.\<close>

definition fold32 :: "Bytes \<Rightarrow> Bytes" where
  "fold32 b = take 32 (b @ replicate 32 1)"

definition header_bytes :: "BlockHeader \<Rightarrow> Bytes" where
  "header_bytes h =
     le_bytes 4 (unat (bh_version h)) @ prev_blockhash h @ merkle_root h @
     le_bytes 4 (unat (bh_time h)) @ le_bytes 4 (unat (bh_bits h)) @ le_bytes 4 (unat (bh_nonce h))"

definition header_of_bytes :: "Bytes \<Rightarrow> BlockHeader option" where
  "header_of_bytes b =
     (if length b = 80
      then Some \<lparr>bh_version = of_nat (le_value (take 4 b)),
                 prev_blockhash = take 32 (drop 4 b),
                 merkle_root = take 32 (drop 36 b),
                 bh_time = of_nat (le_value (take 4 (drop 68 b))),
                 bh_bits = of_nat (le_value (take 4 (drop 72 b))),
                 bh_nonce = of_nat (le_value (take 4 (drop 76 b)))\<rparr>
      else None)"

lemma word32_le_bytes: "of_nat (le_value (le_bytes 4 (unat x))) = (x :: 32 word)"
proof -
  have "unat x < 256 ^ 4"
    by (rule less_le_trans [OF unsigned_less]) simp
  then have "le_value (le_bytes 4 (unat x)) = unat x"
    by (rule le_value_bytes)
  then show ?thesis by simp
qed

lemma unat64_less: "unat (x :: 64 word) < 18446744073709551616"
  by (rule less_le_trans [OF unsigned_less]) simp

lemma header_bytes_roundtrip: "wf_header h \<Longrightarrow> header_of_bytes (header_bytes h) = Some h"
  by (cases h) (simp add: header_of_bytes_def header_bytes_def wf_header_def word32_le_bytes)

definition take_bytes :: "nat \<Rightarrow> Bytes \<Rightarrow> (Bytes \<times> Bytes) option" where
  "take_bytes n b = (if n \<le> length b then Some (take n b, drop n b) else None)"

lemma take_bytes_append [simp]: "length a = n \<Longrightarrow> take_bytes n (a @ r) = Some (a, r)"
  by (auto simp: take_bytes_def)

text \<open>Transaction ids of the stand-in: the bytes that identify a transaction in the examples.\<close>

definition tx_bytes :: "Transaction \<Rightarrow> Bytes" where
  "tx_bytes tx = le_bytes 4 (unat (tx_lock_time tx)) @ le_bytes 4 (unat (tx_version tx)) @
     concat (map (\<lambda>i. op_txid (previous_output i)) (tx_input tx)) @
     concat (map script_pubkey (tx_output tx))"

definition std_libs :: libs where
  "std_libs = \<lparr>
     lib_sha256 = fold32,
     lib_txid = (\<lambda>tx. fold32 (tx_bytes tx)),
     lib_block_hash = (\<lambda>h. fold32 (drop 68 (header_bytes h) @ prev_blockhash h)),
     lib_ser_u8 = (\<lambda>c. [c]),
     lib_ser_array = (\<lambda>a. a),
     lib_ser_vec = (\<lambda>v. le_bytes 8 (length v) @ v),
     lib_ser_u32 = (\<lambda>x. le_bytes 4 (unat x)),
     lib_de_u8 = (\<lambda>b. case b of [] \<Rightarrow> None | c # r \<Rightarrow> Some (c, r)),
     lib_de_array = take_bytes,
     lib_de_vec = (\<lambda>b. case take_bytes 8 b of
        None \<Rightarrow> None | Some (n, r) \<Rightarrow> take_bytes (le_value n) r),
     lib_de_u32 = (\<lambda>b. case take_bytes 4 b of
        None \<Rightarrow> None | Some (n, r) \<Rightarrow> Some (of_nat (le_value n), r)),
     lib_varint_encode = (\<lambda>x. leb128 (unat x)),
     lib_varint_decode = (\<lambda>b. case leb128_decode b of
        None \<Rightarrow> None | Some (v, r) \<Rightarrow> if v < 2 ^ 64 then Some (of_nat v, r) else None),
     lib_ser_header = header_bytes,
     lib_de_header = header_of_bytes,
     lib_ser_hash = (\<lambda>b. b),
     lib_de_hash = (\<lambda>b. if length b = 32 then Some b else None),
     lib_is_op_return = (\<lambda>s. s \<noteq> [] \<and> hd s = 0x6a),
     lib_malloc_failed = -1,
     lib_cashacc_parse =
       (\<lambda>s. if 1 < length s then (1, \<lparr>acc_name = tl s\<rparr>) else (0, \<lparr>acc_name = []\<rparr>))\<rparr>"

lemmas std_libs_simps = std_libs_def libs.simps

interpretation std: codec_laws std_libs
proof (unfold_locales, goal_cases)
  case (5 v r)
  then have "le_value (le_bytes 8 (length v)) = length v" by (intro le_value_bytes) (simp add: fits_u64_def)
  then show ?case by (simp add: std_libs_def)
next
  case (7 y r)
  then show ?case by (simp add: std_libs_def leb128_roundtrip unat64_less)
next
  case (8 y)
  then show ?case using unat64_less [of y] by (simp add: std_libs_def length_leb128)
qed (simp_all add: std_libs_def word32_le_bytes header_bytes_roundtrip fold32_def)

end
