(* ===== verification/Scripthash.thy ===== *)
theory Scripthash
  imports Codec
begin

text \<open>
  Script hashes (\<^verbatim>\<open>src/src/scripthash.rs\<close>).  The \<^verbatim>\<open>hex\<close> crate, the address decoder and the script
  builder are parameters; the locale \<open>hex_codec\<close> states that decoding inverts encoding and accepts
  any case.
\<close>

record hex_crate =
  hex_encode :: "Bytes \<Rightarrow> string"
  hex_decode :: "string \<Rightarrow> Bytes option"

definition HASH_LEN :: nat where
  "HASH_LEN = 32"

definition to_le_hex :: "hex_crate \<Rightarrow> FullHash \<Rightarrow> string" where
  "to_le_hex X h = hex_encode X (rev h)"

definition full_hash :: "Bytes \<Rightarrow> FullHash result" where
  "full_hash hash =
     (if length hash = HASH_LEN then Inr hash
      else Inl (Panic ''failed to convert into FullHash''))"

datatype HashType = KeyHash | ScriptHash

datatype script_op = Opcode string | PushSlice Bytes

record address_crate =
  addr_decode :: "string \<Rightarrow> string + (HashType \<times> Bytes)"
  into_script :: "script_op list \<Rightarrow> Bytes"

definition compute_script_hash :: "libs \<Rightarrow> Bytes \<Rightarrow> FullHash" where
  "compute_script_hash L data = lib_sha256 L data"

definition addr_to_scripthash :: "libs \<Rightarrow> address_crate \<Rightarrow> string \<Rightarrow> FullHash result" where
  "addr_to_scripthash L A addr =
     (case addr_decode A addr of
        Inl e \<Rightarrow> bail e
      | Inr (hash_type, body) \<Rightarrow>
          let pubkey =
            (case hash_type of
               KeyHash \<Rightarrow> into_script A [Opcode ''OP_DUP'', Opcode ''OP_HASH160'', PushSlice body,
                                        Opcode ''OP_EQUALVERIFY'', Opcode ''OP_CHECKSIG'']
             | ScriptHash \<Rightarrow> into_script A [Opcode ''OP_HASH160'', PushSlice body, Opcode ''OP_EQUAL''])
          in Inr (compute_script_hash L pubkey))"

definition decode_scripthash :: "hex_crate \<Rightarrow> string \<Rightarrow> FullHash result" where
  "decode_scripthash X hexstr =
     and_then (ok_or (Msg ''failed to parse scripthash'') (hex_decode X hexstr)) (\<lambda>bytes.
       if length bytes \<noteq> 32
       then bail (''invalid scripthash length ('' @ show_nat (length bytes) @ '' != 32)'')
       else full_hash (rev bytes))"

section \<open>The hex codec\<close>

locale hex_codec =
  fixes X :: hex_crate
    and lower :: "string \<Rightarrow> string"
  assumes decode_encode: "hex_decode X (hex_encode X b) = Some b"
    and encode_decode: "hex_decode X s = Some b \<Longrightarrow> hex_encode X b = lower s"
begin

lemma decode_to_le_hex: "length h = 32 \<Longrightarrow> decode_scripthash X (to_le_hex X h) = Inr h"
  by (simp add: decode_scripthash_def to_le_hex_def decode_encode full_hash_def HASH_LEN_def)

lemma to_le_hex_decode: "decode_scripthash X s = Inr h \<Longrightarrow> to_le_hex X h = lower s"
  by (auto simp: decode_scripthash_def to_le_hex_def full_hash_def HASH_LEN_def result_simps
      encode_decode split: if_splits)

lemma to_le_hex_inj: "to_le_hex X h = to_le_hex X k \<Longrightarrow> h = k"
  unfolding to_le_hex_def using decode_encode by (metis option.inject rev_rev_ident)

lemma decode_not_panic: "\<not> is_panic (decode_scripthash X s)"
  by (cases "hex_decode X s") (auto simp: decode_scripthash_def full_hash_def HASH_LEN_def)

end

text \<open>The documented behaviour of the crate: two lower-case digits per byte, either case accepted.\<close>

definition nibble :: "nat \<Rightarrow> char" where
  "nibble n = char_of (if n < 10 then 48 + n else 87 + n)"

definition unnibble :: "char \<Rightarrow> nat option" where
  "unnibble c = (let n = (of_char c :: nat) in
     if 48 \<le> n \<and> n \<le> 57 then Some (n - 48)
     else if 97 \<le> n \<and> n \<le> 102 then Some (n - 87)
     else if 65 \<le> n \<and> n \<le> 70 then Some (n - 55)
     else None)"

fun hex_enc :: "Bytes \<Rightarrow> string" where
  "hex_enc [] = []"
| "hex_enc (b # bs) = nibble (unat b div 16) # nibble (unat b mod 16) # hex_enc bs"

fun hex_dec :: "string \<Rightarrow> Bytes option" where
  "hex_dec [] = Some []"
| "hex_dec [c] = None"
| "hex_dec (c # d # cs) =
     (case unnibble c of None \<Rightarrow> None | Some m \<Rightarrow>
      case unnibble d of None \<Rightarrow> None | Some n \<Rightarrow>
      case hex_dec cs of None \<Rightarrow> None | Some bs \<Rightarrow> Some (of_nat (16 * m + n) # bs))"

definition lower_char :: "char \<Rightarrow> char" where
  "lower_char c = (let n = (of_char c :: nat) in if 65 \<le> n \<and> n \<le> 90 then char_of (n + 32) else c)"

definition std_hex :: hex_crate where
  "std_hex = \<lparr>hex_encode = hex_enc, hex_decode = hex_dec\<rparr>"

lemma unnibble_nibble: "n < 16 \<Longrightarrow> unnibble (nibble n) = Some n"
  by (simp add: unnibble_def nibble_def)

lemma unnibble_less: "unnibble c = Some n \<Longrightarrow> n < 16"
  by (auto simp: unnibble_def Let_def split: if_splits)

lemma nibble_unnibble: "unnibble c = Some n \<Longrightarrow> nibble n = lower_char c"
proof -
  assume "unnibble c = Some n"
  then show ?thesis
    by (auto simp: unnibble_def nibble_def lower_char_def Let_def split: if_splits)
qed

lemma hex_dec_enc: "hex_dec (hex_enc b) = Some b"
proof (induction b)
  case (Cons a b)
  have "unat a < 256" by (rule less_le_trans [OF unsigned_less]) simp
  then have "unat a div 16 < 16" by simp
  with Cons show ?case by (simp add: unnibble_nibble)
qed simp

lemma hex_enc_dec: "hex_dec s = Some b \<Longrightarrow> hex_enc b = map lower_char s"
proof (induction s arbitrary: b rule: hex_dec.induct)
  case (3 c d cs)
  then obtain m n bs where *: "unnibble c = Some m" "unnibble d = Some n" "hex_dec cs = Some bs"
    "b = of_nat (16 * m + n) # bs"
    by (auto split: option.splits)
  then have "m < 16" "n < 16" by (auto dest: unnibble_less)
  then have "unat (of_nat (16 * m + n) :: u8) = 16 * m + n"
    by (intro unat_of_nat_small8) simp
  moreover have "(16 * m + n) div 16 = m" "(16 * m + n) mod 16 = n"
    using \<open>n < 16\<close> by auto
  ultimately show ?case
    using * 3 by (simp add: nibble_unnibble)
qed simp_all

interpretation stdhex: hex_codec std_hex "map lower_char"
  by unfold_locales (simp_all add: std_hex_def hex_dec_enc hex_enc_dec)

section \<open>Properties\<close>

text \<open>C16: Script hashes round-trip through their reversed hex form: the printed form of a 32-byte hash decodes to
  it, any text that decodes gives 32 bytes that print as that text in lower case, and decoding never
  panics.\<close>

theorem scripthash_roundtrip:
  assumes "hex_codec X lower" "length h = 32"
  shows "decode_scripthash X (to_le_hex X h) = Inr h \<and>
    (decode_scripthash X s = Inr k \<longrightarrow> length k = 32 \<and> to_le_hex X k = lower s) \<and>
    \<not> is_panic (decode_scripthash X s)"
proof (intro conjI impI)
  show "decode_scripthash X (to_le_hex X h) = Inr h" by (rule hex_codec.decode_to_le_hex [OF assms])
  show "\<not> is_panic (decode_scripthash X s)" by (rule hex_codec.decode_not_panic [OF assms(1)])
  assume d: "decode_scripthash X s = Inr k"
  then show "length k = 32"
    by (auto simp: decode_scripthash_def full_hash_def HASH_LEN_def result_simps split: if_splits)
  from d show "to_le_hex X k = lower s" by (rule hex_codec.to_le_hex_decode [OF assms(1)])
qed

theorem scripthash_roundtrip_witness:
  "decode_scripthash std_hex (to_le_hex std_hex null_hash) = Inr null_hash"
  using scripthash_roundtrip [OF stdhex.hex_codec_axioms length_null_hash] by blast

end
