(* ===== verification/CashAccount.thy ===== *)
theory CashAccount
  imports Scripthash Store Headers
begin

text \<open>
  CashAccount registrations (\<^verbatim>\<open>src/src/cashaccount.rs\<close>): the row struct and its encoding, the search
  for the single OP\_RETURN output that carries a registration, the row written for a confirmed
  registration and the lookup by name and height.
\<close>

section \<open>Helpers of the row encodings\<close>

text \<open>The ASCII code of a one-character byte literal such as \<^verbatim>\<open>b'C'\<close>.\<close>

definition code_byte :: "char \<Rightarrow> u8" where
  "code_byte c = of_char c"

lemma code_byte_values [simp]:
  "code_byte (CHR ''I'') = 0x49" "code_byte (CHR ''O'') = 0x4F" "code_byte (CHR ''T'') = 0x54"
  "code_byte (CHR ''B'') = 0x42" "code_byte (CHR ''C'') = 0x43" "code_byte (CHR ''L'') = 0x4C"
  by (simp_all add: code_byte_def)

text \<open>\<^verbatim>\<open>u32::to_be_bytes\<close>.\<close>

definition to_be_bytes32 :: "u32 \<Rightarrow> Bytes" where
  "to_be_bytes32 x = map (\<lambda>i. ucast (drop_bit i x)) [24, 16, 8, 0]"

definition MEMPOOL_HEIGHT :: u32 where
  "MEMPOOL_HEIGHT = 0x7FFFFFFF"

section \<open>Rows\<close>

definition compute_accountname_hash :: "libs \<Rightarrow> Bytes \<Rightarrow> u32 \<Rightarrow> FullHash" where
  "compute_accountname_hash L accountname blockheight =
     lib_sha256 L (accountname @ to_be_bytes32 blockheight)"

record TxCashAccountKey =
  cak_code :: u8
  cak_accout_hash_prefix :: HashPrefix

record TxCashAccountRow =
  car_key :: TxCashAccountKey
  car_txid_prefix :: HashPrefix

definition ser_TxCashAccountKey :: "libs \<Rightarrow> TxCashAccountKey \<Rightarrow> Bytes" where
  "ser_TxCashAccountKey L k =
     lib_ser_u8 L (cak_code k) @ lib_ser_array L (cak_accout_hash_prefix k)"

definition cashaccount_new :: "libs \<Rightarrow> Txid \<Rightarrow> Bytes \<Rightarrow> u32 \<Rightarrow> TxCashAccountRow" where
  "cashaccount_new L txid accountname blockheight = \<lparr>
     car_key = \<lparr>cak_code = code_byte (CHR ''C''),
                cak_accout_hash_prefix = hp (compute_accountname_hash L accountname blockheight)\<rparr>,
     car_txid_prefix = hp txid\<rparr>"

definition cashaccount_filter :: "libs \<Rightarrow> Bytes \<Rightarrow> u32 \<Rightarrow> Bytes" where
  "cashaccount_filter L accountname blockheight = ser_TxCashAccountKey L
     \<lparr>cak_code = code_byte (CHR ''C''),
      cak_accout_hash_prefix = hp (compute_accountname_hash L accountname blockheight)\<rparr>"

definition cashaccount_to_row :: "libs \<Rightarrow> TxCashAccountRow \<Rightarrow> Row" where
  "cashaccount_to_row L r =
     \<lparr>row_key = ser_TxCashAccountKey L (car_key r) @ lib_ser_array L (car_txid_prefix r), row_value = []\<rparr>"

definition cashaccount_from_row :: "libs \<Rightarrow> Row \<Rightarrow> TxCashAccountRow result" where
  "cashaccount_from_row L row = expect ''failed to parse TxCashAccountRow''
     (case lib_de_u8 L (row_key row) of None \<Rightarrow> None | Some (c, b1) \<Rightarrow>
      case lib_de_array L HASH_PREFIX_LEN b1 of None \<Rightarrow> None | Some (a, b2) \<Rightarrow>
      case lib_de_array L HASH_PREFIX_LEN b2 of None \<Rightarrow> None | Some (t, b3) \<Rightarrow>
        Some \<lparr>car_key = \<lparr>cak_code = c, cak_accout_hash_prefix = a\<rparr>, car_txid_prefix = t\<rparr>)"

definition txids_by_cashaccount :: "libs \<Rightarrow> ReadStore \<Rightarrow> Bytes \<Rightarrow> u32 \<Rightarrow> HashPrefix list result" where
  "txids_by_cashaccount L store name height =
     mapM (\<lambda>row. and_then (cashaccount_from_row L row) (\<lambda>r. Inr (car_txid_prefix r)))
       (rs_scan store (cashaccount_filter L (to_ascii_lowercase name) height))"

section \<open>Parsing a transaction\<close>

text \<open>
  The loop over the outputs.  \<^verbatim>\<open>cashaccount_found\<close> is set in the iteration in which the C parser
  has filled the account, so the flag carries that account; the result is the account when
  \<^verbatim>\<open>parse_cashaccount\<close> returns \<^verbatim>\<open>true\<close>.
\<close>

fun parse_outputs :: "libs \<Rightarrow> bool \<Rightarrow> account option \<Rightarrow> TxOut list \<Rightarrow> account option result" where
  "parse_outputs L opreturn_found found [] = Inr found"
| "parse_outputs L opreturn_found found (out # outs) =
     (if \<not> lib_is_op_return L (script_pubkey out)
      then parse_outputs L opreturn_found found outs
      else if opreturn_found then Inr None
      else let (rc, account) = lib_cashacc_parse L (script_pubkey out) in
        and_then (require ''rc != CASHACC_ERR_MALLOC_FAILED'' (rc \<noteq> lib_malloc_failed L)) (\<lambda>_.
          if rc < 1 then Inr None
          else parse_outputs L True (Some account) outs))"

definition parse_cashaccount :: "libs \<Rightarrow> Transaction \<Rightarrow> account option result" where
  "parse_cashaccount L txn = parse_outputs L False None (tx_output txn)"

definition CASHACCOUNT_INDEX_DISABLED :: u32 where
  "CASHACCOUNT_INDEX_DISABLED = 0"

definition is_valid_cashaccount_height :: "u32 \<Rightarrow> u32 \<Rightarrow> bool" where
  "is_valid_cashaccount_height activation_height height \<longleftrightarrow>
     activation_height \<le> height \<and> height \<noteq> MEMPOOL_HEIGHT \<and> height \<noteq> CASHACCOUNT_INDEX_DISABLED"

record CashAccountParser =
  cap_activation_height :: u32

definition CashAccountParser_new :: "u32 option \<Rightarrow> CashAccountParser" where
  "CashAccountParser_new activation_height =
     \<lparr>cap_activation_height = (case activation_height of None \<Rightarrow> 0 | Some h \<Rightarrow> h)\<rparr>"

definition has_cashaccount :: "libs \<Rightarrow> Transaction \<Rightarrow> Bytes \<Rightarrow> bool result" where
  "has_cashaccount L txn name =
     and_then (parse_cashaccount L txn) (\<lambda>found.
       case found of
         None \<Rightarrow> Inr False
       | Some account \<Rightarrow>
           if is_utf8 (acc_name account)
           then Inr (to_ascii_lowercase (acc_name account) = to_ascii_lowercase name)
           else Inr False)"

definition index_cashaccount :: "libs \<Rightarrow> CashAccountParser \<Rightarrow> Transaction \<Rightarrow> u32 \<Rightarrow> Row option result" where
  "index_cashaccount L parser txn blockheight =
     (if \<not> is_valid_cashaccount_height (cap_activation_height parser) blockheight then Inr None
      else and_then (parse_cashaccount L txn) (\<lambda>found.
        case found of
          None \<Rightarrow> Inr None
        | Some account \<Rightarrow>
            and_then (require ''Utf8Error'' (is_utf8 (acc_name account))) (\<lambda>_.
              Inr (Some (cashaccount_to_row L (cashaccount_new L (lib_txid L txn)
                     (to_ascii_lowercase (acc_name account)) blockheight))))))"

section \<open>Lemmas\<close>

text \<open>The registration of a transaction: the account of its only OP\_RETURN output.\<close>

definition registration :: "libs \<Rightarrow> Transaction \<Rightarrow> account option" where
  "registration L txn =
     (case filter (\<lambda>out. lib_is_op_return L (script_pubkey out)) (tx_output txn) of
        [out] \<Rightarrow> (let (rc, account) = lib_cashacc_parse L (script_pubkey out) in
                  if 1 \<le> rc then Some account else None)
      | _ \<Rightarrow> None)"

definition malloc_ok :: "libs \<Rightarrow> bool" where
  "malloc_ok L \<longleftrightarrow> (\<forall>s. fst (lib_cashacc_parse L s) \<noteq> lib_malloc_failed L)"

lemma parse_outputs_found:
  "parse_outputs L True found outs =
     Inr (if filter (\<lambda>out. lib_is_op_return L (script_pubkey out)) outs = [] then found else None)"
  by (induction outs) auto

lemma parse_outputs_start:
  assumes "malloc_ok L"
  shows "parse_outputs L False None outs =
     Inr (case filter (\<lambda>out. lib_is_op_return L (script_pubkey out)) outs of
        [out] \<Rightarrow> (let (rc, account) = lib_cashacc_parse L (script_pubkey out) in
                  if 1 \<le> rc then Some account else None)
      | _ \<Rightarrow> None)"
proof (induction outs)
  case (Cons out outs)
  obtain rc account where p: "lib_cashacc_parse L (script_pubkey out) = (rc, account)"
    by fastforce
  with assms have "rc \<noteq> lib_malloc_failed L" by (auto simp: malloc_ok_def dest: spec [of _ "script_pubkey out"])
  with p Cons show ?case
    by (auto simp: parse_outputs_found split: list.split)
qed simp

lemma parse_cashaccount_eq: "malloc_ok L \<Longrightarrow> parse_cashaccount L txn = Inr (registration L txn)"
  by (simp add: parse_cashaccount_def registration_def parse_outputs_start)

lemma to_ascii_lowercase_idem: "to_ascii_lowercase (to_ascii_lowercase s) = to_ascii_lowercase s"
proof -
  have "\<not> (0x41 \<le> c + 0x20 \<and> c + 0x20 \<le> (0x5A :: u8))" if "0x41 \<le> c" "c \<le> 0x5A" for c :: u8
    using that by (simp add: word_le_nat_alt unat_plus_if')
  then show ?thesis by (auto simp: to_ascii_lowercase_def)
qed

end
