(* ===== verification/IndexRows.thy ===== *)
theory IndexRows
  imports CashAccount
begin

text \<open>
  The rows of the index (\<^verbatim>\<open>src/src/index.rs\<close>, lines 22--257): the row structs with their keys,
  filters and encodings, and the rows written for a transaction and for a block.
\<close>

section \<open>Row structs\<close>

definition encode_varint :: "libs \<Rightarrow> u64 \<Rightarrow> Bytes" where
  "encode_varint L v = lib_varint_encode L v"

definition decode_varint :: "libs \<Rightarrow> Bytes \<Rightarrow> u64 result" where
  "decode_varint L index = and_then (expect ''unsigned_varint::decode::u64'' (lib_varint_decode L index))
     (\<lambda>(v, _). Inr v)"

record TxInKey =
  tik_code :: u8
  tik_prev_hash_prefix :: HashPrefix
  tik_prev_index :: Bytes

record TxInRow =
  tir_key :: TxInKey
  tir_txid_prefix :: HashPrefix

definition ser_TxInKey :: "libs \<Rightarrow> TxInKey \<Rightarrow> Bytes" where
  "ser_TxInKey L k = lib_ser_u8 L (tik_code k) @ lib_ser_array L (tik_prev_hash_prefix k) @
     lib_ser_vec L (tik_prev_index k)"

definition txin_new :: "libs \<Rightarrow> Txid \<Rightarrow> TxIn \<Rightarrow> TxInRow" where
  "txin_new L txid inp = \<lparr>
     tir_key = \<lparr>tik_code = code_byte (CHR ''I''),
                tik_prev_hash_prefix = hp (op_txid (previous_output inp)),
                tik_prev_index = encode_varint L (ucast (op_vout (previous_output inp)))\<rparr>,
     tir_txid_prefix = hp txid\<rparr>"

definition txin_filter :: "libs \<Rightarrow> OutPoint \<Rightarrow> Bytes" where
  "txin_filter L prevout = ser_TxInKey L
     \<lparr>tik_code = code_byte (CHR ''I''),
      tik_prev_hash_prefix = hp (op_txid prevout),
      tik_prev_index = encode_varint L (ucast (op_vout prevout))\<rparr>"

definition txin_to_row :: "libs \<Rightarrow> TxInRow \<Rightarrow> Row" where
  "txin_to_row L r =
     \<lparr>row_key = ser_TxInKey L (tir_key r) @ lib_ser_array L (tir_txid_prefix r), row_value = []\<rparr>"

definition txin_from_row :: "libs \<Rightarrow> Row \<Rightarrow> TxInRow result" where
  "txin_from_row L row = expect ''failed to parse TxInRow''
     (case lib_de_u8 L (row_key row) of None \<Rightarrow> None | Some (c, b1) \<Rightarrow>
      case lib_de_array L HASH_PREFIX_LEN b1 of None \<Rightarrow> None | Some (h, b2) \<Rightarrow>
      case lib_de_vec L b2 of None \<Rightarrow> None | Some (i, b3) \<Rightarrow>
      case lib_de_array L HASH_PREFIX_LEN b3 of None \<Rightarrow> None | Some (t, b4) \<Rightarrow>
        Some \<lparr>tir_key = \<lparr>tik_code = c, tik_prev_hash_prefix = h, tik_prev_index = i\<rparr>,
              tir_txid_prefix = t\<rparr>)"

record TxOutKey =
  tok_code :: u8
  tok_script_hash_prefix :: HashPrefix

record TxOutRow =
  tor_key :: TxOutKey
  tor_txid_prefix :: HashPrefix
  tor_output_index :: Bytes
  tor_output_value :: Bytes

definition ser_TxOutKey :: "libs \<Rightarrow> TxOutKey \<Rightarrow> Bytes" where
  "ser_TxOutKey L k = lib_ser_u8 L (tok_code k) @ lib_ser_array L (tok_script_hash_prefix k)"

definition txout_new :: "libs \<Rightarrow> Txid \<Rightarrow> TxOut \<Rightarrow> u64 \<Rightarrow> TxOutRow" where
  "txout_new L txid out output_index = \<lparr>
     tor_key = \<lparr>tok_code = code_byte (CHR ''O''),
                tok_script_hash_prefix = hp (compute_script_hash L (script_pubkey out))\<rparr>,
     tor_txid_prefix = hp txid,
     tor_output_index = encode_varint L output_index,
     tor_output_value = encode_varint L (out_value out)\<rparr>"

text \<open>\<^verbatim>\<open>TxOutRow::filter\<close> slices its argument, a byte slice of any length, and panics on a short one.\<close>

definition txout_filter :: "libs \<Rightarrow> Bytes \<Rightarrow> Bytes result" where
  "txout_filter L script_hash =
     (if length script_hash < HASH_PREFIX_LEN then Inl (Panic ''slice index out of range'')
      else and_then (hash_prefix (take HASH_PREFIX_LEN script_hash)) (\<lambda>p.
        Inr (ser_TxOutKey L \<lparr>tok_code = code_byte (CHR ''O''), tok_script_hash_prefix = p\<rparr>)))"

definition txout_to_row :: "libs \<Rightarrow> TxOutRow \<Rightarrow> Row" where
  "txout_to_row L r =
     \<lparr>row_key = ser_TxOutKey L (tor_key r) @ lib_ser_array L (tor_txid_prefix r) @
        lib_ser_vec L (tor_output_index r) @ lib_ser_vec L (tor_output_value r),
      row_value = []\<rparr>"

definition txout_from_row :: "libs \<Rightarrow> Row \<Rightarrow> TxOutRow result" where
  "txout_from_row L row = expect ''failed to parse TxOutRow key''
     (case lib_de_u8 L (row_key row) of None \<Rightarrow> None | Some (c, b1) \<Rightarrow>
      case lib_de_array L HASH_PREFIX_LEN b1 of None \<Rightarrow> None | Some (s, b2) \<Rightarrow>
      case lib_de_array L HASH_PREFIX_LEN b2 of None \<Rightarrow> None | Some (t, b3) \<Rightarrow>
      case lib_de_vec L b3 of None \<Rightarrow> None | Some (i, b4) \<Rightarrow>
      case lib_de_vec L b4 of None \<Rightarrow> None | Some (v, b5) \<Rightarrow>
        Some \<lparr>tor_key = \<lparr>tok_code = c, tok_script_hash_prefix = s\<rparr>, tor_txid_prefix = t,
              tor_output_index = i, tor_output_value = v\<rparr>)"

definition get_output_index :: "libs \<Rightarrow> TxOutRow \<Rightarrow> u32 result" where
  "get_output_index L r = and_then (decode_varint L (tor_output_index r)) (\<lambda>v. Inr (ucast v))"

definition get_output_value :: "libs \<Rightarrow> TxOutRow \<Rightarrow> u64 result" where
  "get_output_value L r = decode_varint L (tor_output_value r)"

record TxKey =
  txk_code :: u8
  txk_txid :: "Bytes"

record TxRow =
  txr_key :: TxKey
  txr_height :: u32

definition txrow_new :: "Txid \<Rightarrow> u32 \<Rightarrow> TxRow" where
  "txrow_new txid height =
     \<lparr>txr_key = \<lparr>txk_code = code_byte (CHR ''T''), txk_txid = txid\<rparr>, txr_height = height\<rparr>"

definition txrow_filter_prefix :: "HashPrefix \<Rightarrow> Bytes" where
  "txrow_filter_prefix txid_prefix = code_byte (CHR ''T'') # txid_prefix"

definition txrow_filter_full :: "Txid \<Rightarrow> Bytes" where
  "txrow_filter_full txid = code_byte (CHR ''T'') # txid"

definition txrow_to_row :: "libs \<Rightarrow> TxRow \<Rightarrow> Row" where
  "txrow_to_row L r =
     \<lparr>row_key = lib_ser_u8 L (txk_code (txr_key r)) @ lib_ser_array L (txk_txid (txr_key r)),
      row_value = lib_ser_u32 L (txr_height r)\<rparr>"

definition txrow_from_row :: "libs \<Rightarrow> Row \<Rightarrow> TxRow result" where
  "txrow_from_row L row =
     and_then (expect ''failed to parse TxKey''
       (case lib_de_u8 L (row_key row) of None \<Rightarrow> None | Some (c, b1) \<Rightarrow>
        case lib_de_array L 32 b1 of None \<Rightarrow> None | Some (t, b2) \<Rightarrow>
          Some \<lparr>txk_code = c, txk_txid = t\<rparr>)) (\<lambda>k.
     and_then (expect ''failed to parse height''
       (case lib_de_u32 L (row_value row) of None \<Rightarrow> None | Some (h, _) \<Rightarrow> Some h)) (\<lambda>h.
       Inr \<lparr>txr_key = k, txr_height = h\<rparr>))"

definition get_txid :: "TxRow \<Rightarrow> Txid" where
  "get_txid r = txk_txid (txr_key r)"

record BlockKey =
  bk_code :: u8
  bk_hash :: FullHash

definition ser_BlockKey :: "libs \<Rightarrow> BlockKey \<Rightarrow> Bytes" where
  "ser_BlockKey L k = lib_ser_u8 L (bk_code k) @ lib_ser_array L (bk_hash k)"

definition de_BlockKey :: "libs \<Rightarrow> Bytes \<Rightarrow> BlockKey option" where
  "de_BlockKey L b =
     (case lib_de_u8 L b of None \<Rightarrow> None | Some (c, b1) \<Rightarrow>
      case lib_de_array L 32 b1 of None \<Rightarrow> None | Some (h, b2) \<Rightarrow> Some \<lparr>bk_code = c, bk_hash = h\<rparr>)"

section \<open>Rows of transactions and blocks\<close>

definition txin_rows :: "libs \<Rightarrow> Transaction \<Rightarrow> Row list" where
  "txin_rows L txn = map (\<lambda>i. txin_to_row L (txin_new L (lib_txid L txn) i))
     (filter (\<lambda>i. op_txid (previous_output i) \<noteq> null_hash) (tx_input txn))"

definition txout_rows :: "libs \<Rightarrow> Transaction \<Rightarrow> Row list" where
  "txout_rows L txn = map (\<lambda>(i, out). txout_to_row L (txout_new L (lib_txid L txn) out (of_nat i)))
     (enumerate 0 (tx_output txn))"

definition index_transaction :: "libs \<Rightarrow> Transaction \<Rightarrow> nat \<Rightarrow> CashAccountParser option \<Rightarrow> Row list result" where
  "index_transaction L txn height cashaccount =
     and_then (case cashaccount of
         Some parser \<Rightarrow> index_cashaccount L parser txn (of_nat height)
       | None \<Rightarrow> Inr None) (\<lambda>cashaccount_row.
     Inr (txin_rows L txn @ txout_rows L txn @
          [txrow_to_row L (txrow_new (lib_txid L txn) (of_nat height))] @
          (case cashaccount_row of None \<Rightarrow> [] | Some r \<Rightarrow> [r])))"

definition block_row :: "libs \<Rightarrow> Block \<Rightarrow> Row" where
  "block_row L block =
     \<lparr>row_key = ser_BlockKey L \<lparr>bk_code = code_byte (CHR ''B''), bk_hash = lib_block_hash L (blk_header block)\<rparr>,
      row_value = lib_ser_header L (blk_header block)\<rparr>"

definition index_block :: "libs \<Rightarrow> Block \<Rightarrow> nat \<Rightarrow> CashAccountParser \<Rightarrow> Row list result" where
  "index_block L block height cashaccount =
     and_then (mapM (\<lambda>txn. index_transaction L txn height (Some cashaccount)) (txdata block)) (\<lambda>rows.
     Inr (concat rows @ [block_row L block]))"

definition last_indexed_block :: "libs \<Rightarrow> BlockHash \<Rightarrow> Row" where
  "last_indexed_block L blockhash =
     \<lparr>row_key = [code_byte (CHR ''L'')], row_value = lib_ser_hash L blockhash\<rparr>"

section \<open>Well-formed transactions\<close>

text \<open>The transaction ids in the inputs are 32-byte arrays.\<close>

definition wf_tx :: "Transaction \<Rightarrow> bool" where
  "wf_tx txn \<longleftrightarrow> (\<forall>i \<in> set (tx_input txn). length (op_txid (previous_output i)) = 32)"

lemma ucast_u32_u64_inj: "(ucast (x :: u32) :: u64) = ucast y \<longleftrightarrow> x = y"
  using unat_ucast_u32_u64 [of x] unat_ucast_u32_u64 [of y] by (auto simp: word_unat_eq_iff)

lemma prefix_same_length_iff: "length a = length b \<Longrightarrow> prefix (a @ r) (b @ s) \<longleftrightarrow> a = b \<and> prefix r s"
  by (auto simp: prefix_def)

named_theorems row_defs \<open>definitions of the row encodings\<close>

declare txin_new_def [row_defs] txin_filter_def [row_defs] txin_to_row_def [row_defs]
  ser_TxInKey_def [row_defs] txout_new_def [row_defs] txout_to_row_def [row_defs]
  ser_TxOutKey_def [row_defs] txrow_new_def [row_defs] txrow_to_row_def [row_defs]
  txrow_filter_prefix_def [row_defs] txrow_filter_full_def [row_defs] encode_varint_def [row_defs]
  cashaccount_new_def [row_defs] cashaccount_filter_def [row_defs] cashaccount_to_row_def [row_defs]
  ser_TxCashAccountKey_def [row_defs] block_row_def [row_defs] ser_BlockKey_def [row_defs]

context codec_laws
begin

lemma de_array_all: "length a = n \<Longrightarrow> lib_de_array L n a = Some (a, [])"
  using de_array [of a n "[]"] by simp

lemma txin_roundtrip:
  assumes "length (tik_prev_hash_prefix (tir_key r)) = 8" "length (tir_txid_prefix r) = 8"
    "fits_u64 (length (tik_prev_index (tir_key r)))"
  shows "txin_from_row L (txin_to_row L r) = Inr r"
  using assms
  by (simp add: txin_from_row_def row_defs ser_u8 ser_array de_u8 de_array de_array_all de_vec HASH_PREFIX_LEN_def)

lemma txout_roundtrip:
  assumes "length (tok_script_hash_prefix (tor_key r)) = 8" "length (tor_txid_prefix r) = 8"
    "fits_u64 (length (tor_output_index r))" "fits_u64 (length (tor_output_value r))"
  shows "txout_from_row L (txout_to_row L r) = Inr r"
  using assms de_vec [of "tor_output_value r" "[]"]
  by (simp add: txout_from_row_def row_defs ser_u8 ser_array de_u8 de_array de_vec HASH_PREFIX_LEN_def)

lemma txrow_roundtrip:
  assumes "length (txk_txid (txr_key r)) = 32"
  shows "txrow_from_row L (txrow_to_row L r) = Inr r"
  using assms de_u32 [of "txr_height r" "[]"]
  by (simp add: txrow_from_row_def row_defs ser_u8 ser_array de_u8 de_array_all)

lemma cashaccount_roundtrip:
  assumes "length (cak_accout_hash_prefix (car_key r)) = 8" "length (car_txid_prefix r) = 8"
  shows "cashaccount_from_row L (cashaccount_to_row L r) = Inr r"
  using assms
  by (simp add: cashaccount_from_row_def row_defs ser_u8 ser_array de_u8 de_array de_array_all HASH_PREFIX_LEN_def)

lemma txin_new_roundtrip:
  assumes "length txid = 32" "length (op_txid (previous_output i)) = 32"
  shows "txin_from_row L (txin_to_row L (txin_new L txid i)) = Inr (txin_new L txid i)"
  using assms by (intro txin_roundtrip) (simp_all add: txin_new_def encode_varint_def length_hp varint_vec_len)

lemma length_script_hash: "length (compute_script_hash L s) = 32"
  by (simp add: compute_script_hash_def sha256_len)

lemma txout_new_roundtrip:
  assumes "length txid = 32"
  shows "txout_from_row L (txout_to_row L (txout_new L txid out i)) = Inr (txout_new L txid out i)"
  using assms by (intro txout_roundtrip)
    (simp_all add: txout_new_def encode_varint_def length_hp varint_vec_len length_script_hash)

lemma txout_new_fields:
  "get_output_index L (txout_new L txid out i) = Inr (ucast i)"
  "get_output_value L (txout_new L txid out i) = Inr (out_value out)"
  using varint [of i "[]"] varint [of "out_value out" "[]"]
  by (simp_all add: get_output_index_def get_output_value_def decode_varint_def txout_new_def encode_varint_def)

lemma txin_filter_iff:
  assumes "length (op_txid po) = 32" "length (op_txid (previous_output i)) = 32"
  shows "prefix (txin_filter L po) (row_key (txin_to_row L (txin_new L txid i))) \<longleftrightarrow>
     hp (op_txid po) = hp (op_txid (previous_output i)) \<and> op_vout po = op_vout (previous_output i)"
proof -
  have "length (hp (op_txid po)) = length (hp (op_txid (previous_output i)))"
    using assms by (simp add: length_hp)
  from prefix_same_length_iff [OF this] show ?thesis
    using ser_vec_prefix_iff [OF varint_vec_len varint_vec_len, of _ "[]"]
    by (simp add: row_defs ser_u8 ser_array varint_inj ucast_u32_u64_inj)
qed

lemma txout_filter_eq:
  "length sh = 32 \<Longrightarrow> txout_filter L sh = Inr (0x4F # hp sh)"
  by (simp add: txout_filter_def hash_prefix_def HASH_PREFIX_LEN_def row_defs ser_u8 ser_array hp_def)

lemma txout_filter_iff:
  assumes "length sh = 32"
  shows "prefix (0x4F # hp sh) (row_key (txout_to_row L (txout_new L txid out i))) \<longleftrightarrow>
     hp sh = hp (compute_script_hash L (script_pubkey out))"
  using prefix_same_length_iff [of "hp sh" "hp (compute_script_hash L (script_pubkey out))" "[]"] assms
  by (simp add: row_defs ser_u8 ser_array length_hp length_script_hash)

lemma txrow_filter_prefix_iff:
  assumes "length p = 8" "length txid = 32"
  shows "prefix (txrow_filter_prefix p) (row_key (txrow_to_row L (txrow_new txid h))) \<longleftrightarrow> p = hp txid"
  using assms by (auto simp: row_defs ser_u8 ser_array hp_def HASH_PREFIX_LEN_def prefix_def)
    (metis append_take_drop_id)

lemma txrow_filter_full_iff:
  assumes "length t = 32" "length txid = 32"
  shows "prefix (txrow_filter_full t) (row_key (txrow_to_row L (txrow_new txid h))) \<longleftrightarrow> t = txid"
  using assms prefix_same_length_iff [of t txid "[]" "[]"] by (simp add: row_defs ser_u8 ser_array)

lemma cashaccount_filter_iff:
  "prefix (cashaccount_filter L n h) (row_key (cashaccount_to_row L (cashaccount_new L txid m k))) \<longleftrightarrow>
     hp (compute_accountname_hash L n h) = hp (compute_accountname_hash L m k)"
  using prefix_same_length_iff [of "hp (compute_accountname_hash L n h)"
      "hp (compute_accountname_hash L m k)" "[]" "hp txid"]
  by (simp add: row_defs ser_u8 ser_array length_hp compute_accountname_hash_def sha256_len)

text \<open>The first byte of a key is the code of its row type.\<close>

lemma row_codes:
  "\<exists>b. row_key (txin_to_row L (txin_new L t i)) = 0x49 # b"
  "\<exists>b. row_key (txout_to_row L (txout_new L t out n)) = 0x4F # b"
  "\<exists>b. row_key (txrow_to_row L (txrow_new t h)) = 0x54 # b"
  "\<exists>b. row_key (cashaccount_to_row L (cashaccount_new L t a k)) = 0x43 # b"
  "\<exists>b. row_key (block_row L blk) = 0x42 # b"
  "\<exists>b. row_key (last_indexed_block L bh) = 0x4C # b"
  by (simp_all add: row_defs last_indexed_block_def ser_u8)

lemma filter_codes:
  "\<exists>b. txin_filter L po = 0x49 # b" "\<exists>b. txrow_filter_prefix p = 0x54 # b"
  "\<exists>b. txrow_filter_full t = 0x54 # b" "\<exists>b. cashaccount_filter L n h = 0x43 # b"
  by (simp_all add: row_defs ser_u8)

end

section \<open>Properties\<close>

text \<open>C15: The output row written for an output decodes to the row it was written from; its index (truncated to
  32 bits as the code casts it) and its value are the ones of the output, and it is found by the
  filter of a script hash exactly when the 8-byte prefixes of the hashes agree.\<close>

theorem txout_row_roundtrip:
  assumes "codec_laws L" "length txid = 32" "length script_hash = 32"
  shows "\<exists>r. txout_from_row L (txout_to_row L (txout_new L txid out i)) = Inr r \<and>
      tor_txid_prefix r = hp txid \<and> get_output_index L r = Inr (ucast i) \<and>
      get_output_value L r = Inr (out_value out) \<and>
    (\<exists>f. txout_filter L script_hash = Inr f \<and>
      (prefix f (row_key (txout_to_row L (txout_new L txid out i))) \<longleftrightarrow>
       hp script_hash = hp (compute_script_hash L (script_pubkey out))))"
  using codec_laws.txout_new_roundtrip [OF assms(1,2)] codec_laws.txout_new_fields [OF assms(1)]
    codec_laws.txout_filter_eq [OF assms(1,3)] codec_laws.txout_filter_iff [OF assms(1,3)]
  by (simp add: txout_new_def)

theorem txout_row_roundtrip_witness:
  "\<exists>r. txout_from_row std_libs (txout_to_row std_libs (txout_new std_libs null_hash
      \<lparr>out_value = 300, script_pubkey = [0x51]\<rparr> 2)) = Inr r \<and> get_output_value std_libs r = Inr 300"
  using txout_row_roundtrip [OF std.codec_laws_axioms length_null_hash length_null_hash,
      of "\<lparr>out_value = 300, script_pubkey = [0x51]\<rparr>" 2] by auto

text \<open>C14: A confirmed CashAccount registration is found by its name, in any case, and height: when the row that
  \<open>index_cashaccount\<close> writes for a transaction is in the store (and the store's CashAccount rows are
  well formed), the lookup succeeds and its answer contains the transaction's id prefix.\<close>

theorem cashaccount_found:
  assumes "codec_laws L" "read_store rs invar contents" "invar s"
    and "index_cashaccount L parser txn height = Inr (Some row)" "registration L txn = Some account" "malloc_ok L"
    and "contents s (row_key row) = Some (row_value row)"
    and "\<forall>k v. contents s k = Some v \<and> prefix [0x43] k \<longrightarrow>
       (\<exists>r. length (cak_accout_hash_prefix (car_key r)) = 8 \<and> length (car_txid_prefix r) = 8 \<and>
          k = row_key (cashaccount_to_row L r))"
    and "to_ascii_lowercase name = to_ascii_lowercase (acc_name account)"
  shows "\<exists>ids. txids_by_cashaccount L (rs s) name height = Inr ids \<and> hp (lib_txid L txn) \<in> set ids"
proof -
  let ?f = "cashaccount_filter L (to_ascii_lowercase name) height"
  let ?new = "cashaccount_new L (lib_txid L txn) (to_ascii_lowercase (acc_name account)) height"
  let ?get = "\<lambda>row. and_then (cashaccount_from_row L row) (\<lambda>r. Inr (car_txid_prefix r))"
  note scan = read_store.scan_mem [OF assms(2,3)]
  have row: "row = cashaccount_to_row L ?new"
    using assms(4,5) parse_cashaccount_eq [OF assms(6)]
    by (auto simp: index_cashaccount_def result_simps split: if_splits)
  have "prefix ?f (row_key row)"
    unfolding row codec_laws.cashaccount_filter_iff [OF assms(1)] assms(9) by simp
  with assms(7) have mem: "row \<in> set (rs_scan (rs s) ?f)" by (simp add: scan)
  have dec: "is_ok (?get q)" if q: "q \<in> set (rs_scan (rs s) ?f)" for q
  proof -
    obtain b where "?f = 0x43 # b" using codec_laws.filter_codes(4) [OF assms(1)] by blast
    then have "prefix [0x43] (row_key q)" "contents s (row_key q) = Some (row_value q)"
      using q by (auto simp: scan prefix_def)
    then obtain r where r: "length (cak_accout_hash_prefix (car_key r)) = 8" "length (car_txid_prefix r) = 8"
      "row_key q = row_key (cashaccount_to_row L r)" using assms(8) by blast
    have "cashaccount_from_row L q = Inr r"
      using codec_laws.cashaccount_roundtrip [OF assms(1) r(1,2)] r(3) by (simp add: cashaccount_from_row_def)
    then show ?thesis by simp
  qed
  have "?get row = Inr (hp (lib_txid L txn))"
    unfolding row using assms(1)
    by (subst codec_laws.cashaccount_roundtrip)
      (simp_all add: cashaccount_new_def length_hp codec_laws.txid_len codec_laws.sha256_len compute_accountname_hash_def)
  with mem have "hp (lib_txid L txn) \<in> (\<lambda>q. projr (?get q)) ` set (rs_scan (rs s) ?f)"
    by (intro image_eqI [of _ _ row]) simp_all
  then show ?thesis
    by (simp add: txids_by_cashaccount_def mapM_ok [OF dec])
qed

text \<open>A store that holds the one row of a registration.\<close>

definition demo_registration :: Transaction where
  "demo_registration = \<lparr>tx_version = 1, tx_lock_time = 9, tx_input = [],
     tx_output = [\<lparr>out_value = 0, script_pubkey = [0x6a, 0x41, 0x42]\<rparr>]\<rparr>"

definition demo_account_row :: Row where
  "demo_account_row = cashaccount_to_row std_libs
     (cashaccount_new std_libs (lib_txid std_libs demo_registration) [0x61, 0x62] 600000)"

definition one_row_store :: "Row \<Rightarrow> unit \<Rightarrow> ReadStore" where
  "one_row_store r u = \<lparr>rs_get = (\<lambda>k. if k = row_key r then Some (row_value r) else None),
     rs_scan = (\<lambda>p. if prefix p (row_key r) then [r] else [])\<rparr>"

lemma one_row_read_store:
  "read_store (one_row_store r) (\<lambda>_. True) (\<lambda>_ k. if k = row_key r then Some (row_value r) else None)"
  by unfold_locales (auto simp: one_row_store_def into_pair_def split: if_splits)

theorem cashaccount_found_witness:
  "\<exists>ids. txids_by_cashaccount std_libs (one_row_store demo_account_row ()) [0x61, 0x42] 600000 = Inr ids \<and>
     hp (lib_txid std_libs demo_registration) \<in> set ids"
proof -
  let ?acc = "\<lparr>acc_name = [0x41, 0x42]\<rparr>"
  have m: "malloc_ok std_libs" by (simp add: malloc_ok_def std_libs_def)
  have reg: "registration std_libs demo_registration = Some ?acc"
    by (simp add: registration_def demo_registration_def std_libs_def)
  have ix: "index_cashaccount std_libs (CashAccountParser_new (Some 1)) demo_registration 600000 =
      Inr (Some demo_account_row)"
    by (simp add: index_cashaccount_def parse_cashaccount_eq [OF m] reg is_valid_cashaccount_height_def
        CashAccountParser_new_def MEMPOOL_HEIGHT_def CASHACCOUNT_INDEX_DISABLED_def utf8_len_def
        demo_account_row_def to_ascii_lowercase_def)
  have wf: "\<exists>r. length (cak_accout_hash_prefix (car_key r)) = 8 \<and> length (car_txid_prefix r) = 8 \<and>
      row_key demo_account_row = row_key (cashaccount_to_row std_libs r)"
    unfolding demo_account_row_def
    by (intro exI conjI, rule_tac [3] refl)
      (simp_all add: cashaccount_new_def length_hp std.txid_len std.sha256_len compute_accountname_hash_def)
  show ?thesis
    by (rule cashaccount_found [OF std.codec_laws_axioms one_row_read_store _ ix reg m])
      (use wf in \<open>auto simp: to_ascii_lowercase_def split: if_splits\<close>)
qed

end
