(* ===== verification/Index.thy ===== *)
theory Index
  imports IndexRows "HOL-Library.AList"
begin

text \<open>
  The persistent index (\<^verbatim>\<open>src/src/index.rs\<close>, lines 250--301 and 358--498): reading the indexed blocks
  back from the store and the update loop that follows the daemon's chain.  The store is any
  implementation of the two store traits (its write and flush are arguments), the daemon is the
  record of the calls the index makes.  An operation that can fail after it has written rows returns
  the store it leaves together with its result.
\<close>

section \<open>Reading the index\<close>

definition read_indexed_blockhashes :: "libs \<Rightarrow> ReadStore \<Rightarrow> BlockHash list result" where
  "read_indexed_blockhashes L store =
     mapM (\<lambda>row. and_then (expect ''unwrap'' (de_BlockKey L (row_key row))) (\<lambda>key.
        expect ''unwrap'' (lib_de_hash L (bk_hash key))))
       (rs_scan store [code_byte (CHR ''B'')])"

text \<open>The header map: a \<^verbatim>\<open>HashMap\<close> that is only inserted into, looked up and removed from.\<close>

fun collect_headers :: "libs \<Rightarrow> Row list \<Rightarrow> (BlockHash \<times> BlockHeader) list \<Rightarrow>
    (BlockHash \<times> BlockHeader) list result" where
  "collect_headers L [] m = Inr m"
| "collect_headers L (row # rows) m =
     and_then (expect ''unwrap'' (de_BlockKey L (row_key row))) (\<lambda>key.
     and_then (expect ''unwrap'' (lib_de_header L (row_value row))) (\<lambda>header.
     and_then (expect ''unwrap'' (lib_de_hash L (bk_hash key))) (\<lambda>hash.
     collect_headers L rows (AList.update hash header m))))"

text \<open>The loop that follows \<^verbatim>\<open>prev_blockhash\<close> to the genesis block; each step removes an entry.\<close>

lemma length_delete_less: "map_of m k = Some v \<Longrightarrow> length (AList.delete k m) < length m"
  unfolding AList.delete_eq using map_of_SomeD [of m k v]
  by (intro length_filter_less) auto

function walk_headers :: "(BlockHash \<times> BlockHeader) list \<Rightarrow> BlockHash \<Rightarrow> BlockHeader list \<Rightarrow>
    BlockHeader list result" where
  "walk_headers m blockhash headers =
     (if blockhash = null_hash then Inr headers
      else case map_of m blockhash of
        None \<Rightarrow> Inl (Panic ''missing header in DB'')
      | Some header \<Rightarrow>
          walk_headers (AList.delete blockhash m) (prev_blockhash header) (headers @ [header]))"
  by pat_completeness auto
termination by (relation "measure (\<lambda>(m, _, _). length m)") (auto simp: length_delete_less)

declare walk_headers.simps [simp del]

definition read_indexed_headers :: "libs \<Rightarrow> ReadStore \<Rightarrow> HeaderList result" where
  "read_indexed_headers L store =
     and_then (case rs_get store [code_byte (CHR ''L'')] of
         Some row \<Rightarrow> expect ''unwrap'' (lib_de_hash L row)
       | None \<Rightarrow> Inr null_hash) (\<lambda>latest_blockhash.
     and_then (collect_headers L (rs_scan store [code_byte (CHR ''B'')]) []) (\<lambda>m.
     and_then (walk_headers m latest_blockhash []) (\<lambda>rev_headers.
     let headers = rev rev_headers in
     and_then (require ''assertion failed''
       ((if headers = [] then null_hash else prev_blockhash (hd headers)) = null_hash)) (\<lambda>_.
     and_then (require ''assertion failed''
       ((if headers = [] then null_hash else lib_block_hash L (last headers)) = latest_blockhash)) (\<lambda>_.
     and_then (order (lib_block_hash L) empty_headers headers) (\<lambda>entries.
     apply_headers empty_headers entries latest_blockhash))))))"

section \<open>The index\<close>

text \<open>The daemon calls of the index.\<close>

record daemon_api =
  dm_reconnect :: "unit result"
  dm_getbestblockhash :: "BlockHash result"
  dm_get_new_headers :: "HeaderList \<Rightarrow> BlockHash \<Rightarrow> BlockHeader list result"
  dm_getblock :: "BlockHash \<Rightarrow> Block result"

record Index =
  ix_headers :: HeaderList
  ix_batch_size :: nat
  ix_cashaccount_activation_height :: u32

definition index_load :: "libs \<Rightarrow> ReadStore \<Rightarrow> daemon_api \<Rightarrow> nat \<Rightarrow> u32 \<Rightarrow> Index result" where
  "index_load L store daemon batch_size cashaccount_activation_height =
     and_then (read_indexed_headers L store) (\<lambda>headers.
     and_then (dm_reconnect daemon) (\<lambda>_.
     Inr \<lparr>ix_headers = headers, ix_batch_size = batch_size,
          ix_cashaccount_activation_height = cashaccount_activation_height\<rparr>))"

definition index_reload :: "libs \<Rightarrow> ReadStore \<Rightarrow> Index \<Rightarrow> Index result" where
  "index_reload L store ix =
     and_then (read_indexed_headers L store) (\<lambda>headers. Inr (ix\<lparr>ix_headers := headers\<rparr>))"

definition best_header :: "Index \<Rightarrow> HeaderEntry option" where
  "best_header ix = header_by_blockhash (ix_headers ix) (tiphash (ix_headers ix))"

definition get_header :: "Index \<Rightarrow> nat \<Rightarrow> HeaderEntry option result" where
  "get_header ix height = header_by_height (ix_headers ix) height"

text \<open>
  The receiving loop.  The fetcher thread sends the daemon's answer for each block hash in order and
  then the end of the stream, so the loop consumes the answers in that order; \<open>poll\<close> is the outcome
  of the \<open>i\<close>-th call of \<^verbatim>\<open>Waiter::poll\<close>.
\<close>

fun index_loop :: "libs \<Rightarrow> ('s \<Rightarrow> Row list \<Rightarrow> bool \<Rightarrow> 's) \<Rightarrow> daemon_api \<Rightarrow> (nat \<Rightarrow> unit result) \<Rightarrow>
    (BlockHash \<rightharpoonup> nat) \<Rightarrow> CashAccountParser \<Rightarrow> nat \<Rightarrow> BlockHash option \<Rightarrow> BlockHash list \<Rightarrow> 's \<Rightarrow>
    's \<times> BlockHash option result" where
  "index_loop L put daemon poll height_map cashaccount i prev_bh [] s =
     (case poll i of Inl e \<Rightarrow> (s, Inl e) | Inr _ \<Rightarrow> (s, Inr prev_bh))"
| "index_loop L put daemon poll height_map cashaccount i prev_bh (bh # bhs) s =
     (case poll i of
        Inl e \<Rightarrow> (s, Inl e)
      | Inr _ \<Rightarrow>
     (case dm_getblock daemon bh of
        Inl e \<Rightarrow> (s, Inl e)
      | Inr block \<Rightarrow>
     (let blockhash = lib_block_hash L (blk_header block) in
      case height_map blockhash of
        None \<Rightarrow> (s, Inl (Panic ''missing header for block''))
      | Some height \<Rightarrow>
     (case index_block L block height cashaccount of
        Inl e \<Rightarrow> (s, Inl e)
      | Inr indexed \<Rightarrow>
          let rows = (if (i + 1) mod 1000 = 0 then indexed @ [last_indexed_block L blockhash] else indexed)
          in index_loop L put daemon poll height_map cashaccount (i + 1) (Some blockhash) bhs
               (put s rows False)))))"

text \<open>The tip and the new headers, at the head of \<^verbatim>\<open>update\<close>.\<close>

definition update_headers :: "libs \<Rightarrow> daemon_api \<Rightarrow> Index \<Rightarrow> (BlockHash \<times> HeaderEntry list) result" where
  "update_headers L daemon ix =
     and_then (dm_reconnect daemon) (\<lambda>_.
     and_then (dm_getbestblockhash daemon) (\<lambda>tip.
     and_then (dm_get_new_headers daemon (ix_headers ix) tip) (\<lambda>hs.
     and_then (order (lib_block_hash L) (ix_headers ix) hs) (\<lambda>new_headers.
     Inr (tip, new_headers)))))"

text \<open>The height map and the parser that \<^verbatim>\<open>update\<close> gives to its loop.\<close>

definition update_loop :: "libs \<Rightarrow> ('s \<Rightarrow> Row list \<Rightarrow> bool \<Rightarrow> 's) \<Rightarrow> daemon_api \<Rightarrow>
    (nat \<Rightarrow> unit result) \<Rightarrow> Index \<Rightarrow> HeaderEntry list \<Rightarrow> 's \<Rightarrow> 's \<times> BlockHash option result" where
  "update_loop L put daemon poll ix new_headers s =
     index_loop L put daemon poll
       (map_of (rev (map (\<lambda>h. (he_hash h, he_height h)) new_headers)))
       (CashAccountParser_new (Some (ix_cashaccount_activation_height ix)))
       0 None (map he_hash new_headers) s"

definition index_update :: "libs \<Rightarrow> ('s \<Rightarrow> Row list \<Rightarrow> bool \<Rightarrow> 's) \<Rightarrow> ('s \<Rightarrow> 's) \<Rightarrow> daemon_api \<Rightarrow>
    (nat \<Rightarrow> unit result) \<Rightarrow> Index \<Rightarrow> 's \<Rightarrow> 's \<times> Index \<times> (HeaderEntry list \<times> HeaderEntry) result" where
  "index_update L put sync_all daemon poll ix s =
     (case update_headers L daemon ix of
        Inl e \<Rightarrow> (s, ix, Inl e)
      | Inr (tip, new_headers) \<Rightarrow>
     (case update_loop L put daemon poll ix new_headers s of
        (s1, Inl e) \<Rightarrow> (s1, ix, Inl e)
      | (s1, Inr prev_bh) \<Rightarrow>
          let s2 = (case prev_bh of None \<Rightarrow> s1 | Some h \<Rightarrow> put s1 [last_indexed_block L h] False);
              s3 = sync_all s2
          in case apply_headers (ix_headers ix) new_headers tip of
               Inl e \<Rightarrow> (s3, ix, Inl e)
             | Inr headers \<Rightarrow>
                 (s3, ix\<lparr>ix_headers := headers\<rparr>,
                  and_then (expect ''failed to get tip header'' (headers_tip headers)) (\<lambda>tip_header.
                  and_then (require ''assertion failed'' (tip = he_hash tip_header)) (\<lambda>_.
                  Inr (new_headers, tip_header))))))"

section \<open>The rows of the index as a whole\<close>

definition header_row :: "libs \<Rightarrow> BlockHeader \<Rightarrow> Row" where
  "header_row L h = \<lparr>row_key = 0x42 # lib_block_hash L h, row_value = lib_ser_header L h\<rparr>"

text \<open>
  The store persists a chain: the marker names its tip, there is a row for each of its blocks, and
  every block row (stale blocks included) holds the header its key is the hash of.
\<close>

definition marker :: "(Bytes \<rightharpoonup> Bytes) \<Rightarrow> HeaderEntry list \<Rightarrow> bool" where
  "marker c es \<longleftrightarrow> c [0x4C] = (if es = [] then None else Some (he_hash (last es)))"

definition block_rows :: "libs \<Rightarrow> (Bytes \<rightharpoonup> Bytes) \<Rightarrow> HeaderEntry list \<Rightarrow> bool" where
  "block_rows L c es \<longleftrightarrow>
     (\<forall>e\<in>set es. c (0x42 # he_hash e) = Some (lib_ser_header L (he_header e))) \<and>
     (\<forall>k v. c (0x42 # k) = Some v \<longrightarrow>
        (\<exists>h. wf_header h \<and> k = lib_block_hash L h \<and> v = lib_ser_header L h))"

definition persists :: "libs \<Rightarrow> (Bytes \<rightharpoonup> Bytes) \<Rightarrow> HeaderEntry list \<Rightarrow> bool" where
  "persists L c es \<longleftrightarrow> marker c es \<and> block_rows L c es"

lemma map_of_rows_None:
  "(\<forall>r\<in>set rows. row_key r \<noteq> k) \<Longrightarrow> map_of (rev (map into_pair rows)) k = None"
  by (auto simp: map_of_eq_None_iff into_pair_def)

lemma walk_chain:
  assumes "chained H 0 null_hash es" "distinct (map he_hash es)" "null_hash \<notin> he_hash ` set es"
    and "\<forall>e\<in>set es. map_of m (he_hash e) = Some (he_header e)"
  shows "walk_headers m (last_hash null_hash es) acc = Inr (acc @ rev (map he_header es))"
  using assms
proof (induction es arbitrary: m acc rule: rev_induct)
  case Nil
  then show ?case by (subst walk_headers.simps) simp
next
  case (snoc e es)
  from snoc.prems have e: "he_hash e \<noteq> null_hash" "map_of m (he_hash e) = Some (he_header e)"
    "prev_blockhash (he_header e) = last_hash null_hash es" "he_hash e \<notin> he_hash ` set es"
    by (auto simp: chained_append)
  have "walk_headers (AList.delete (he_hash e) m) (last_hash null_hash es) (acc @ [he_header e]) =
      Inr ((acc @ [he_header e]) @ rev (map he_header es))"
  proof (rule snoc.IH)
    show "\<forall>x\<in>set es. map_of (AList.delete (he_hash e) m) (he_hash x) = Some (he_header x)"
    proof
      fix x assume x: "x \<in> set es"
      with e(4) have "he_hash x \<noteq> he_hash e" by (metis image_eqI)
      with x snoc.prems(4) show "map_of (AList.delete (he_hash e) m) (he_hash x) = Some (he_header x)"
        by (simp add: delete_conv')
    qed
  qed (use snoc.prems in \<open>simp_all add: chained_append\<close>)
  with e show ?case by (subst walk_headers.simps) simp
qed

lemma chained_linked: "chained H n p es \<Longrightarrow> linked H (map he_header es)"
  by (induction H n p es rule: chained.induct) (auto, case_tac es, auto)

lemma chained_number: "chained H n p es \<Longrightarrow> number_entries n (hashed H (map he_header es)) = es"
  by (induction H n p es rule: chained.induct) auto

lemma order_empty:
  assumes "chained H 0 null_hash es"
  shows "order H empty_headers (map he_header es) = Inr es"
proof (cases es)
  case Nil
  then show ?thesis by (simp add: order_def hash_headers_linked)
next
  case (Cons e es')
  with assms chained_linked [OF assms] chained_number [OF assms] show ?thesis
    by (simp add: order_def hash_headers_linked Let_def)
qed

lemma apply_empty:
  assumes "chained H 0 null_hash es" "collision_free H (he_header ` set es)"
  shows "\<exists>hl. apply_headers empty_headers es (last_hash null_hash es) = Inr hl \<and>
    wf_headers H hl \<and> hl_headers hl = es"
proof (cases "es = []")
  case True
  then show ?thesis by (simp add: apply_headers_def empty_headers_def wf_headers_def)
next
  case False
  have wf: "wf_headers H empty_headers" by (simp add: empty_headers_def wf_headers_def)
  from assms(2) have nz: "\<forall>h\<in>set (map he_header es). H h \<noteq> null_hash"
    by (simp add: collision_free_def)
  from apply_ordered_ok [OF wf order_empty [OF assms(1)] False nz] obtain hl where
    hl: "apply_headers empty_headers es (he_hash (last es)) = Inr hl" "hl_headers hl = es"
    by (auto simp: empty_headers_def)
  moreover have "wf_headers H hl"
    using assms(2) by (intro apply_headers_wf [OF wf hl(1) order_hashes [OF order_empty [OF assms(1)]]])
      (simp add: empty_headers_def)
  ultimately show ?thesis using False by (auto simp: last_hash_def)
qed

text \<open>
  The state of the store between two writes of the update loop: the rows of the old chain and of the
  new blocks written so far are there, and the marker names the old tip or one of those new blocks.
\<close>

definition loop_inv :: "libs \<Rightarrow> (Bytes \<rightharpoonup> Bytes) \<Rightarrow> HeaderEntry list \<Rightarrow> HeaderEntry list \<Rightarrow> bool" where
  "loop_inv L c old fresh \<longleftrightarrow> block_rows L c (old @ fresh) \<and>
     (marker c old \<or> (\<exists>j. 0 < j \<and> j \<le> length fresh \<and> c [0x4C] = Some (he_hash (fresh ! (j - 1)))))"

text \<open>
  What the index relies on: the headers of \<open>S\<close> are well-formed and do not collide, the daemon
  answers with the block it was asked for, and the headers it sends are in \<open>S\<close>.
\<close>

definition trusted_daemon :: "libs \<Rightarrow> BlockHeader set \<Rightarrow> daemon_api \<Rightarrow> bool" where
  "trusted_daemon L S D \<longleftrightarrow>
     collision_free (lib_block_hash L) S \<and> (\<forall>h\<in>S. wf_header h) \<and>
     (\<forall>bh b. dm_getblock D bh = Inr b \<longrightarrow> lib_block_hash L (blk_header b) = bh \<and> blk_header b \<in> S) \<and>
     (\<forall>hl tip hs. dm_get_new_headers D hl tip = Inr hs \<longrightarrow> set hs \<subseteq> S)"

lemma apply_same_tip:
  assumes "apply_headers hl es tip = Inr hl'" "es \<noteq> []" "he_hash (last es) \<noteq> null_hash"
  shows "tip = he_hash (last es)"
proof (cases "tip = null_hash")
  case True
  with assms show ?thesis by (simp add: apply_headers_def result_simps)
next
  case False
  from apply_headers_chain [OF assms(1) False] obtain n where "apply_height hl es tip = Inr n" by blast
  with assms(2) show ?thesis
    by (cases es) (auto simp: apply_height_def Let_def result_simps)
qed

lemma universe_subset:
  assumes "collision_free H S" "\<forall>h\<in>S. wf_header h" "he_header ` set ys \<subseteq> S" "set xs \<subseteq> set ys"
  shows "collision_free H (he_header ` set xs)" "\<forall>e\<in>set xs. wf_header (he_header e)"
proof -
  have "he_header ` set xs \<subseteq> S" using image_mono [OF assms(4)] assms(3) by (rule subset_trans)
  then show "collision_free H (he_header ` set xs)" "\<forall>e\<in>set xs. wf_header (he_header e)"
    using assms(1,2) inj_on_subset unfolding collision_free_def by blast+
qed

context codec_laws
begin

lemma collect_headers_ok:
  assumes "\<forall>r\<in>set rows. \<exists>h. wf_header h \<and> r = header_row L h" "distinct (map row_key rows)"
  shows "\<exists>m'. collect_headers L rows m = Inr m' \<and>
    (\<forall>k v. map_of m k = Some v \<and> 0x42 # k \<notin> row_key ` set rows \<longrightarrow> map_of m' k = Some v) \<and>
    (\<forall>h. wf_header h \<and> header_row L h \<in> set rows \<longrightarrow> map_of m' (lib_block_hash L h) = Some h)"
  using assms
proof (induction rows arbitrary: m)
  case (Cons r rows)
  obtain h where h: "wf_header h" "r = header_row L h"
    using bspec [OF Cons.prems(1), of r] by auto
  let ?m = "AList.update (lib_block_hash L h) h m"
  obtain m' where m': "collect_headers L rows ?m = Inr m'"
    and old: "\<forall>k v. map_of ?m k = Some v \<and> 0x42 # k \<notin> row_key ` set rows \<longrightarrow> map_of m' k = Some v"
    and new: "\<forall>h. wf_header h \<and> header_row L h \<in> set rows \<longrightarrow> map_of m' (lib_block_hash L h) = Some h"
  proof -
    have "\<forall>r\<in>set rows. \<exists>h. wf_header h \<and> r = header_row L h" "distinct (map row_key rows)"
      using Cons.prems by simp_all
    from Cons.IH [OF this, of ?m] show thesis by (elim exE conjE) (rule that)
  qed
  have nin: "row_key r \<notin> row_key ` set rows" using Cons.prems(2) by simp
  have "collect_headers L (r # rows) m = collect_headers L rows ?m"
    using h by (simp add: header_row_def de_BlockKey_def de_u8 de_array_all block_hash_len de_header de_hash)
  moreover have "map_of m' k = Some v"
    if "map_of m k = Some v" "0x42 # k \<notin> row_key ` set (r # rows)" for k v
  proof -
    from that h have "k \<noteq> lib_block_hash L h" by (simp add: header_row_def)
    with that old show ?thesis by (simp add: update_conv')
  qed
  moreover have "map_of m' (lib_block_hash L k) = Some k"
    if "wf_header k" "header_row L k \<in> set (r # rows)" for k
  proof (cases "header_row L k = r")
    case True
    with h have "lib_ser_header L k = lib_ser_header L h" by (simp add: header_row_def)
    with de_header [OF that(1)] de_header [OF h(1)] have "k = h" by (metis option.inject)
    with old nin h show ?thesis by (simp add: update_conv' header_row_def)
  qed (use that new in simp)
  ultimately show ?case using m' by (intro exI [of _ m'] conjI allI impI) (simp, blast+)
qed simp

lemma index_transaction_keys:
  assumes "index_transaction L txn h ca = Inr rows" "r \<in> set rows"
  shows "hd (row_key r) \<in> {0x49, 0x4F, 0x54, 0x43} \<and> row_key r \<noteq> []"
proof -
  have "hd (row_key r) = 0x43 \<and> row_key r \<noteq> []"
    if "index_cashaccount L p txn (of_nat h) = Inr (Some r)" for p r
    using that row_codes(4)
    by (auto simp: index_cashaccount_def result_simps row_defs ser_u8 split: if_splits option.splits)
  then show ?thesis
    using assms by (auto simp: index_transaction_def result_simps txin_rows_def txout_rows_def row_defs
        ser_u8 split: option.splits)
qed

lemma index_block_lookup:
  assumes "index_block L blk h ca = Inr rows"
  shows "map_of (rev (map into_pair rows)) (0x42 # k) =
      (if k = lib_block_hash L (blk_header blk) then Some (lib_ser_header L (blk_header blk)) else None)"
    and "map_of (rev (map into_pair rows)) [0x4C] = None"
proof -
  from assms obtain rss where rss: "mapM (\<lambda>txn. index_transaction L txn h (Some ca)) (txdata blk) = Inr rss"
    "rows = concat rss @ [block_row L blk]"
    by (auto simp: index_block_def result_simps)
  have "hd (row_key r) \<in> {0x49, 0x4F, 0x54, 0x43}" if "r \<in> set (concat rss)" for r
    using that mapM_set [OF rss(1)] index_transaction_keys by fastforce
  then have *: "row_key r \<noteq> 0x42 # k" "row_key r \<noteq> [0x4C]" if "r \<in> set (concat rss)" for r k
    using that by fastforce+
  show "map_of (rev (map into_pair rows)) (0x42 # k) =
      (if k = lib_block_hash L (blk_header blk) then Some (lib_ser_header L (blk_header blk)) else None)"
    using map_of_rows_None [of "concat rss" "0x42 # k"] *
    by (auto simp: rss(2) into_pair_def block_row_def ser_BlockKey_def ser_u8 ser_array)
  show "map_of (rev (map into_pair rows)) [0x4C] = None"
    using * by (intro map_of_rows_None) (auto simp: rss(2) block_row_def ser_BlockKey_def ser_u8 ser_array)
qed

lemma block_rows_decode:
  assumes st: "read_store rs invar contents" "invar s" and p: "persists L (contents s) es"
  shows "\<forall>r\<in>set (rs_scan (rs s) [0x42]). \<exists>h. wf_header h \<and> r = header_row L h"
proof
  fix r assume "r \<in> set (rs_scan (rs s) [0x42])"
  then have "contents s (row_key r) = Some (row_value r)" "prefix [0x42] (row_key r)"
    by (simp_all add: read_store.scan_mem [OF st])
  moreover then obtain k where k: "row_key r = 0x42 # k" by (auto simp: prefix_def)
  ultimately obtain h where "wf_header h" "k = lib_block_hash L h" "row_value r = lib_ser_header L h"
    using p unfolding persists_def block_rows_def by metis
  with k show "\<exists>h. wf_header h \<and> r = header_row L h"
    by (intro exI [of _ h]) (simp add: header_row_def)
qed

lemma chain_tip_hash:
  "chained (lib_block_hash L) 0 null_hash es \<Longrightarrow> es \<noteq> [] \<Longrightarrow>
     he_hash (last es) = lib_block_hash L (he_header (last es))"
  by (induction es rule: rev_induct) (auto simp: chained_append)

lemma read_persisted:
  assumes st: "read_store rs invar contents" "invar s" and p: "persists L (contents s) es"
    and ch: "chained (lib_block_hash L) 0 null_hash es"
    and cf: "collision_free (lib_block_hash L) (he_header ` set es)"
    and wf: "\<forall>e\<in>set es. wf_header (he_header e)"
  shows "\<exists>hl. read_indexed_headers L (rs s) = Inr hl \<and> wf_headers (lib_block_hash L) hl \<and> hl_headers hl = es"
proof -
  let ?H = "lib_block_hash L" and ?rows = "rs_scan (rs s) [0x42]"
  have hash: "he_hash e = ?H (he_header e)" if "e \<in> set es" for e
    using that chained_nth(2) [OF ch] by (auto simp: in_set_conv_nth)
  obtain m where m: "collect_headers L ?rows [] = Inr m"
    and hs: "\<forall>h. wf_header h \<and> header_row L h \<in> set ?rows \<longrightarrow> map_of m (?H h) = Some h"
    using collect_headers_ok [OF block_rows_decode [OF st p] read_store.scan_distinct [OF st], of "[]"]
    by (elim exE conjE)
  have "map_of m (he_hash e) = Some (he_header e)" if e: "e \<in> set es" for e
  proof -
    have "contents s (0x42 # he_hash e) = Some (lib_ser_header L (he_header e))"
      using p e unfolding persists_def block_rows_def by blast
    then have "header_row L (he_header e) \<in> set ?rows"
      by (simp add: read_store.scan_mem [OF st] header_row_def hash [OF e])
    with hs wf e show ?thesis by (simp add: hash)
  qed
  moreover have "null_hash \<notin> he_hash ` set es"
    using cf hash by (auto simp: collision_free_def)
  ultimately have walk: "walk_headers m (last_hash null_hash es) [] = Inr (rev (map he_header es))"
    using walk_chain [OF ch chained_distinct [OF ch cf], of m "[]"] by simp
  have get: "(case rs_get (rs s) [0x4C] of Some row \<Rightarrow> expect ''unwrap'' (lib_de_hash L row)
      | None \<Rightarrow> Inr null_hash) = Inr (last_hash null_hash es)"
    using p chain_tip_hash [OF ch] block_hash_len
    by (simp add: read_store.get_contents [OF st] persists_def marker_def last_hash_def de_hash)
  have first: "es \<noteq> [] \<Longrightarrow> prev_blockhash (hd (map he_header es)) = null_hash"
    using ch by (cases es) auto
  have last: "es \<noteq> [] \<Longrightarrow> ?H (last (map he_header es)) = last_hash null_hash es"
    using chain_tip_hash [OF ch] by (simp add: last_map last_hash_def)
  have "read_indexed_headers L (rs s) = apply_headers empty_headers es (last_hash null_hash es)"
    using get m walk first last
    by (auto simp: read_indexed_headers_def Let_def order_empty [OF ch])
  with apply_empty [OF ch cf] show ?thesis by simp
qed

lemma block_rows_put:
  assumes ws: "write_store rs invar contents put sync_all" "invar s"
    and rows: "index_block L b height ca = Inr rows"
    and e: "he_header e = blk_header b" "he_hash e = lib_block_hash L (blk_header b)"
    and wf: "wf_header (blk_header b)"
    and same: "\<forall>x\<in>set es. he_hash x = he_hash e \<longrightarrow> he_header x = he_header e"
    and br: "block_rows L (contents s) es"
  shows "block_rows L (contents (put s rows sync)) (es @ [e])"
    and "block_rows L (contents (put s (rows @ [last_indexed_block L bh]) sync)) (es @ [e])"
    and "contents (put s rows sync) [0x4C] = contents s [0x4C]"
    and "length bh = 32 \<Longrightarrow> contents (put s (rows @ [last_indexed_block L bh]) sync) [0x4C] = Some bh"
proof -
  note wc = write_store.write_contents [OF ws]
  have B: "contents (put s rows sync) (0x42 # k) =
      (if k = he_hash e then Some (lib_ser_header L (he_header e)) else contents s (0x42 # k))"
    "contents (put s (rows @ [last_indexed_block L bh]) sync) (0x42 # k) =
      (if k = he_hash e then Some (lib_ser_header L (he_header e)) else contents s (0x42 # k))" for k
    using index_block_lookup(1) [OF rows, of k] e
    by (simp_all add: wc map_add_def last_indexed_block_def into_pair_def)
  show "block_rows L (contents (put s rows sync)) (es @ [e])"
    "block_rows L (contents (put s (rows @ [last_indexed_block L bh]) sync)) (es @ [e])"
    using br e wf same by (auto simp: block_rows_def B)
  show "contents (put s rows sync) [0x4C] = contents s [0x4C]"
    using index_block_lookup(2) [OF rows] by (simp add: wc map_add_def)
  show "length bh = 32 \<Longrightarrow> contents (put s (rows @ [last_indexed_block L bh]) sync) [0x4C] = Some bh"
    by (simp add: wc map_add_def last_indexed_block_def into_pair_def ser_hash)
qed

lemma loop_inv_put:
  assumes ws: "write_store rs invar contents put sync_all" "invar s"
    and rows: "index_block L b height ca = Inr rows"
    and e: "he_header e = blk_header b" "he_hash e = lib_block_hash L (blk_header b)"
    and wf: "wf_header (blk_header b)"
    and same: "\<forall>x\<in>set (old @ fresh). he_hash x = he_hash e \<longrightarrow> he_header x = he_header e"
    and inv: "loop_inv L (contents s) old fresh"
  shows "loop_inv L (contents (put s (if m then rows @ [last_indexed_block L (he_hash e)] else rows) False))
    old (fresh @ [e])"
proof (cases m)
  case True
  have "length (he_hash e) = 32" using e(2) block_hash_len by simp
  with inv block_rows_put(2,4) [OF ws rows e wf same, of "he_hash e" False] True show ?thesis
    by (auto simp: loop_inv_def intro: exI [of _ "Suc (length fresh)"])
next
  case False
  have "(fresh @ [e]) ! (j - 1) = fresh ! (j - 1)" if "0 < j" "j \<le> length fresh" for j
    using that by (cases j) (simp_all add: nth_append)
  with inv have "marker (contents s) old \<or>
      (\<exists>j. 0 < j \<and> j \<le> length (fresh @ [e]) \<and> contents s [0x4C] = Some (he_hash ((fresh @ [e]) ! (j - 1))))"
    unfolding loop_inv_def by (metis le_SucI length_append_singleton)
  with inv block_rows_put(1,3) [OF ws rows e wf same, of False] False show ?thesis
    by (simp add: loop_inv_def marker_def)
qed

lemma index_loop_inv:
  assumes ws: "write_store rs invar contents put sync_all"
    and cf: "collision_free (lib_block_hash L) S" "\<forall>h\<in>S. wf_header h"
    and blk: "\<forall>bh b. dm_getblock D bh = Inr b \<longrightarrow> lib_block_hash L (blk_header b) = bh \<and> blk_header b \<in> S"
    and es: "\<forall>e\<in>set (old @ fresh @ es). he_hash e = lib_block_hash L (he_header e) \<and> he_header e \<in> S"
    and inv: "invar s" "loop_inv L (contents s) old fresh"
    and run: "index_loop L put D poll hm ca i prev (map he_hash es) s = (s', r)"
  shows "\<exists>k\<le>length es. invar s' \<and> loop_inv L (contents s') old (fresh @ take k es) \<and>
    (is_ok r \<longrightarrow> k = length es \<and> r = Inr (if es = [] then prev else Some (he_hash (last es))))"
  using es inv run
proof (induction es arbitrary: i prev s fresh)
  case Nil
  then show ?case by (auto split: sum.splits)
next
  case (Cons e es)
  show ?case
  proof (cases "\<exists>b height rows. poll i = Inr () \<and> dm_getblock D (he_hash e) = Inr b \<and>
      hm (he_hash e) = Some height \<and> index_block L b height ca = Inr rows")
    case False
    with Cons.prems(4) blk have "s' = s \<and> \<not> is_ok r"
      by (auto simp: Let_def split: sum.splits option.splits)
    with Cons.prems(2,3) show ?thesis by (intro exI [of _ 0]) simp
  next
    case True
    then obtain b height rows where st: "poll i = Inr ()" "dm_getblock D (he_hash e) = Inr b"
      "hm (he_hash e) = Some height" "index_block L b height ca = Inr rows" by blast
    with blk have bh: "lib_block_hash L (blk_header b) = he_hash e" and bS: "blk_header b \<in> S" by blast+
    have same: "he_header x = blk_header b"
      if "x \<in> set (old @ fresh @ e # es)" "he_hash x = he_hash e" for x
      using that Cons.prems(1) cf(1) bh bS unfolding collision_free_def by (metis inj_onD)
    let ?rows = "if (i + 1) mod 1000 = 0 then rows @ [last_indexed_block L (he_hash e)] else rows"
    let ?s = "put s ?rows False"
    have wf: "wf_header (blk_header b)" using cf(2) bS by blast
    have e: "he_header e = blk_header b" by (rule same) simp_all
    have same': "\<forall>x\<in>set (old @ fresh). he_hash x = he_hash e \<longrightarrow> he_header x = he_header e"
      unfolding e by (intro ballI impI same) auto
    have li: "loop_inv L (contents ?s) old (fresh @ [e])"
      by (rule loop_inv_put [OF ws Cons.prems(2) st(4) e bh [symmetric] wf same' Cons.prems(3)])
    have iv: "invar ?s" by (rule write_store.write_invar [OF ws Cons.prems(2)])
    have run: "index_loop L put D poll hm ca (i + 1) (Some (he_hash e)) (map he_hash es) ?s = (s', r)"
      using Cons.prems(4) st bh by (simp add: Let_def)
    have es: "\<forall>x\<in>set (old @ (fresh @ [e]) @ es). he_hash x = lib_block_hash L (he_header x) \<and> he_header x \<in> S"
      using Cons.prems(1) by simp
    from Cons.IH [OF es iv li run] obtain k where "k \<le> length es" "invar s'"
      "loop_inv L (contents s') old ((fresh @ [e]) @ take k es)"
      "is_ok r \<longrightarrow> k = length es \<and> r = Inr (if es = [] then Some (he_hash e) else Some (he_hash (last es)))"
      by blast
    then show ?thesis by (intro exI [of _ "Suc k"]) auto
  qed
qed

lemma loop_inv_readable:
  assumes ws: "write_store rs invar contents put sync_all" "invar s"
    and li: "loop_inv L (contents s) old (take k es)"
    and ch: "chained (lib_block_hash L) 0 null_hash old" "chained (lib_block_hash L) 0 null_hash (take n old @ es)"
    and S: "collision_free (lib_block_hash L) S" "\<forall>h\<in>S. wf_header h" "he_header ` set (old @ es) \<subseteq> S"
    and k: "k \<le> length es"
  shows "\<exists>hl. read_indexed_headers L (rs s) = Inr hl \<and> wf_headers (lib_block_hash L) hl \<and>
    (marker (contents s) old \<and> hl_headers hl = old \<or>
     (\<exists>j. 0 < j \<and> j \<le> k \<and> contents s [0x4C] = Some (he_hash (es ! (j - 1))) \<and>
        hl_headers hl = take n old @ take j es))"
proof -
  note rd = read_persisted [OF write_store.axioms(1) [OF ws(1)] ws(2)]
  have rows: "block_rows L (contents s) xs" if "set xs \<subseteq> set (old @ take k es)" for xs
    using li that unfolding loop_inv_def block_rows_def by blast
  note sub = universe_subset [OF S]
  show ?thesis
  proof (cases "marker (contents s) old")
    case True
    then have "persists L (contents s) old" by (simp add: persists_def rows)
    from rd [OF this ch(1) sub] True show ?thesis by auto
  next
    case False
    with li obtain j where j: "0 < j" "j \<le> length (take k es)"
      "contents s [0x4C] = Some (he_hash (take k es ! (j - 1)))"
      unfolding loop_inv_def by blast
    with k have jk: "j \<le> k" "take k es ! (j - 1) = es ! (j - 1)" by simp_all
    let ?xs = "take n old @ take j es"
    have xs: "set ?xs \<subseteq> set (old @ take k es)"
      using jk(1) set_take_subset_set_take [OF jk(1), of es] set_take_subset [of n old] by auto
    have all: "set ?xs \<subseteq> set (old @ es)"
      using set_take_subset [of n old] set_take_subset [of j es] by auto
    have last: "?xs \<noteq> []" "last ?xs = es ! (j - 1)"
      using j(1,2) jk(1) k by (auto simp: last_append last_conv_nth)
    have "persists L (contents s) ?xs"
      using j(3) jk(2) last by (simp add: persists_def rows [OF xs] marker_def)
    moreover have "chained (lib_block_hash L) 0 null_hash ?xs"
      using ch(2) chained_take by (simp add: chained_append)
    ultimately show ?thesis using rd sub [OF all] j jk by metis
  qed
qed

lemma update_finish:
  assumes ws: "write_store rs invar contents put sync_all" "invar s"
    and li: "loop_inv L (contents s) old es" and es: "es \<noteq> []"
    and hash: "\<forall>e\<in>set es. he_hash e = lib_block_hash L (he_header e)"
  shows "invar (sync_all (put s [last_indexed_block L (he_hash (last es))] False))"
    and "loop_inv L (contents (sync_all (put s [last_indexed_block L (he_hash (last es))] False))) old es"
    and "contents (sync_all (put s [last_indexed_block L (he_hash (last es))] False)) [0x4C] =
      Some (he_hash (last es))"
proof -
  let ?s = "put s [last_indexed_block L (he_hash (last es))] False"
  have inv: "invar ?s" by (rule write_store.write_invar [OF ws])
  show "invar (sync_all ?s)" by (rule write_store.flush_invar [OF ws(1) inv])
  have "length (he_hash (last es)) = 32" using hash es block_hash_len by simp
  then have c: "contents (sync_all ?s) = (contents s)([0x4C] \<mapsto> he_hash (last es))"
    unfolding write_store.flush_contents [OF ws(1) inv] write_store.write_contents [OF ws]
    by (simp add: last_indexed_block_def into_pair_def ser_hash map_add_def fun_eq_iff)
  show "contents (sync_all ?s) [0x4C] = Some (he_hash (last es))" by (simp add: c)
  have "block_rows L (contents (sync_all ?s)) (old @ es)"
    using li unfolding loop_inv_def block_rows_def c by simp
  moreover have "contents (sync_all ?s) [0x4C] = Some (he_hash (es ! (length es - 1)))"
    unfolding c using last_conv_nth [OF es] by simp
  ultimately show "loop_inv L (contents (sync_all ?s)) old es"
    using es unfolding loop_inv_def by auto
qed

lemma update_new_headers:
  assumes ws: "write_store rs invar contents put sync_all" "invar s"
    and td: "trusted_daemon L S D"
    and wf: "wf_headers (lib_block_hash L) (ix_headers ix)" "he_header ` set (hl_headers (ix_headers ix)) \<subseteq> S"
    and p: "persists L (contents s) (hl_headers (ix_headers ix))"
    and ord: "order (lib_block_hash L) (ix_headers ix) hs = Inr es" "es \<noteq> []" "set hs \<subseteq> S"
    and run: "update_loop L put D poll ix es s = (s1, r1)"
  obtains n k where "chained (lib_block_hash L) 0 null_hash (take n (hl_headers (ix_headers ix)) @ es)"
    "\<forall>tip hl. apply_headers (ix_headers ix) es tip = Inr hl \<longrightarrow> hl_headers hl = take n (hl_headers (ix_headers ix)) @ es"
    "k \<le> length es" "invar s1" "loop_inv L (contents s1) (hl_headers (ix_headers ix)) (take k es)"
    "is_ok r1 \<longrightarrow> k = length es \<and> r1 = Inr (Some (he_hash (last es)))"
    "he_header ` set es \<subseteq> S" "\<forall>e\<in>set es. he_hash e = lib_block_hash L (he_header e)"
proof -
  let ?H = "lib_block_hash L" and ?old = "hl_headers (ix_headers ix)"
  from td have cf: "collision_free ?H S" "\<forall>h\<in>S. wf_header h"
    and blk: "\<forall>bh b. dm_getblock D bh = Inr b \<longrightarrow> ?H (blk_header b) = bh \<and> blk_header b \<in> S"
    by (auto simp: trusted_daemon_def)
  have esS: "he_header ` set es \<subseteq> S"
    using order_headers [OF ord(1,2)] ord(3) by (metis list.set_map)
  have nz: "\<forall>h\<in>set hs. ?H h \<noteq> null_hash" using cf(1) ord(3) by (auto simp: collision_free_def)
  have hes: "\<forall>e\<in>set es. he_hash e = ?H (he_header e)" by (rule order_hashes [OF ord(1)])
  from apply_ordered_ok [OF wf(1) ord(1,2) nz] obtain hl n where
    ap: "apply_headers (ix_headers ix) es (he_hash (last es)) = Inr hl" "hl_headers hl = take n ?old @ es"
    by blast
  have cfo: "collision_free ?H (he_header ` (set ?old \<union> set es))"
    using cf(1) wf(2) esS inj_on_subset [of ?H S] by (auto simp: collision_free_def image_Un)
  have ch: "chained ?H 0 null_hash (take n ?old @ es)"
    using apply_headers_wf [OF wf(1) ap(1) hes cfo] ap(2) by (simp add: wf_headers_def)
  have lz: "he_hash (last es) \<noteq> null_hash"
    using cf(1) hes last_in_set [OF ord(2)] subsetD [OF esS, of "he_header (last es)"]
    by (auto simp: collision_free_def)
  have same: "hl_headers hl' = take n ?old @ es" if "apply_headers (ix_headers ix) es tip = Inr hl'" for tip hl'
    using that ap apply_same_tip [OF that ord(2) lz] by simp
  have hold: "\<forall>e\<in>set ?old. he_hash e = ?H (he_header e)"
    using chained_nth(2) wf(1) by (auto simp: wf_headers_def in_set_conv_nth)
  have all: "\<forall>e\<in>set (?old @ [] @ es). he_hash e = ?H (he_header e) \<and> he_header e \<in> S"
    using hold hes wf(2) esS by auto
  have li: "loop_inv L (contents s) ?old []" using p by (simp add: loop_inv_def persists_def)
  from index_loop_inv [OF ws(1) cf blk all ws(2) li run [unfolded update_loop_def]] ord(2)
  obtain k where "k \<le> length es" "invar s1" "loop_inv L (contents s1) ?old (take k es)"
    "is_ok r1 \<longrightarrow> k = length es \<and> r1 = Inr (Some (he_hash (last es)))" by auto
  with that ch same esS hes show thesis by blast
qed

lemma update_restart_new:
  assumes ws: "write_store rs invar contents put sync_all" "invar s"
    and td: "trusted_daemon L S D"
    and wf: "wf_headers (lib_block_hash L) (ix_headers ix)" "he_header ` set (hl_headers (ix_headers ix)) \<subseteq> S"
    and p: "persists L (contents s) (hl_headers (ix_headers ix))"
    and run: "index_update L put sync_all D poll ix s = (s', ix', r)"
    and te: "update_headers L D ix = Inr (tip, es)" and ne: "es \<noteq> []"
  shows "\<exists>hl. read_indexed_headers L (rs s') = Inr hl \<and> wf_headers (lib_block_hash L) hl \<and>
    (hl_headers hl = hl_headers (ix_headers ix) \<or>
     (\<exists>n fresh. fresh \<noteq> [] \<and> hl_headers hl = take n (hl_headers (ix_headers ix)) @ fresh)) \<and>
    (\<forall>es tip_header. r = Inr (es, tip_header) \<and> es \<noteq> [] \<longrightarrow> hl_headers hl = hl_headers (ix_headers ix'))"
proof -
  let ?old = "hl_headers (ix_headers ix)"
  from td have cf: "collision_free (lib_block_hash L) S" "\<forall>h\<in>S. wf_header h"
    by (auto simp: trusted_daemon_def)
  have ch: "chained (lib_block_hash L) 0 null_hash ?old" using wf(1) by (simp add: wf_headers_def)
  obtain s1 r1 where loop: "update_loop L put D poll ix es s = (s1, r1)" by fastforce
  from te obtain hs where "dm_get_new_headers D (ix_headers ix) tip = Inr hs"
    and ord: "order (lib_block_hash L) (ix_headers ix) hs = Inr es"
    by (auto simp: update_headers_def result_simps)
  with td have hsS: "set hs \<subseteq> S" by (auto simp: trusted_daemon_def)
  from update_new_headers [OF ws td wf p ord ne hsS loop] obtain n k where
    u: "chained (lib_block_hash L) 0 null_hash (take n ?old @ es)"
    "\<forall>tip hl. apply_headers (ix_headers ix) es tip = Inr hl \<longrightarrow> hl_headers hl = take n ?old @ es"
    "k \<le> length es" "invar s1" "loop_inv L (contents s1) ?old (take k es)"
    "is_ok r1 \<longrightarrow> k = length es \<and> r1 = Inr (Some (he_hash (last es)))"
    "he_header ` set es \<subseteq> S" "\<forall>e\<in>set es. he_hash e = lib_block_hash L (he_header e)" .
  have sub: "he_header ` set (?old @ es) \<subseteq> S" using wf(2) u(7) by auto
  show ?thesis
  proof (cases r1)
    case (Inl e)
    with run te loop have "s' = s1" "\<not> is_ok r" by (auto simp: index_update_def)
    with loop_inv_readable [OF ws(1) u(4,5) ch u(1) cf sub u(3)] ne show ?thesis
      by (metis is_ok_simps(1) take_eq_Nil less_numeral_extra(3))
  next
    case (Inr prev)
    with u(6) have prev: "k = length es" "r1 = Inr (Some (he_hash (last es)))" by auto
    with run te loop have s': "s' = sync_all (put s1 [last_indexed_block L (he_hash (last es))] False)"
      and ap: "\<forall>es' t. r = Inr (es', t) \<longrightarrow> apply_headers (ix_headers ix) es tip = Inr (ix_headers ix')"
      by (auto simp: index_update_def Let_def result_simps split: sum.splits)
    from u(5) prev(1) have li: "loop_inv L (contents s1) ?old es" by simp
    note fin = update_finish [OF ws(1) u(4) li ne u(8), folded s']
    from fin(2) have "block_rows L (contents s') (take n ?old @ es)"
      using set_take_subset [of n ?old] unfolding loop_inv_def block_rows_def by auto
    with fin(3) ne have "persists L (contents s') (take n ?old @ es)"
      by (simp add: persists_def marker_def)
    moreover have "collision_free (lib_block_hash L) (he_header ` set (take n ?old @ es))"
      "\<forall>e\<in>set (take n ?old @ es). wf_header (he_header e)"
      using universe_subset [OF cf(1) cf(2) sub, of "take n ?old @ es"] set_take_subset [of n ?old] by auto
    ultimately obtain hl where "read_indexed_headers L (rs s') = Inr hl"
      "wf_headers (lib_block_hash L) hl" "hl_headers hl = take n ?old @ es"
      using read_persisted [OF write_store.axioms(1) [OF ws(1)] fin(1) _ u(1)] by blast
    with u(2) ap ne show ?thesis by auto
  qed
qed

lemma update_restart:
  assumes ws: "write_store rs invar contents put sync_all" "invar s"
    and td: "trusted_daemon L S D"
    and wf: "wf_headers (lib_block_hash L) (ix_headers ix)" "he_header ` set (hl_headers (ix_headers ix)) \<subseteq> S"
    and p: "persists L (contents s) (hl_headers (ix_headers ix))"
    and run: "index_update L put sync_all D poll ix s = (s', ix', r)"
  shows "\<exists>hl. read_indexed_headers L (rs s') = Inr hl \<and> wf_headers (lib_block_hash L) hl \<and>
    (hl_headers hl = hl_headers (ix_headers ix) \<or>
     (\<exists>n fresh. fresh \<noteq> [] \<and> hl_headers hl = take n (hl_headers (ix_headers ix)) @ fresh)) \<and>
    (\<forall>es tip_header. r = Inr (es, tip_header) \<and> es \<noteq> [] \<longrightarrow> hl_headers hl = hl_headers (ix_headers ix'))"
proof -
  let ?old = "hl_headers (ix_headers ix)"
  from td have cf: "collision_free (lib_block_hash L) S" "\<forall>h\<in>S. wf_header h"
    by (auto simp: trusted_daemon_def)
  have ch: "chained (lib_block_hash L) 0 null_hash ?old" using wf(1) by (simp add: wf_headers_def)
  have unchanged: ?thesis if "invar s'" "contents s' = contents s" "\<forall>es t. r = Inr (es, t) \<longrightarrow> es = []"
  proof -
    have "loop_inv L (contents s') ?old (take 0 [])"
      using p that(2) by (simp add: loop_inv_def persists_def)
    from loop_inv_readable [OF ws(1) that(1) this ch _ cf, of 0] ch wf(2) that(3) show ?thesis
      by (auto simp: chained_take)
  qed
  show ?thesis
  proof (cases "update_headers L D ix")
    case (Inl e)
    with run ws(2) show ?thesis by (intro unchanged) (auto simp: index_update_def)
  next
    case (Inr te)
    then obtain tip es where te: "update_headers L D ix = Inr (tip, es)" by (cases te) auto
    obtain s1 r1 where loop: "update_loop L put D poll ix es s = (s1, r1)" by fastforce
    show ?thesis
    proof (cases "es = []")
      case True
      with loop have s1: "s1 = s" "\<forall>b. r1 = Inr b \<longrightarrow> b = None"
        by (auto simp: update_loop_def split: sum.splits)
      with run te loop True have "s' = s \<or> s' = sync_all s" "\<forall>es t. r = Inr (es, t) \<longrightarrow> es = []"
        by (auto simp: index_update_def Let_def result_simps split: sum.splits)
      then show ?thesis
        using ws(2) write_store.flush_invar [OF ws] write_store.flush_contents [OF ws]
        by (intro unchanged) auto
    next
      case False
      from update_restart_new [OF ws td wf p run te this] show ?thesis .
    qed
  qed
qed

end

section \<open>Properties\<close>

definition demo_genesis :: Block where
  "demo_genesis = \<lparr>
     blk_header = \<lparr>bh_version = 1, prev_blockhash = null_hash, merkle_root = null_hash,
       bh_time = 7, bh_bits = 1, bh_nonce = 1\<rparr>,
     txdata = [\<lparr>tx_version = 1, tx_lock_time = 0,
       tx_input = [\<lparr>previous_output = \<lparr>op_txid = null_hash, op_vout = - 1\<rparr>, script_sig = [], sequence = 0\<rparr>],
       tx_output = [\<lparr>out_value = 50, script_pubkey = [0x51]\<rparr>]\<rparr>]\<rparr>"

definition demo_daemon :: daemon_api where
  "demo_daemon = \<lparr>
     dm_reconnect = Inr (),
     dm_getbestblockhash = Inr (lib_block_hash std_libs (blk_header demo_genesis)),
     dm_get_new_headers = (\<lambda>hl tip. Inr [blk_header demo_genesis]),
     dm_getblock = (\<lambda>bh. if bh = lib_block_hash std_libs (blk_header demo_genesis)
        then Inr demo_genesis else bail ''block not found'')\<rparr>"

definition demo_index :: Index where
  "demo_index = \<lparr>ix_headers = empty_headers, ix_batch_size = 10, ix_cashaccount_activation_height = 0\<rparr>"

definition demo_store :: "(Bytes \<times> Bytes) list DbStore" where
  "demo_store = \<lparr>ds_db = [], ds_bulk_import = True, ds_low_memory = False, ds_auto_compactions = False\<rparr>"

definition demo_update :: "(Bytes \<times> Bytes) list DbStore \<times> Index \<times> (HeaderEntry list \<times> HeaderEntry) result" where
  "demo_update = index_update std_libs (dbstore_write btree_db) (dbstore_flush btree_db) demo_daemon
     (\<lambda>_. Inr ()) demo_index demo_store"

lemma demo_block_rows: "\<exists>rows. index_block std_libs demo_genesis 0 (CashAccountParser_new (Some 0)) = Inr rows"
  by (simp add: index_block_def index_transaction_def index_cashaccount_def demo_genesis_def
      is_valid_cashaccount_height_def CASHACCOUNT_INDEX_DISABLED_def)

lemma le_bytes_4: "le_bytes 4 n = of_nat (n mod 256) # le_bytes 3 (n div 256)"
proof -
  have "(4 :: nat) = Suc 3" by simp
  then show ?thesis by (simp only: le_bytes.simps)
qed

lemma hd_null_hash: "hd null_hash = 0"
  by (simp add: null_hash_def)

lemma hd_fold32: "hd (fold32 (b # bs)) = b"
  by (simp add: fold32_def)

lemma std_block_hash: "lib_block_hash std_libs h = fold32 (drop 68 (header_bytes h) @ prev_blockhash h)"
  by (simp add: std_libs_def)

lemma drop_header_bytes:
  assumes "wf_header h"
  shows "drop 68 (header_bytes h) = le_bytes 4 (unat (bh_time h)) @ le_bytes 4 (unat (bh_bits h)) @
    le_bytes 4 (unat (bh_nonce h))"
  using assms by (simp add: header_bytes_def wf_header_def)

lemma demo_wf_header: "wf_header (blk_header demo_genesis)"
  by (simp add: demo_genesis_def wf_header_def)

lemma demo_time: "bh_time (blk_header demo_genesis) = 7"
  by (simp add: demo_genesis_def)

lemma demo_block_hash: "lib_block_hash std_libs (blk_header demo_genesis) \<noteq> null_hash"
proof
  assume "lib_block_hash std_libs (blk_header demo_genesis) = null_hash"
  then have "hd (lib_block_hash std_libs (blk_header demo_genesis)) = 0" by (simp add: hd_null_hash)
  then show False
    by (simp add: std_block_hash drop_header_bytes [OF demo_wf_header] le_bytes_4 hd_fold32 demo_time)
qed

lemma demo_prev: "prev_blockhash (blk_header demo_genesis) = null_hash"
  by (simp add: demo_genesis_def)

lemma demo_update_ok: "\<exists>e. snd (snd demo_update) = Inr ([e], e)"
  using demo_block_rows demo_block_hash
  by (auto simp: demo_update_def index_update_def update_headers_def demo_daemon_def order_def
      hash_headers_def demo_prev update_loop_def demo_index_def Let_def apply_headers_def apply_height_def
      empty_headers_def tiphash_def headers_tip_def)



end
