(* ===== verification/Mempool.thy ===== *)
theory Mempool
  imports IndexRows "HOL-Library.AList"
begin

text \<open>
  The mempool (\<^verbatim>\<open>src/src/mempool.rs\<close>): the in-memory store of the rows of unconfirmed transactions,
  the tracker that follows the daemon's mempool, and the fee histogram.  \<^verbatim>\<open>f32\<close> is a type parameter
  with the operations the code uses; hash sets and maps are lists in their iteration order.
\<close>

section \<open>The store\<close>

type_synonym MempoolStore = "(Bytes \<times> Bytes list) list"

definition mempool_store_new :: MempoolStore where
  "mempool_store_new = []"

fun store_add_rows :: "MempoolStore \<Rightarrow> Row list \<Rightarrow> MempoolStore" where
  "store_add_rows m [] = m"
| "store_add_rows m (row # rows) =
     (let (key, value) = into_pair row;
          values = (case map_of m key of None \<Rightarrow> [] | Some vs \<Rightarrow> vs)
      in store_add_rows (bt_insert key (values @ [value]) m) rows)"

definition store_add :: "libs \<Rightarrow> MempoolStore \<Rightarrow> Transaction \<Rightarrow> MempoolStore result" where
  "store_add L m tx =
     and_then (index_transaction L tx (unat MEMPOOL_HEIGHT) None) (\<lambda>rows. Inr (store_add_rows m rows))"

fun store_remove_rows :: "MempoolStore \<Rightarrow> Row list \<Rightarrow> MempoolStore result" where
  "store_remove_rows m [] = Inr m"
| "store_remove_rows m (row # rows) =
     (let (key, value) = into_pair row in
      and_then (expect ''missing key in mempool'' (map_of m key)) (\<lambda>values.
      and_then (if values = [] then Inl (Panic ''no values found for key'')
                else Inr (last values)) (\<lambda>last_value.
      and_then (require ''wrong value for key'' (value = last_value)) (\<lambda>_.
        store_remove_rows
          (if butlast values = [] then bt_remove key m else bt_insert key (butlast values) m) rows))))"

definition store_remove :: "libs \<Rightarrow> MempoolStore \<Rightarrow> Transaction \<Rightarrow> MempoolStore result" where
  "store_remove L m tx =
     and_then (index_transaction L tx (unat MEMPOOL_HEIGHT) None) (store_remove_rows m)"

definition mempool_get :: "MempoolStore \<Rightarrow> Bytes \<Rightarrow> Bytes option" where
  "mempool_get m key =
     (case map_of m key of
        None \<Rightarrow> None
      | Some values \<Rightarrow> if values = [] then None else Some (last values))"

fun mempool_scan_loop :: "Bytes \<Rightarrow> (Bytes \<times> Bytes list) list \<Rightarrow> Row list \<Rightarrow> Row list" where
  "mempool_scan_loop p [] rows = rows"
| "mempool_scan_loop p ((key, values) # it) rows =
     (if \<not> prefix p key then rows
      else mempool_scan_loop p it
        (if values = [] then rows else rows @ [\<lparr>row_key = key, row_value = last values\<rparr>]))"

definition mempool_scan :: "MempoolStore \<Rightarrow> Bytes \<Rightarrow> Row list" where
  "mempool_scan m p = mempool_scan_loop p (bt_range_from p m) []"

definition mempool_read :: "MempoolStore \<Rightarrow> ReadStore" where
  "mempool_read m = \<lparr>rs_get = mempool_get m, rs_scan = mempool_scan m\<rparr>"

section \<open>The tracker\<close>

datatype ConfirmationState = Indeterminate | Confirmed | InMempool | UnconfirmedParent

record 'f MempoolEntry =
  me_fee :: u64
  me_vsize :: u32
  me_fee_per_vbyte :: 'f

record 'f Item =
  it_tx :: Transaction
  it_entry :: "'f MempoolEntry"

text \<open>
  The \<^verbatim>\<open>f32\<close> operations: the quotient \<^verbatim>\<open>fee as f32 / vsize as f32\<close>, the test
  \<^verbatim>\<open>(a - b).abs() > error_margin\<close>, the constant 0, and \<^verbatim>\<open>partial_cmp\<close> as the sort uses it:
  whether it answers (it does not on a NaN).
\<close>

record 'f f32_ops =
  f_ratio :: "u64 \<Rightarrow> u32 \<Rightarrow> 'f"
  f_differs :: "'f \<Rightarrow> 'f \<Rightarrow> bool"
  f_zero :: 'f
  f_comparable :: "'f \<Rightarrow> 'f \<Rightarrow> bool"

definition mempool_entry_new :: "'f f32_ops \<Rightarrow> u64 \<Rightarrow> u32 \<Rightarrow> 'f MempoolEntry" where
  "mempool_entry_new F fee vsize =
     \<lparr>me_fee = fee, me_vsize = vsize, me_fee_per_vbyte = f_ratio F fee vsize\<rparr>"

record 'f Tracker =
  tk_items :: "(Txid \<times> 'f Item) list"
  tk_index :: MempoolStore
  tk_histogram :: "('f \<times> u32) list"

definition tracker_new :: "'f Tracker" where
  "tracker_new = \<lparr>tk_items = [], tk_index = mempool_store_new, tk_histogram = []\<rparr>"

definition get_txn :: "'f Tracker \<Rightarrow> Txid \<Rightarrow> Transaction option" where
  "get_txn t txid = map_option it_tx (map_of (tk_items t) txid)"

definition has_txn :: "'f Tracker \<Rightarrow> Txid \<Rightarrow> bool" where
  "has_txn t txid \<longleftrightarrow> map_of (tk_items t) txid \<noteq> None"

definition get_fee :: "'f Tracker \<Rightarrow> Txid \<Rightarrow> u64 option" where
  "get_fee t txid = map_option (\<lambda>i. me_fee (it_entry i)) (map_of (tk_items t) txid)"

definition tracker_contains :: "'f Tracker \<Rightarrow> Txid \<Rightarrow> bool" where
  "tracker_contains t txid \<longleftrightarrow> map_of (tk_items t) txid \<noteq> None"

definition tracker_index :: "'f Tracker \<Rightarrow> ReadStore" where
  "tracker_index t = mempool_read (tk_index t)"

definition tx_confirmation_state :: "'f Tracker \<Rightarrow> Txid \<Rightarrow> u32 option \<Rightarrow> ConfirmationState" where
  "tx_confirmation_state t txid height =
     (if (case height of Some h \<Rightarrow> h \<noteq> MEMPOOL_HEIGHT | None \<Rightarrow> False) then Confirmed
      else case get_txn t txid of
        Some tx \<Rightarrow>
          if list_ex (\<lambda>i. tracker_contains t (op_txid (previous_output i))) (tx_input tx)
          then UnconfirmedParent else InMempool
      | None \<Rightarrow> Indeterminate)"

definition tracker_add :: "libs \<Rightarrow> 'f Tracker \<Rightarrow> Txid \<Rightarrow> Transaction \<Rightarrow> 'f MempoolEntry \<Rightarrow> 'f Tracker result" where
  "tracker_add L t txid tx entry =
     and_then (store_add L (tk_index t) tx) (\<lambda>index.
     Inr (t\<lparr>tk_index := index, tk_items := AList.update txid \<lparr>it_tx = tx, it_entry = entry\<rparr> (tk_items t)\<rparr>))"

definition tracker_remove :: "libs \<Rightarrow> 'f Tracker \<Rightarrow> Txid \<Rightarrow> 'f Tracker result" where
  "tracker_remove L t txid =
     and_then (expect ''missing mempool tx'' (map_of (tk_items t) txid)) (\<lambda>stats.
     and_then (store_remove L (tk_index t) (it_tx stats)) (\<lambda>index.
     Inr (t\<lparr>tk_items := AList.delete txid (tk_items t), tk_index := index\<rparr>)))"

definition VSIZE_BIN_WIDTH :: u32 where
  "VSIZE_BIN_WIDTH = 100000"

fun electrum_fees_loop :: "'f f32_ops \<Rightarrow> 'f MempoolEntry list \<Rightarrow> ('f \<times> u32) list \<Rightarrow> u32 \<Rightarrow> 'f \<Rightarrow>
    ('f \<times> u32) list" where
  "electrum_fees_loop F [] histogram bin_size last_fee_rate =
     (if 0 < bin_size then histogram @ [(last_fee_rate, bin_size)] else histogram)"
| "electrum_fees_loop F (e # es) histogram bin_size last_fee_rate =
     (let fee_rate = me_fee_per_vbyte e in
      if VSIZE_BIN_WIDTH < bin_size \<and> f_differs F last_fee_rate fee_rate
      then electrum_fees_loop F es (histogram @ [(last_fee_rate, bin_size)]) (me_vsize e) fee_rate
      else electrum_fees_loop F es histogram (bin_size + me_vsize e) fee_rate)"

definition electrum_fees :: "'f f32_ops \<Rightarrow> 'f MempoolEntry list \<Rightarrow> ('f \<times> u32) list" where
  "electrum_fees F entries = electrum_fees_loop F (rev entries) [] 0 (f_zero F)"

text \<open>
  \<^verbatim>\<open>sort_unstable_by\<close> leaves the order of equal entries open and panics in the comparison when a fee
  rate is a NaN; the sort is the argument \<open>srt\<close>.
\<close>

definition update_fee_histogram :: "'f f32_ops \<Rightarrow> ('f MempoolEntry list \<Rightarrow> 'f MempoolEntry list) \<Rightarrow>
    'f Tracker \<Rightarrow> 'f Tracker result" where
  "update_fee_histogram F srt t =
     (let entries = map (\<lambda>(_, i). it_entry i) (tk_items t) in
      and_then (require ''partial_cmp'' (length entries \<le> 1 \<or>
        list_all (\<lambda>e. list_all (\<lambda>e'. f_comparable F (me_fee_per_vbyte e) (me_fee_per_vbyte e')) entries) entries)) (\<lambda>_.
      Inr (t\<lparr>tk_histogram := electrum_fees F (srt entries)\<rparr>)))"

text \<open>The daemon calls of the tracker and \<^verbatim>\<open>TxQuery::get_unconfirmed\<close>.\<close>

record 'f mempool_api =
  mp_getmempooltxids :: "Txid list result"
  mp_getmempoolentry :: "Txid \<Rightarrow> 'f MempoolEntry result"
  mp_get_unconfirmed :: "Txid \<Rightarrow> Transaction result"

text \<open>The loop over the new transactions; an entry or a transaction that is gone is skipped.\<close>

fun add_new_txs :: "libs \<Rightarrow> 'f mempool_api \<Rightarrow> Txid list \<Rightarrow> 'f Tracker \<Rightarrow> Txid list \<Rightarrow>
    ('f Tracker \<times> Txid list) result" where
  "add_new_txs L M [] t changed = Inr (t, changed)"
| "add_new_txs L M (txid # txids) t changed =
     (case mp_getmempoolentry M txid of
        Inl (Panic m) \<Rightarrow> Inl (Panic m)
      | Inl (Error k ks) \<Rightarrow> add_new_txs L M txids t changed
      | Inr entry \<Rightarrow>
     (case mp_get_unconfirmed M txid of
        Inl (Panic m) \<Rightarrow> Inl (Panic m)
      | Inl (Error k ks) \<Rightarrow> add_new_txs L M txids t changed
      | Inr tx \<Rightarrow>
          and_then (require ''assertion failed'' (lib_txid L tx = txid)) (\<lambda>_.
          and_then (tracker_add L t txid tx entry) (\<lambda>t'.
          add_new_txs L M txids t' (List.insert txid changed)))))"

fun remove_old_txs :: "libs \<Rightarrow> Txid list \<Rightarrow> 'f Tracker \<Rightarrow> Txid list \<Rightarrow> ('f Tracker \<times> Txid list) result" where
  "remove_old_txs L [] t changed = Inr (t, changed)"
| "remove_old_txs L (txid # txids) t changed =
     and_then (tracker_remove L t txid) (\<lambda>t'.
     remove_old_txs L txids t' (List.insert txid changed))"

definition tracker_update :: "libs \<Rightarrow> 'f f32_ops \<Rightarrow> ('f MempoolEntry list \<Rightarrow> 'f MempoolEntry list) \<Rightarrow>
    'f mempool_api \<Rightarrow> 'f Tracker \<Rightarrow> ('f Tracker \<times> Txid list) result" where
  "tracker_update L F srt M t =
     and_then (chain_err (Msg ''failed to update mempool from daemon'') (mp_getmempooltxids M)) (\<lambda>new_txids.
     let old_txids = map fst (tk_items t) in
     and_then (add_new_txs L M (filter (\<lambda>x. x \<notin> set old_txids) new_txids) t []) (\<lambda>(t1, changed1).
     and_then (remove_old_txs L (filter (\<lambda>x. x \<notin> set new_txids) old_txids) t1 changed1) (\<lambda>(t2, changed2).
     and_then (update_fee_histogram F srt t2) (\<lambda>t3.
     Inr (t3, changed2)))))"

section \<open>The store represents a multiset of rows\<close>

text \<open>The value of every row under a key is fixed by the key: a height for \<open>T\<close> rows, empty for others.\<close>

definition mp_value :: "libs \<Rightarrow> Bytes \<Rightarrow> Bytes" where
  "mp_value L k = (if k \<noteq> [] \<and> hd k = 0x54 then lib_ser_u32 L MEMPOOL_HEIGHT else [])"

fun bucket :: "libs \<Rightarrow> nat \<Rightarrow> Bytes \<Rightarrow> Bytes list option" where
  "bucket L 0 k = None"
| "bucket L (Suc n) k = Some (replicate (Suc n) (mp_value L k))"

definition mp_repr :: "libs \<Rightarrow> MempoolStore \<Rightarrow> Bytes multiset \<Rightarrow> bool" where
  "mp_repr L m M \<longleftrightarrow> bt_ok m \<and> (\<forall>k. map_of m k = bucket L (count M k) k)"

definition mp_rows :: "libs \<Rightarrow> Transaction \<Rightarrow> Row list" where
  "mp_rows L tx = txin_rows L tx @ txout_rows L tx @ [txrow_to_row L (txrow_new (lib_txid L tx) MEMPOOL_HEIGHT)]"

definition mp_keys :: "libs \<Rightarrow> Transaction \<Rightarrow> Bytes multiset" where
  "mp_keys L tx = mset (map row_key (mp_rows L tx))"

lemma index_transaction_mempool: "index_transaction L tx (unat MEMPOOL_HEIGHT) None = Inr (mp_rows L tx)"
  by (simp add: index_transaction_def mp_rows_def)

lemma mp_repr_unique: "mp_repr L m M \<Longrightarrow> mp_repr L m' M \<Longrightarrow> m = m'"
  unfolding mp_repr_def by (intro bt_eqI) (auto simp: fun_eq_iff)

lemma mp_repr_empty: "mp_repr L mempool_store_new {#}"
  by (simp add: mp_repr_def mempool_store_new_def bt_ok_def)

lemma store_add_rows_repr:
  assumes "mp_repr L m M" "\<forall>r\<in>set rows. row_value r = mp_value L (row_key r)"
  shows "mp_repr L (store_add_rows m rows) (M + mset (map row_key rows))"
  using assms
proof (induction rows arbitrary: m M)
  case (Cons r rows)
  let ?k = "row_key r" and ?n = "count M (row_key r)"
  let ?vs = "case map_of m ?k of None \<Rightarrow> [] | Some vs \<Rightarrow> vs"
  have "map_of m ?k = bucket L ?n ?k" using Cons.prems(1) by (simp add: mp_repr_def)
  then have "?vs @ [row_value r] = replicate (Suc ?n) (mp_value L ?k)"
    using Cons.prems(2) by (cases ?n) (simp_all add: replicate_append_same)
  then have "mp_repr L (bt_insert ?k (?vs @ [row_value r]) m) (add_mset ?k M)"
    using Cons.prems(1) by (simp add: mp_repr_def bt_ok_insert map_of_bt_insert)
  from Cons.IH [OF this] Cons.prems(2) show ?case
    by (simp add: into_pair_def)
qed simp

lemma store_remove_rows_repr:
  assumes "mp_repr L m (M + mset (map row_key rows))" "\<forall>r\<in>set rows. row_value r = mp_value L (row_key r)"
  shows "\<exists>m'. store_remove_rows m rows = Inr m' \<and> mp_repr L m' M"
  using assms
proof (induction rows arbitrary: m)
  case (Cons r rows)
  let ?k = "row_key r" and ?N = "M + mset (map row_key rows)"
  define n where "n = count ?N ?k"
  have get: "map_of m ?k = Some (replicate (Suc n) (mp_value L ?k))"
    using Cons.prems(1) by (simp add: mp_repr_def n_def)
  let ?vs = "replicate n (mp_value L ?k)"
  have bl: "butlast (replicate (Suc n) (mp_value L ?k)) = ?vs"
    by (simp only: replicate_append_same [symmetric] replicate_Suc butlast_snoc)
  let ?m = "if ?vs = [] then bt_remove ?k m else bt_insert ?k ?vs m"
  have "map_of ?m = (map_of m)(?k := bucket L n ?k)"
    using Cons.prems(1) by (cases n) (simp_all add: mp_repr_def map_of_bt_insert map_of_bt_remove)
  with Cons.prems(1) have "mp_repr L ?m ?N"
    by (simp add: mp_repr_def bt_ok_insert bt_ok_remove n_def)
  from Cons.IH [OF this] Cons.prems(2) obtain m' where "store_remove_rows ?m rows = Inr m'" "mp_repr L m' M"
    by auto
  moreover have "store_remove_rows m (r # rows) = store_remove_rows ?m rows"
    using get bl Cons.prems(2) by (simp add: into_pair_def del: replicate_Suc)
  ultimately show ?case by simp
qed simp

context codec_laws
begin

lemma mp_rows_value: "r \<in> set (mp_rows L tx) \<Longrightarrow> row_value r = mp_value L (row_key r)"
  by (auto simp: mp_rows_def mp_value_def txin_rows_def txout_rows_def row_defs ser_u8)

lemma store_add_repr:
  "mp_repr L m M \<Longrightarrow> \<exists>m'. store_add L m tx = Inr m' \<and> mp_repr L m' (M + mp_keys L tx)"
  using store_add_rows_repr [of L m M "mp_rows L tx"] mp_rows_value
  by (simp add: store_add_def index_transaction_mempool mp_keys_def)

lemma store_remove_repr:
  "mp_repr L m (M + mp_keys L tx) \<Longrightarrow> \<exists>m'. store_remove L m tx = Inr m' \<and> mp_repr L m' M"
  using store_remove_rows_repr [of L m M "mp_rows L tx"] mp_rows_value
  by (simp add: store_remove_def index_transaction_mempool mp_keys_def)

end

section \<open>The store as a ReadStore\<close>

definition mempool_invar :: "MempoolStore \<Rightarrow> bool" where
  "mempool_invar m \<longleftrightarrow> bt_ok m \<and> (\<forall>k. map_of m k \<noteq> Some [])"

definition mempool_contents :: "MempoolStore \<Rightarrow> Bytes \<Rightarrow> Bytes option" where
  "mempool_contents m k = map_option last (map_of m k)"

lemma mempool_scan_loop_eq:
  "mempool_scan_loop p it rows = rows @
     map (\<lambda>(k, vs). \<lparr>row_key = k, row_value = last vs\<rparr>)
       (filter (\<lambda>kv. snd kv \<noteq> []) (takeWhile (\<lambda>kv. prefix p (fst kv)) it))"
  by (induction p it rows rule: mempool_scan_loop.induct) auto

lemma mempool_scan_eq:
  assumes "mempool_invar m"
  shows "mempool_scan m p = map (\<lambda>(k, vs). \<lparr>row_key = k, row_value = last vs\<rparr>)
    (filter (\<lambda>kv. prefix p (fst kv)) (bt_range_from p m))"
proof -
  have ok: "bt_ok m" using assms by (simp add: mempool_invar_def)
  have "takeWhile (\<lambda>kv. prefix p (fst kv)) (bt_range_from p m) =
      filter (\<lambda>kv. prefix p (fst kv)) (bt_range_from p m)"
    using sorted_bt_range_from [OF ok, of p] set_bt_range_from [OF ok, of p]
    by (intro takeWhile_prefix_sorted) (auto simp: bt_ok_def)
  moreover have "filter (\<lambda>kv. snd kv \<noteq> []) (filter (\<lambda>kv. prefix p (fst kv)) (bt_range_from p m)) =
      filter (\<lambda>kv. prefix p (fst kv)) (bt_range_from p m)"
    unfolding filter_id_conv
  proof
    fix kv assume "kv \<in> set (filter (\<lambda>kv. prefix p (fst kv)) (bt_range_from p m))"
    then have "map_of m (fst kv) = Some (snd kv)"
      using ok by (auto simp: set_bt_range_from)
    then show "snd kv \<noteq> []" using assms unfolding mempool_invar_def by metis
  qed
  ultimately show ?thesis by (simp add: mempool_scan_def mempool_scan_loop_eq)
qed

interpretation mps: read_store mempool_read mempool_invar mempool_contents
proof (unfold_locales, goal_cases)
  case (1 m k)
  then show ?case unfolding mempool_invar_def
    by (auto simp: mempool_read_def mempool_get_def mempool_contents_def split: option.splits)
next
  case (2 m p)
  then have ok: "bt_ok m" by (simp add: mempool_invar_def)
  from 2 show ?case
    by (auto simp: mempool_read_def mempool_scan_eq set_bt_range_from [OF ok] into_pair_def image_iff
        mempool_contents_def prefix_le)
next
  case (3 m p)
  then have "sorted_wrt (<) (map fst (bt_range_from p m))"
    using sorted_bt_range_from [of m p] by (simp add: mempool_invar_def bt_ok_def)
  then show ?case
    using 3 sorted_wrt_filter_map [of "(<)" fst]
    by (simp add: mempool_read_def mempool_scan_eq comp_def case_prod_beta)
qed

lemma mp_repr_invar: "mp_repr L m M \<Longrightarrow> mempool_invar m"
proof -
  have "bucket L n k \<noteq> Some []" for n k by (cases n) auto
  then show "mp_repr L m M \<Longrightarrow> mempool_invar m"
    by (simp add: mempool_invar_def mp_repr_def)
qed

lemma mp_repr_contents:
  assumes "mp_repr L m M"
  shows "mempool_contents m k = (if k \<in># M then Some (mp_value L k) else None)"
proof -
  have "map_option last (bucket L n k) = (if 0 < n then Some (mp_value L k) else None)" for n
    by (cases n) auto
  with assms show ?thesis by (simp add: mempool_contents_def mp_repr_def)
qed

section \<open>The tracker invariant\<close>

definition tracked :: "libs \<Rightarrow> (Txid \<times> 'f Item) list \<Rightarrow> Bytes multiset" where
  "tracked L items = (\<Sum>p\<leftarrow>items. mp_keys L (it_tx (snd p)))"

definition tracker_ok :: "libs \<Rightarrow> 'f Tracker \<Rightarrow> bool" where
  "tracker_ok L t \<longleftrightarrow> distinct (map fst (tk_items t)) \<and>
     (\<forall>p\<in>set (tk_items t). lib_txid L (it_tx (snd p)) = fst p) \<and>
     mp_repr L (tk_index t) (tracked L (tk_items t))"

text \<open>What the tracker relies on: no call panics and a transaction has the id it was asked for by.\<close>

definition api_ok :: "libs \<Rightarrow> 'f mempool_api \<Rightarrow> bool" where
  "api_ok L M \<longleftrightarrow> (\<forall>x. \<not> is_panic (mp_getmempoolentry M x) \<and> \<not> is_panic (mp_get_unconfirmed M x) \<and>
     (\<forall>tx. mp_get_unconfirmed M x = Inr tx \<longrightarrow> lib_txid L tx = x))"

definition fetchable :: "'f mempool_api \<Rightarrow> Txid \<Rightarrow> bool" where
  "fetchable M x \<longleftrightarrow> is_ok (mp_getmempoolentry M x) \<and> is_ok (mp_get_unconfirmed M x)"

abbreviation txids :: "'f Tracker \<Rightarrow> Txid set" where
  "txids t \<equiv> fst ` set (tk_items t)"

lemma update_notin: "k \<notin> fst ` set al \<Longrightarrow> AList.update k v al = al @ [(k, v)]"
  by (induction al) auto

lemma tracked_delete:
  "distinct (map fst items) \<Longrightarrow> map_of items txid = Some it \<Longrightarrow>
    tracked L items = tracked L (AList.delete txid items) + mp_keys L (it_tx it)"
proof (induction items)
  case (Cons p items)
  show ?case
  proof (cases "fst p = txid")
    case True
    with Cons.prems(1) have "txid \<notin> fst ` set items" by simp
    then have "AList.delete txid items = items"
      unfolding AList.delete_eq filter_id_conv by (auto simp: image_iff)
    with True Cons.prems(2) show ?thesis by (simp add: tracked_def AList.delete_eq case_prod_beta)
  next
    case False
    with Cons show ?thesis by (simp add: tracked_def AList.delete_eq case_prod_beta)
  qed
qed simp

context codec_laws
begin

lemma tracker_add_ok:
  assumes "tracker_ok L t" "txid \<notin> txids t" "lib_txid L tx = txid"
  shows "\<exists>t'. tracker_add L t txid tx e = Inr t' \<and> tracker_ok L t' \<and> txids t' = insert txid (txids t)"
proof -
  let ?it = "\<lparr>it_tx = tx, it_entry = e\<rparr>"
  from assms(1) have "mp_repr L (tk_index t) (tracked L (tk_items t))" by (simp add: tracker_ok_def)
  from store_add_repr [OF this, of tx] obtain m where m: "store_add L (tk_index t) tx = Inr m"
    "mp_repr L m (tracked L (tk_items t) + mp_keys L tx)" by blast
  then have "mp_repr L m (tracked L (tk_items t @ [(txid, ?it)]))" by (simp add: tracked_def)
  with assms m(1) show ?thesis
    by (auto simp: tracker_add_def update_notin tracker_ok_def)
qed

lemma tracker_remove_ok:
  assumes "tracker_ok L t" "txid \<in> txids t"
  shows "\<exists>t'. tracker_remove L t txid = Inr t' \<and> tracker_ok L t' \<and> txids t' = txids t - {txid}"
proof -
  from assms obtain it where it: "map_of (tk_items t) txid = Some it"
    by (metis map_of_eq_None_iff option.exhaust)
  from assms(1) tracked_delete [OF _ it, of L] have
    "mp_repr L (tk_index t) (tracked L (AList.delete txid (tk_items t)) + mp_keys L (it_tx it))"
    by (simp add: tracker_ok_def)
  from store_remove_repr [OF this] obtain m where m: "store_remove L (tk_index t) (it_tx it) = Inr m"
    "mp_repr L m (tracked L (AList.delete txid (tk_items t)))" by blast
  have "distinct (map fst (AList.delete txid (tk_items t)))"
    using assms(1) by (simp add: tracker_ok_def AList.distinct_delete)
  moreover have "\<forall>p\<in>set (AList.delete txid (tk_items t)). lib_txid L (it_tx (snd p)) = fst p"
    using assms(1) by (auto simp: tracker_ok_def AList.delete_eq)
  moreover have "fst ` set (AList.delete txid (tk_items t)) = txids t - {txid}"
    by (auto simp: AList.delete_eq)
  ultimately show ?thesis using it m by (simp add: tracker_remove_def tracker_ok_def)
qed

lemma add_new_txs_ok:
  assumes "tracker_ok L t" "api_ok L M" "distinct xs" "set xs \<inter> txids t = {}"
  shows "\<exists>t' ch'. add_new_txs L M xs t ch = Inr (t', ch') \<and> tracker_ok L t' \<and>
    txids t' = txids t \<union> {x \<in> set xs. fetchable M x} \<and> set ch' = set ch \<union> {x \<in> set xs. fetchable M x}"
  using assms
proof (induction xs arbitrary: t ch)
  case (Cons x xs)
  show ?case
  proof (cases "fetchable M x")
    case True
    then obtain e tx where x: "mp_getmempoolentry M x = Inr e" "mp_get_unconfirmed M x = Inr tx"
      by (auto simp: fetchable_def is_ok_def split: sum.splits)
    with Cons.prems(2) have id: "lib_txid L tx = x" by (simp add: api_ok_def)
    from Cons.prems(4) have "x \<notin> txids t" by auto
    from tracker_add_ok [OF Cons.prems(1) this id] obtain t1 where t1: "tracker_add L t x tx e = Inr t1"
      "tracker_ok L t1" "txids t1 = insert x (txids t)" by blast
    have "set xs \<inter> txids t1 = {}" using Cons.prems(3,4) t1(3) by auto
    from Cons.IH [OF t1(2) Cons.prems(2) _ this, of "List.insert x ch"] Cons.prems(3)
    show ?thesis using x id t1 True by auto
  next
    case False
    have "\<not> is_panic (mp_getmempoolentry M x)" "\<not> is_panic (mp_get_unconfirmed M x)"
      using Cons.prems(2) by (simp_all add: api_ok_def)
    with False have "add_new_txs L M (x # xs) t ch = add_new_txs L M xs t ch"
      by (auto simp: fetchable_def is_ok_def is_panic_def split: sum.splits error.splits)
    with Cons.IH [OF Cons.prems(1,2), of ch] Cons.prems(3,4) False show ?thesis by auto
  qed
qed simp

lemma remove_old_txs_ok:
  assumes "tracker_ok L t" "distinct xs" "set xs \<subseteq> txids t"
  shows "\<exists>t' ch'. remove_old_txs L xs t ch = Inr (t', ch') \<and> tracker_ok L t' \<and>
    txids t' = txids t - set xs \<and> set ch' = set ch \<union> set xs"
  using assms
proof (induction xs arbitrary: t ch)
  case (Cons x xs)
  from Cons.prems(3) have "x \<in> txids t" by auto
  from tracker_remove_ok [OF Cons.prems(1) this] obtain t1 where t1: "tracker_remove L t x = Inr t1"
    "tracker_ok L t1" "txids t1 = txids t - {x}" by blast
  have "set xs \<subseteq> txids t1" using Cons.prems(2,3) t1(3) by auto
  from Cons.IH [OF t1(2) _ this, of "List.insert x ch"] Cons.prems(2) show ?case
    using t1 by auto
qed simp

lemma tracker_update_ok:
  assumes "tracker_ok L t" "api_ok L M" "mp_getmempooltxids M = Inr new" "distinct new"
    and "\<forall>a b. f_comparable F a b"
  shows "\<exists>t' changed. tracker_update L F srt M t = Inr (t', changed) \<and> tracker_ok L t' \<and>
    txids t' = (txids t \<inter> set new) \<union> {x \<in> set new - txids t. fetchable M x} \<and>
    set changed = (txids t - set new) \<union> {x \<in> set new - txids t. fetchable M x} \<and>
    tk_histogram t' = electrum_fees F (srt (map (\<lambda>(_, i). it_entry i) (tk_items t')))"
proof -
  let ?old = "map fst (tk_items t)"
  have old: "distinct ?old" using assms(1) by (simp add: tracker_ok_def)
  let ?a = "filter (\<lambda>x. x \<notin> set ?old) new" and ?r = "filter (\<lambda>x. x \<notin> set new) ?old"
  obtain t1 ch1 where t1: "add_new_txs L M ?a t [] = Inr (t1, ch1)" "tracker_ok L t1"
    "txids t1 = txids t \<union> {x \<in> set ?a. fetchable M x}" "set ch1 = {x \<in> set ?a. fetchable M x}"
  proof -
    have "distinct ?a" "set ?a \<inter> txids t = {}" using assms(4) by auto
    from add_new_txs_ok [OF assms(1,2) this, of "[]"] that show thesis by auto
  qed
  have "set ?r \<subseteq> txids t1" using t1(3) by auto
  from remove_old_txs_ok [OF t1(2) _ this, of ch1] old obtain t2 ch2 where
    t2: "remove_old_txs L ?r t1 ch1 = Inr (t2, ch2)" "tracker_ok L t2" "txids t2 = txids t1 - set ?r"
    "set ch2 = set ch1 \<union> set ?r" by auto
  let ?t = "t2\<lparr>tk_histogram := electrum_fees F (srt (map (\<lambda>(_, i). it_entry i) (tk_items t2)))\<rparr>"
  have "tracker_update L F srt M t = Inr (?t, ch2)"
    using t1(1) t2(1) assms(3,5)
    by (simp add: tracker_update_def update_fee_histogram_def list_all_iff)
  moreover have "tracker_ok L ?t" using t2(2) by (simp add: tracker_ok_def)
  ultimately show ?thesis using t1(3,4) t2(3,4) by auto
qed

lemma tracker_index_rows:
  assumes "tracker_ok L t"
  shows "r \<in> set (rs_scan (tracker_index t) p) \<longleftrightarrow>
    prefix p (row_key r) \<and> (\<exists>txid it. map_of (tk_items t) txid = Some it \<and> r \<in> set (mp_rows L (it_tx it)))"
proof -
  have rep: "mp_repr L (tk_index t) (tracked L (tk_items t))" and d: "distinct (map fst (tk_items t))"
    using assms by (simp_all add: tracker_ok_def)
  have "row_key r \<in># tracked L items \<longleftrightarrow> (\<exists>p\<in>set items. row_key r \<in># mp_keys L (it_tx (snd p)))" for items :: "(Txid \<times> 'a Item) list"
    by (induction items) (auto simp: tracked_def)
  then have key: "row_key r \<in># tracked L (tk_items t) \<longleftrightarrow>
      (\<exists>txid it. map_of (tk_items t) txid = Some it \<and> row_key r \<in> row_key ` set (mp_rows L (it_tx it)))"
    using d by (force simp: mp_keys_def)
  have row: "r \<in> set (mp_rows L tx)" if "row_value r = mp_value L (row_key r)" "row_key r \<in> row_key ` set (mp_rows L tx)" for tx
  proof -
    from that(2) obtain q where q: "q \<in> set (mp_rows L tx)" "row_key q = row_key r" by auto
    with that(1) mp_rows_value [OF q(1)] have "q = r" by (simp add: Row.equality)
    with q show ?thesis by simp
  qed
  have "(row_key r \<in># tracked L (tk_items t) \<and> row_value r = mp_value L (row_key r)) \<longleftrightarrow>
      (\<exists>txid it. map_of (tk_items t) txid = Some it \<and> r \<in> set (mp_rows L (it_tx it)))"
    unfolding key using row mp_rows_value by blast
  then show ?thesis
    unfolding tracker_index_def mps.scan_mem [OF mp_repr_invar [OF rep]] mp_repr_contents [OF rep]
    by (auto split: if_splits)
qed

end

section \<open>The fee histogram\<close>

lemma electrum_fees_loop_sum:
  "sum_list (map snd (electrum_fees_loop F es h b f)) = sum_list (map snd h) + b + sum_list (map me_vsize es)"
proof (induction F es h b f rule: electrum_fees_loop.induct)
  case (1 F h b f)
  then show ?case by (auto simp: word_greater_zero_iff)
next
  case (2 F e es h b f)
  then show ?case by (auto simp: Let_def add_ac)
qed

lemma electrum_fees_loop_bins:
  "\<forall>p\<in>set h. VSIZE_BIN_WIDTH < snd p \<Longrightarrow>
   \<forall>p\<in>set (butlast (electrum_fees_loop F es h b f)). VSIZE_BIN_WIDTH < snd p"
proof (induction F es h b f rule: electrum_fees_loop.induct)
  case (1 F h b f)
  then show ?case by (auto dest: in_set_butlastD)
next
  case (2 F e es h b f)
  then show ?case by (auto simp: Let_def)
qed

section \<open>Sequences of store operations\<close>

fun store_all :: "(MempoolStore \<Rightarrow> Transaction \<Rightarrow> MempoolStore result) \<Rightarrow> MempoolStore \<Rightarrow>
    Transaction list \<Rightarrow> MempoolStore result" where
  "store_all f m [] = Inr m"
| "store_all f m (tx # txs) = and_then (f m tx) (\<lambda>m'. store_all f m' txs)"

context codec_laws
begin

lemma store_all_add:
  "mp_repr L m M \<Longrightarrow> \<exists>m'. store_all (store_add L) m txs = Inr m' \<and> mp_repr L m' (M + (\<Sum>tx\<leftarrow>txs. mp_keys L tx))"
proof (induction txs arbitrary: m M)
  case (Cons tx txs)
  from store_add_repr [OF Cons.prems, of tx] obtain m1 where m1: "store_add L m tx = Inr m1"
    "mp_repr L m1 (M + mp_keys L tx)" by blast
  from Cons.IH [OF m1(2)] m1(1) show ?case by (simp add: add.assoc)
qed simp

lemma store_all_remove:
  "mp_repr L m (M + (\<Sum>tx\<leftarrow>txs. mp_keys L tx)) \<Longrightarrow> \<exists>m'. store_all (store_remove L) m txs = Inr m' \<and> mp_repr L m' M"
proof (induction txs arbitrary: m)
  case (Cons tx txs)
  then have "mp_repr L m ((M + (\<Sum>tx\<leftarrow>txs. mp_keys L tx)) + mp_keys L tx)" by (simp add: add_ac)
  from store_remove_repr [OF this] obtain m1 where m1: "store_remove L m tx = Inr m1"
    "mp_repr L m1 (M + (\<Sum>tx\<leftarrow>txs. mp_keys L tx))" by blast
  from Cons.IH [OF m1(2)] m1(1) show ?case by simp
qed simp

lemma store_add_remove_any_order:
  assumes "mp_repr L m M" "mset out = mset txs"
  shows "\<exists>m'. store_all (store_add L) m txs = Inr m' \<and> store_all (store_remove L) m' out = Inr m"
proof -
  have eq: "(\<Sum>tx\<leftarrow>txs. mp_keys L tx) = (\<Sum>tx\<leftarrow>out. mp_keys L tx)"
    using assms(2) by (metis mset_map sum_mset_sum_list)
  from store_all_add [OF assms(1), of txs] obtain m' where m': "store_all (store_add L) m txs = Inr m'"
    "mp_repr L m' (M + (\<Sum>tx\<leftarrow>out. mp_keys L tx))" unfolding eq by blast
  from store_all_remove [OF m'(2)] obtain m2 where "store_all (store_remove L) m' out = Inr m2" "mp_repr L m2 M"
    by blast
  with mp_repr_unique [OF _ assms(1)] m'(1) show ?thesis by metis
qed

end

section \<open>Properties\<close>

definition demo_tx :: "u32 \<Rightarrow> Transaction" where
  "demo_tx n = \<lparr>tx_version = 1, tx_lock_time = n, tx_input = [],
     tx_output = [\<lparr>out_value = 5, script_pubkey = [0x51]\<rparr>]\<rparr>"

definition demo_f32 :: "nat f32_ops" where
  "demo_f32 = \<lparr>f_ratio = (\<lambda>a b. unat a div unat b), f_differs = (\<noteq>), f_zero = 0, f_comparable = (\<lambda>_ _. True)\<rparr>"

definition demo_api :: "nat mempool_api" where
  "demo_api = \<lparr>
     mp_getmempooltxids = Inr [lib_txid std_libs (demo_tx 1)],
     mp_getmempoolentry = (\<lambda>_. Inr (mempool_entry_new demo_f32 10 5)),
     mp_get_unconfirmed = (\<lambda>x. if x = lib_txid std_libs (demo_tx 1) then Inr (demo_tx 1) else bail ''missing'')\<rparr>"

lemma tracker_new_ok: "tracker_ok L tracker_new"
  by (simp add: tracker_ok_def tracker_new_def tracked_def mp_repr_empty)



text \<open>C12: A scan of the mempool index returns a row exactly when it is a row of a tracked transaction under the prefix.\<close>

theorem mempool_index_exact:
  assumes "codec_laws L" "tracker_ok L t"
  shows "r \<in> set (rs_scan (tracker_index t) p) \<longleftrightarrow>
    prefix p (row_key r) \<and> (\<exists>txid it. map_of (tk_items t) txid = Some it \<and> r \<in> set (mp_rows L (it_tx it)))"
  by (rule codec_laws.tracker_index_rows [OF assms])

theorem mempool_index_exact_witness:
  "\<exists>t'. tracker_add std_libs tracker_new (lib_txid std_libs (demo_tx 1)) (demo_tx 1)
      (mempool_entry_new demo_f32 10 5) = Inr t' \<and>
    txrow_to_row std_libs (txrow_new (lib_txid std_libs (demo_tx 1)) MEMPOOL_HEIGHT) \<in>
      set (rs_scan (tracker_index t') [])"
proof -
  let ?id = "lib_txid std_libs (demo_tx 1)" and ?e = "mempool_entry_new demo_f32 10 5"
  obtain t' where t': "tracker_add std_libs tracker_new ?id (demo_tx 1) ?e = Inr t'" "tracker_ok std_libs t'"
    using std.tracker_add_ok [OF tracker_new_ok, of ?id "demo_tx 1" ?e] by (auto simp: tracker_new_def)
  then have "map_of (tk_items t') ?id = Some \<lparr>it_tx = demo_tx 1, it_entry = ?e\<rparr>"
    by (auto simp: tracker_add_def result_simps tracker_new_def)
  moreover have "txrow_to_row std_libs (txrow_new ?id MEMPOOL_HEIGHT) \<in> set (mp_rows std_libs (demo_tx 1))"
    by (simp add: mp_rows_def)
  ultimately have "txrow_to_row std_libs (txrow_new ?id MEMPOOL_HEIGHT) \<in> set (rs_scan (tracker_index t') [])"
    unfolding mempool_index_exact [OF std.codec_laws_axioms t'(2)]
    by (intro conjI exI [of _ ?id] exI [of _ "\<lparr>it_tx = demo_tx 1, it_entry = ?e\<rparr>"]) simp_all
  with t'(1) show ?thesis by blast
qed

text \<open>Transactions added to the mempool store can be removed in any order: no removal panics, whatever
  rows the transactions share, and the store is then exactly what it was before.\<close>

lemma mempool_remove_any_order:
  assumes "codec_laws L" "mp_repr L m M" "mset out = mset txs"
  shows "\<exists>m'. store_all (store_add L) m txs = Inr m' \<and> store_all (store_remove L) m' out = Inr m"
  by (rule codec_laws.store_add_remove_any_order [OF assms])

text \<open>C17: The fee histogram loses no transaction: its bins add up to the virtual size of all entries (modulo
  \<open>2 ^ 32\<close>, as the counter wraps), and every bin but the last is wider than the bin width.\<close>

theorem fee_histogram_conserves:
  "sum_list (map snd (electrum_fees F entries)) = sum_list (map me_vsize entries) \<and>
   list_all (\<lambda>(rate, size). VSIZE_BIN_WIDTH < size) (butlast (electrum_fees F entries))"
proof
  show "sum_list (map snd (electrum_fees F entries)) = sum_list (map me_vsize entries)"
    by (simp add: electrum_fees_def electrum_fees_loop_sum rev_map [symmetric] sum_list_rev)
  show "list_all (\<lambda>(rate, size). VSIZE_BIN_WIDTH < size) (butlast (electrum_fees F entries))"
    using electrum_fees_loop_bins [of "[]" F "rev entries" 0 "f_zero F"]
    by (auto simp: electrum_fees_def list_all_iff)
qed

text \<open>The confirmation state of a transaction: confirmed exactly when a height other than the mempool
  marker is given; otherwise unconfirmed-parent exactly when it is tracked and spends a tracked
  transaction, in-mempool when it is tracked and spends none, indeterminate when it is not tracked.\<close>

lemma confirmation_state_cases:
  "(tx_confirmation_state t txid height = Confirmed \<longleftrightarrow> (\<exists>h. height = Some h \<and> h \<noteq> MEMPOOL_HEIGHT)) \<and>
   (tx_confirmation_state t txid height = UnconfirmedParent \<longleftrightarrow> height \<in> {None, Some MEMPOOL_HEIGHT} \<and>
      (\<exists>tx i. get_txn t txid = Some tx \<and> i \<in> set (tx_input tx) \<and> has_txn t (op_txid (previous_output i)))) \<and>
   (tx_confirmation_state t txid height = Indeterminate \<longleftrightarrow> height \<in> {None, Some MEMPOOL_HEIGHT} \<and>
      \<not> has_txn t txid)"
proof -
  have tc: "tracker_contains t = has_txn t" by (simp add: fun_eq_iff tracker_contains_def has_txn_def)
  have gt: "has_txn t txid \<longleftrightarrow> get_txn t txid \<noteq> None" by (simp add: has_txn_def get_txn_def)
  show ?thesis
    unfolding tx_confirmation_state_def list_ex_iff tc gt
    by (cases "get_txn t txid"; cases height) (auto split: if_splits)
qed

end
