(* ===== verification/RndCache.thy ===== *)
theory RndCache
  imports Codec "HOL-Library.AList"
begin

text \<open>
  The byte-bounded cache with random eviction (\<^verbatim>\<open>src/src/rndcache.rs\<close>) and the two caches built on it
  (\<^verbatim>\<open>src/src/cache.rs\<close>).  The \<^verbatim>\<open>indexmap\<close> crate and the random generator are parameters; the
  locale \<open>index_map\<close> states what the crate documents.  The eviction loop is a partial function, so
  that not returning would be the value \<open>None\<close>.  The Prometheus counters are not modelled.
\<close>

section \<open>The crates\<close>

text \<open>\<^verbatim>\<open>IndexMap\<close>: its entries in index order, and the four operations the cache uses.\<close>

record ('k, 'v, 'm) indexmap =
  im_new :: 'm
  im_get :: "'m \<Rightarrow> 'k \<Rightarrow> 'v option"
  im_insert :: "'m \<Rightarrow> 'k \<Rightarrow> 'v \<Rightarrow> 'v option \<times> 'm"
  im_len :: "'m \<Rightarrow> nat"
  im_swap_remove_index :: "'m \<Rightarrow> nat \<Rightarrow> (('k \<times> 'v) \<times> 'm) option"

section \<open>RndCache\<close>

record ('m, 'r) RndCache =
  rc_map :: 'm
  rc_bytes_capacity :: u64
  rc_bytes_used :: u64
  rc_rng :: 'r
  rc_entry_overhead :: u32

text \<open>\<open>size_of::<usize>() + 2 * size_of::<u32>()\<close> on a 64-bit target.\<close>

definition rndcache_new :: "('k, 'v, 'm) indexmap \<Rightarrow> 'r \<Rightarrow> u64 \<Rightarrow> ('m, 'r) RndCache" where
  "rndcache_new I seeded bytes_capacity = \<lparr>
     rc_map = im_new I, rc_bytes_capacity = bytes_capacity, rc_bytes_used = 0,
     rc_rng = seeded, rc_entry_overhead = 8 + 4 + 4\<rparr>"

definition dec_bytes_used :: "('m, 'r) RndCache \<Rightarrow> u32 \<Rightarrow> ('m, 'r) RndCache" where
  "dec_bytes_used c entry_size =
     c\<lparr>rc_bytes_used := rc_bytes_used c - ucast (entry_size + rc_entry_overhead c)\<rparr>"

definition inc_bytes_used :: "('m, 'r) RndCache \<Rightarrow> u32 \<Rightarrow> ('m, 'r) RndCache" where
  "inc_bytes_used c entry_size =
     c\<lparr>rc_bytes_used := rc_bytes_used c + ucast (entry_size + rc_entry_overhead c)\<rparr>"

definition override_entry_overhead :: "('k, 'v, 'm) indexmap \<Rightarrow> ('m, 'r) RndCache \<Rightarrow> u32 \<Rightarrow> ('m, 'r) RndCache result" where
  "override_entry_overhead I c sz =
     and_then (require ''map.is_empty()'' (im_len I (rc_map c) = 0)) (\<lambda>_.
     Inr (c\<lparr>rc_entry_overhead := sz\<rparr>))"

definition fits_in_cache :: "('m, 'r) RndCache \<Rightarrow> u32 \<Rightarrow> bool" where
  "fits_in_cache c bytes \<longleftrightarrow> rc_bytes_used c + ucast bytes \<le> rc_bytes_capacity c"

text \<open>\<^verbatim>\<open>gen_range(0, n)\<close> panics on an empty range.\<close>

definition evict_random :: "('k, u32 \<times> 'v, 'm) indexmap \<Rightarrow> ('r \<Rightarrow> nat \<Rightarrow> nat \<times> 'r) \<Rightarrow>
    ('m, 'r) RndCache \<Rightarrow> ('m, 'r) RndCache result" where
  "evict_random I gen_range c =
     (if im_len I (rc_map c) = 0 then Inl (Panic ''gen_range: low >= high'')
      else let (index, rng) = gen_range (rc_rng c) (im_len I (rc_map c)) in
        and_then (expect ''unwrap'' (im_swap_remove_index I (rc_map c) index)) (\<lambda>((_, (sz, _)), m).
        Inr (dec_bytes_used (c\<lparr>rc_map := m, rc_rng := rng\<rparr>) sz)))"

partial_function (option) make_room :: "('k, u32 \<times> 'v, 'm) indexmap \<Rightarrow> ('r \<Rightarrow> nat \<Rightarrow> nat \<times> 'r) \<Rightarrow>
    u32 \<Rightarrow> ('m, 'r) RndCache \<Rightarrow> ('m, 'r) RndCache result option" where
  "make_room I gen_range sz c =
     (if fits_in_cache c sz then Some (Inr c)
      else case evict_random I gen_range c of
        Inl e \<Rightarrow> Some (Inl e)
      | Inr c' \<Rightarrow> make_room I gen_range sz c')"

declare make_room.simps [code]

definition rnd_put :: "('k, u32 \<times> 'v, 'm) indexmap \<Rightarrow> ('r \<Rightarrow> nat \<Rightarrow> nat \<times> 'r) \<Rightarrow> ('m, 'r) RndCache \<Rightarrow>
    'k \<Rightarrow> 'v \<Rightarrow> u64 \<Rightarrow> ('m, 'r) RndCache result option" where
  "rnd_put I gen_range c k v size64 =
     (if rc_bytes_capacity c < size64 then Some (Inr c)
      else if 0xFFFFFFFF < size64 + ucast (rc_entry_overhead c) then Some (Inr c)
      else let sz = ucast size64 :: u32 in
        case make_room I gen_range sz c of
          None \<Rightarrow> None
        | Some (Inl e) \<Rightarrow> Some (Inl e)
        | Some (Inr c1) \<Rightarrow>
            let (old, m) = im_insert I (rc_map c1) k (sz, v);
                c2 = c1\<lparr>rc_map := m\<rparr>;
                c3 = (case old of Some (old_size, _) \<Rightarrow> dec_bytes_used c2 old_size | None \<Rightarrow> c2)
            in Some (Inr (inc_bytes_used c3 sz)))"

definition rnd_get :: "('k, u32 \<times> 'v, 'm) indexmap \<Rightarrow> ('m, 'r) RndCache \<Rightarrow> 'k \<Rightarrow> 'v option" where
  "rnd_get I c k = map_option snd (im_get I (rc_map c) k)"

definition rnd_usage :: "('m, 'r) RndCache \<Rightarrow> u64" where
  "rnd_usage c = rc_bytes_used c"

definition rnd_capacity :: "('m, 'r) RndCache \<Rightarrow> u64" where
  "rnd_capacity c = rc_bytes_capacity c"

section \<open>The caches of the server\<close>

text \<open>
  \<^verbatim>\<open>BlockTxIDsCache::get_or_else\<close> (the size given to the cache is the capacity of the shrunk vector,
  which is its number of transaction ids) and the transaction cache, which keeps serialised
  transactions.
\<close>

definition get_or_else :: "(BlockHash, u32 \<times> Txid list, 'm) indexmap \<Rightarrow> ('r \<Rightarrow> nat \<Rightarrow> nat \<times> 'r) \<Rightarrow>
    ('m, 'r) RndCache \<Rightarrow> BlockHash \<Rightarrow> Txid list result \<Rightarrow> (('m, 'r) RndCache \<times> Txid list) result option" where
  "get_or_else I gen_range c blockhash load_txids =
     (case rnd_get I c blockhash of
        Some txids \<Rightarrow> Some (Inr (c, txids))
      | None \<Rightarrow>
          (case load_txids of
             Inl e \<Rightarrow> Some (Inl e)
           | Inr txids \<Rightarrow>
               map_option (\<lambda>r. and_then r (\<lambda>c'. Inr (c', txids)))
                 (rnd_put I gen_range c blockhash txids (of_nat (length txids)))))"

definition txcache_get :: "(Bytes \<Rightarrow> Transaction option) \<Rightarrow> (Txid, u32 \<times> Bytes, 'm) indexmap \<Rightarrow>
    ('m, 'r) RndCache \<Rightarrow> Txid \<Rightarrow> Transaction option" where
  "txcache_get deserialize I c txid =
     (case rnd_get I c txid of Some serialized \<Rightarrow> deserialize serialized | None \<Rightarrow> None)"

definition txcache_put :: "(Txid, u32 \<times> Bytes, 'm) indexmap \<Rightarrow> ('r \<Rightarrow> nat \<Rightarrow> nat \<times> 'r) \<Rightarrow>
    ('m, 'r) RndCache \<Rightarrow> Txid \<Rightarrow> Bytes \<Rightarrow> ('m, 'r) RndCache result option" where
  "txcache_put I gen_range c txid serialized_tx =
     rnd_put I gen_range c txid serialized_tx (of_nat (length serialized_tx))"

section \<open>Laws\<close>

text \<open>
  What the crates document: \<open>insert\<close> replaces in place or appends, \<open>swap_remove_index\<close> removes the
  entry at the index (the order of the others may change), and the generator answers in range.
\<close>

text \<open>The cost of an entry and the invariant of the cache: the byte counter is the cost of the entries.\<close>

definition cost :: "u32 \<Rightarrow> 'k \<times> (u32 \<times> 'v) \<Rightarrow> nat" where
  "cost overhead e = unat (fst (snd e)) + unat overhead"

definition cache_ok :: "('m \<Rightarrow> ('k \<times> (u32 \<times> 'v)) list) \<Rightarrow> ('m \<Rightarrow> bool) \<Rightarrow> ('m, 'r) RndCache \<Rightarrow> bool" where
  "cache_ok entries mok c \<longleftrightarrow> mok (rc_map c) \<and>
     unat (rc_bytes_used c) = (\<Sum>e\<in>#mset (entries (rc_map c)). cost (rc_entry_overhead c) e) \<and>
     (\<forall>e\<in>#mset (entries (rc_map c)). cost (rc_entry_overhead c) e < 4294967296) \<and>
     unat (rc_bytes_used c) \<le> unat (rc_bytes_capacity c) + unat (rc_entry_overhead c) \<and>
     unat (rc_bytes_capacity c) + 8589934592 \<le> 18446744073709551616"

lemma unat_cost:
  "cost overhead e < 4294967296 \<Longrightarrow> unat (ucast (fst (snd e) + overhead) :: u64) = cost overhead e"
  by (simp add: cost_def unat_ucast_u32_u64 unat_add_u32)

lemma fits_in_cache_iff:
  assumes "cache_ok entries mok c"
  shows "fits_in_cache c sz \<longleftrightarrow> unat (rc_bytes_used c) + unat sz \<le> unat (rc_bytes_capacity c)"
proof -
  have "unat (rc_bytes_used c) + unat (ucast sz :: u64) < 18446744073709551616"
    using assms unat_u32_less [of sz] unat_u32_less [of "rc_entry_overhead c"]
    by (simp add: cache_ok_def unat_ucast_u32_u64)
  then show ?thesis
    by (simp add: fits_in_cache_def word_le_nat_alt unat_add_u64 unat_ucast_u32_u64)
qed

locale index_map =
  fixes I :: "('k, u32 \<times> 'v, 'm) indexmap"
    and gen_range :: "'r \<Rightarrow> nat \<Rightarrow> nat \<times> 'r"
    and entries :: "'m \<Rightarrow> ('k \<times> (u32 \<times> 'v)) list"
    and mok :: "'m \<Rightarrow> bool"
  assumes new_ok: "mok (im_new I)" "entries (im_new I) = []"
    and distinct: "mok m \<Longrightarrow> distinct (map fst (entries m))"
    and get: "mok m \<Longrightarrow> im_get I m k = map_of (entries m) k"
    and len: "mok m \<Longrightarrow> im_len I m = length (entries m)"
    and insert: "mok m \<Longrightarrow> im_insert I m k v = (old, m') \<Longrightarrow>
      mok m' \<and> old = map_of (entries m) k \<and> entries m' = AList.update k v (entries m)"
    and swap_remove: "mok m \<Longrightarrow> i < length (entries m) \<Longrightarrow>
      \<exists>m'. im_swap_remove_index I m i = Some (entries m ! i, m') \<and> mok m' \<and>
        mset (entries m') = mset (entries m) - {#entries m ! i#}"
    and gen: "0 < n \<Longrightarrow> fst (gen_range r n) < n"

begin

lemma evict_ok:
  assumes ok: "cache_ok entries mok c" and ne: "entries (rc_map c) \<noteq> []"
  shows "\<exists>c' e. evict_random I gen_range c = Inr c' \<and> cache_ok entries mok c' \<and>
    e \<in># mset (entries (rc_map c)) \<and> mset (entries (rc_map c')) = mset (entries (rc_map c)) - {#e#} \<and>
    rc_bytes_capacity c' = rc_bytes_capacity c \<and> rc_entry_overhead c' = rc_entry_overhead c"
proof -
  let ?es = "entries (rc_map c)" and ?o = "rc_entry_overhead c"
  obtain i rng where g: "gen_range (rc_rng c) (length ?es) = (i, rng)" by fastforce
  with gen [of "length ?es" "rc_rng c"] ne have i: "i < length ?es" by simp
  from ok have mok: "mok (rc_map c)" by (simp add: cache_ok_def)
  from swap_remove [OF mok i] obtain m where m: "im_swap_remove_index I (rc_map c) i = Some (?es ! i, m)"
    "mok m" "mset (entries m) = mset ?es - {#?es ! i#}" by blast
  have e: "?es ! i \<in># mset ?es" using i by simp
  let ?c = "dec_bytes_used (c\<lparr>rc_map := m, rc_rng := rng\<rparr>) (fst (snd (?es ! i)))"
  have run: "evict_random I gen_range c = Inr ?c"
    using ne g m(1) by (simp add: evict_random_def len [OF mok] case_prod_beta)
  have "mset ?es = add_mset (?es ! i) (mset (entries m))" using e m(3) by simp
  then have sum: "unat (rc_bytes_used c) = cost ?o (?es ! i) + (\<Sum>e\<in>#mset (entries m). cost ?o e)"
    using ok by (simp add: cache_ok_def del: mset_map)
  have small: "cost ?o (?es ! i) < 4294967296" using ok e by (simp add: cache_ok_def)
  have "unat (rc_bytes_used ?c) = (\<Sum>e\<in>#mset (entries m). cost ?o e)"
    using sum unat_sub [of "ucast (fst (snd (?es ! i)) + ?o)" "rc_bytes_used c"]
    by (simp add: dec_bytes_used_def unat_cost [OF small] word_le_nat_alt)
  then have "cache_ok entries mok ?c"
    using ok m(2,3) sum by (auto simp: cache_ok_def dec_bytes_used_def dest: in_diffD)
  moreover have "mset (entries (rc_map ?c)) = mset ?es - {#?es ! i#}" using m(3) by (simp add: dec_bytes_used_def)
  moreover have "rc_bytes_capacity ?c = rc_bytes_capacity c" "rc_entry_overhead ?c = ?o"
    by (simp_all add: dec_bytes_used_def)
  ultimately show ?thesis using run e by blast
qed

lemma make_room_ok:
  assumes "cache_ok entries mok c" "unat sz \<le> unat (rc_bytes_capacity c)"
  shows "\<exists>c'. make_room I gen_range sz c = Some (Inr c') \<and> cache_ok entries mok c' \<and> fits_in_cache c' sz \<and>
    mset (entries (rc_map c')) \<subseteq># mset (entries (rc_map c)) \<and>
    rc_bytes_capacity c' = rc_bytes_capacity c \<and> rc_entry_overhead c' = rc_entry_overhead c"
  using assms
proof (induction "length (entries (rc_map c))" arbitrary: c rule: less_induct)
  case less
  show ?case
  proof (cases "fits_in_cache c sz")
    case True
    then have "make_room I gen_range sz c = Some (Inr c)" by (subst make_room.simps) simp
    with less.prems(1) True show ?thesis by (intro exI [of _ c]) simp
  next
    case False
    then have "unat (rc_bytes_capacity c) < unat (rc_bytes_used c) + unat sz"
      by (simp add: fits_in_cache_iff [OF less.prems(1)])
    with less.prems have "entries (rc_map c) \<noteq> []"
      by (auto simp: cache_ok_def)
    from evict_ok [OF less.prems(1) this] obtain c1 e where c1: "evict_random I gen_range c = Inr c1"
      "cache_ok entries mok c1" "e \<in># mset (entries (rc_map c))"
      "mset (entries (rc_map c1)) = mset (entries (rc_map c)) - {#e#}"
      "rc_bytes_capacity c1 = rc_bytes_capacity c" "rc_entry_overhead c1 = rc_entry_overhead c" by blast
    have "size (mset (entries (rc_map c1))) < size (mset (entries (rc_map c)))"
      unfolding c1(4) by (rule size_Diff1_less [OF c1(3)])
    then have "length (entries (rc_map c1)) < length (entries (rc_map c))" by simp
    moreover have "unat sz \<le> unat (rc_bytes_capacity c1)" using c1(5) less.prems(2) by simp
    ultimately obtain c2 where
      c2: "make_room I gen_range sz c1 = Some (Inr c2)" "cache_ok entries mok c2" "fits_in_cache c2 sz"
      "mset (entries (rc_map c2)) \<subseteq># mset (entries (rc_map c1))"
      "rc_bytes_capacity c2 = rc_bytes_capacity c1" "rc_entry_overhead c2 = rc_entry_overhead c1"
      using less.hyps [OF _ c1(2)] by blast
    have "mset (entries (rc_map c2)) \<subseteq># mset (entries (rc_map c))"
      by (rule subset_mset.order_trans [OF c2(4)]) (simp add: c1(4))
    moreover have "make_room I gen_range sz c = Some (Inr c2)"
      using False c1(1) c2(1) by (subst make_room.simps) simp
    ultimately show ?thesis using c1(5,6) c2 by (intro exI [of _ c2]) simp
  qed
qed

lemma update_cost:
  assumes "distinct (map fst es)" "map_of es k = Some w"
  shows "mset (AList.update k v es) = add_mset (k, v) (mset es - {#(k, w)#}) \<and> (k, w) \<in># mset es"
  using assms
proof (induction es)
  case (Cons e es)
  show ?case
  proof (cases "fst e = k")
    case False
    with Cons have "mset (AList.update k v es) = add_mset (k, v) (mset es - {#(k, w)#})" "(k, w) \<in># mset es"
      by auto
    with False show ?thesis by (cases e) (auto simp: multiset_eq_iff)
  qed (use Cons in \<open>cases e; auto\<close>)
qed simp

lemma update_cost_new: "k \<notin> fst ` set es \<Longrightarrow> mset (AList.update k v es) = add_mset (k, v) (mset es)"
  by (induction es) auto

lemma insert_ok:
  assumes ok: "cache_ok entries mok c" and fit: "fits_in_cache c sz"
    and small: "unat sz + unat (rc_entry_overhead c) < 4294967296"
    and ins: "im_insert I (rc_map c) k (sz, v) = (old, m)"
  shows "cache_ok entries mok (inc_bytes_used
    (case old of Some (old_size, _) \<Rightarrow> dec_bytes_used (c\<lparr>rc_map := m\<rparr>) old_size | None \<Rightarrow> c\<lparr>rc_map := m\<rparr>) sz)"
proof -
  let ?es = "entries (rc_map c)" and ?o = "rc_entry_overhead c"
  from ok have mok: "mok (rc_map c)" by (simp add: cache_ok_def)
  from insert [OF mok ins] have m: "mok m" "old = map_of ?es k" "entries m = AList.update k (sz, v) ?es" by auto
  have new: "cost ?o (k, (sz, v)) = unat sz + unat ?o" by (simp add: cost_def)
  have newu: "unat (ucast (sz + ?o) :: u64) = unat sz + unat ?o"
    using unat_cost [of ?o "(k, (sz, v))"] small by (simp add: new)
  have used: "unat (rc_bytes_used c) + unat sz \<le> unat (rc_bytes_capacity c)"
    using fit by (simp add: fits_in_cache_iff [OF ok])
  have cap: "unat (rc_bytes_capacity c) + 8589934592 \<le> 18446744073709551616"
    using ok by (simp add: cache_ok_def)
  show ?thesis
  proof (cases "map_of ?es k")
    case None
    then have ms: "mset (entries m) = add_mset (k, (sz, v)) (mset ?es)"
      unfolding m(3) by (intro update_cost_new) (simp add: map_of_eq_None_iff)
    have "unat (rc_bytes_used c + ucast (sz + ?o)) = unat (rc_bytes_used c) + (unat sz + unat ?o)"
      using used cap small by (subst unat_add_u64) (simp_all add: newu)
    then show ?thesis
      using ok ms used small m None by (simp add: cache_ok_def inc_bytes_used_def new del: mset_map set_mset_mset)
  next
    case (Some w)
    with update_cost [OF distinct [OF mok]] have ms: "mset (entries m) = add_mset (k, (sz, v)) (mset ?es - {#(k, w)#})"
      and kw: "(k, w) \<in># mset ?es" unfolding m(3) by auto
    let ?N = "mset ?es - {#(k, w)#}"
    have sp: "mset ?es = add_mset (k, w) ?N" using kw by simp
    from ok have usum: "unat (rc_bytes_used c) = cost ?o (k, w) + (\<Sum>e\<in>#?N. cost ?o e)"
      and all: "\<forall>e\<in>#mset ?es. cost ?o e < 4294967296"
      unfolding cache_ok_def by (subst (asm) sp, simp del: mset_map set_mset_mset)+
    have wu: "unat (ucast (fst w + ?o) :: u64) = cost ?o (k, w)"
      using unat_cost [of ?o "(k, w)"] all kw by simp
    let ?u = "rc_bytes_used c - ucast (fst w + ?o)"
    have u: "unat ?u = (\<Sum>e\<in>#?N. cost ?o e)"
      using usum unat_sub [of "ucast (fst w + ?o)" "rc_bytes_used c"] by (simp add: wu word_le_nat_alt)
    have "unat (?u + ucast (sz + ?o)) = unat ?u + (unat sz + unat ?o)"
      using used cap small u usum by (subst unat_add_u64) (simp_all add: newu)
    moreover have "\<forall>e\<in>#mset (entries m). cost ?o e < 4294967296"
      unfolding ms using all small new by (auto dest: in_diffD simp del: set_mset_mset)
    ultimately show ?thesis
      using ok ms used u usum m Some
      by (cases w) (simp add: cache_ok_def inc_bytes_used_def dec_bytes_used_def new del: mset_map set_mset_mset)
  qed
qed

lemma put_ok:
  assumes ok: "cache_ok entries mok c"
  shows "\<exists>c'. rnd_put I gen_range c k v n = Some (Inr c') \<and> cache_ok entries mok c' \<and>
    rc_bytes_capacity c' = rc_bytes_capacity c \<and> rc_entry_overhead c' = rc_entry_overhead c \<and>
    (\<forall>k' w. rnd_get I c' k' = Some w \<longrightarrow> k' = k \<and> w = v \<or> rnd_get I c k' = Some w) \<and>
    (n \<le> rc_bytes_capacity c \<and> unat n + unat (rc_entry_overhead c) < 4294967296 \<longrightarrow> rnd_get I c' k = Some v)"
proof (cases "n \<le> rc_bytes_capacity c \<and> n + ucast (rc_entry_overhead c) \<le> 0xFFFFFFFF")
  case False
  have "n + ucast (rc_entry_overhead c) \<le> 0xFFFFFFFF" if "unat n + unat (rc_entry_overhead c) < 4294967296"
    using that by (simp add: word_le_nat_alt unat_add_u64 unat_ucast_u32_u64)
  with False ok show ?thesis by (auto simp: rnd_put_def not_le)
next
  case True
  have cap: "unat (rc_bytes_capacity c) + 8589934592 \<le> 18446744073709551616" using ok by (simp add: cache_ok_def)
  have "unat n + unat (ucast (rc_entry_overhead c) :: u64) < 18446744073709551616"
    using True cap unat_u32_less [of "rc_entry_overhead c"] by (simp add: word_le_nat_alt unat_ucast_u32_u64)
  with True have small: "unat n + unat (rc_entry_overhead c) < 4294967296"
    by (simp add: word_le_nat_alt unat_add_u64 unat_ucast_u32_u64)
  let ?sz = "ucast n :: u32"
  have sz: "unat ?sz = unat n" using small by (intro unat_ucast_u64_u32) simp
  have "unat ?sz \<le> unat (rc_bytes_capacity c)" using True by (simp add: sz word_le_nat_alt)
  from make_room_ok [OF ok this] obtain c1 where c1: "make_room I gen_range ?sz c = Some (Inr c1)"
    "cache_ok entries mok c1" "fits_in_cache c1 ?sz" "mset (entries (rc_map c1)) \<subseteq># mset (entries (rc_map c))"
    "rc_bytes_capacity c1 = rc_bytes_capacity c" "rc_entry_overhead c1 = rc_entry_overhead c" by blast
  obtain old m where ins: "im_insert I (rc_map c1) k (?sz, v) = (old, m)" by fastforce
  let ?c3 = "case old of Some (old_size, _) \<Rightarrow> dec_bytes_used (c1\<lparr>rc_map := m\<rparr>) old_size | None \<Rightarrow> c1\<lparr>rc_map := m\<rparr>"
  let ?c' = "inc_bytes_used ?c3 ?sz"
  have run: "rnd_put I gen_range c k v n = Some (Inr ?c')"
    using True c1(1) ins by (simp add: rnd_put_def Let_def leD)
  have flds: "rc_map ?c' = m" "rc_bytes_capacity ?c' = rc_bytes_capacity c" "rc_entry_overhead ?c' = rc_entry_overhead c"
    using c1(5,6) by (auto simp: inc_bytes_used_def dec_bytes_used_def split: option.split)
  have mok: "mok (rc_map c)" "mok (rc_map c1)" using ok c1(2) by (simp_all add: cache_ok_def)
  from insert [OF mok(2) ins] have m: "mok m" "entries m = AList.update k (?sz, v) (entries (rc_map c1))" by auto
  have sub: "rnd_get I c k' = Some w" if get1: "rnd_get I c1 k' = Some w" for k' w
  proof -
    from get1 obtain z where z: "map_of (entries (rc_map c1)) k' = Some (z, w)"
      by (auto simp: rnd_get_def get [OF mok(2)])
    have "(k', (z, w)) \<in> set (entries (rc_map c))"
      using map_of_SomeD [OF z] mset_subset_eqD [OF c1(4)] by simp
    with distinct [OF mok(1)] show ?thesis by (simp add: rnd_get_def get [OF mok(1)])
  qed
  have get': "rnd_get I ?c' k' = (if k' = k then Some v else rnd_get I c1 k')" for k'
    by (simp add: rnd_get_def flds get [OF m(1)] get [OF mok(2)] m(2) update_conv')
  have "cache_ok entries mok ?c'"
    using small sz c1(6) by (intro insert_ok [OF c1(2,3) _ ins]) simp
  moreover have "\<forall>k' w. rnd_get I ?c' k' = Some w \<longrightarrow> k' = k \<and> w = v \<or> rnd_get I c k' = Some w"
    unfolding get' using sub by (auto split: if_splits)
  moreover have "rnd_get I ?c' k = Some v" unfolding get' by simp
  ultimately show ?thesis using run flds(2,3) by (intro exI [of _ ?c'] conjI impI)
qed

end

section \<open>The contract a memoising client relies on\<close>

locale bounded_cache =
  fixes lookup :: "'c \<Rightarrow> 'k \<Rightarrow> 'v option"
    and store :: "'c \<Rightarrow> 'k \<Rightarrow> 'v \<Rightarrow> u64 \<Rightarrow> 'c result option"
    and inv :: "'c \<Rightarrow> bool"
  assumes store_returns: "inv c \<Longrightarrow> \<exists>c'. store c k v n = Some (Inr c') \<and> inv c'"
    and lookup_store: "inv c \<Longrightarrow> store c k v n = Some (Inr c') \<Longrightarrow> lookup c' k' = Some w \<Longrightarrow>
      k' = k \<and> w = v \<or> lookup c k' = Some w"
begin

text \<open>A cache that only holds values of \<open>f\<close> keeps doing so when a value of \<open>f\<close> is stored.\<close>

lemma store_coherent:
  assumes "inv c" "\<forall>k' w. lookup c k' = Some w \<longrightarrow> f k' = Inr w" "f k = Inr v"
  shows "\<exists>c'. store c k v n = Some (Inr c') \<and> inv c' \<and> (\<forall>k' w. lookup c' k' = Some w \<longrightarrow> f k' = Inr w)"
proof -
  from store_returns [OF assms(1)] obtain c' where c': "store c k v n = Some (Inr c')" "inv c'" by blast
  moreover have "f k' = Inr w" if "lookup c' k' = Some w" for k' w
    using lookup_store [OF assms(1) c'(1) that] assms(2,3) by blast
  ultimately show ?thesis by blast
qed

end

sublocale index_map \<subseteq> rc: bounded_cache "rnd_get I" "rnd_put I gen_range" "cache_ok entries mok"
proof (unfold_locales, goal_cases)
  case (1 c k v n)
  then show ?case using put_ok [OF 1, of k v n] by blast
next
  case (2 c k v n c' k' w)
  from put_ok [OF 2(1), of k v n] obtain d where d: "rnd_put I gen_range c k v n = Some (Inr d)"
    "\<forall>k' w. rnd_get I d k' = Some w \<longrightarrow> k' = k \<and> w = v \<or> rnd_get I c k' = Some w" by blast
  with 2(2) have "d = c'" by simp
  with d(2) 2(3) show ?case by blast
qed

context index_map
begin

lemmas rc_bounded_cache = rc.bounded_cache_axioms

end

text \<open>The cache holds only transaction ids that the daemon would answer for the block.\<close>

definition coherent :: "(BlockHash, u32 \<times> Txid list, 'm) indexmap \<Rightarrow> (BlockHash \<Rightarrow> Txid list result) \<Rightarrow>
    ('m, 'r) RndCache \<Rightarrow> bool" where
  "coherent I load c \<longleftrightarrow> (\<forall>bh txids. rnd_get I c bh = Some txids \<longrightarrow> load bh = Inr txids)"

lemma get_or_else_ok:
  assumes "index_map I gen_range entries mok" "cache_ok entries mok c" "coherent I load c"
  shows "(\<exists>e. load bh = Inl e \<and> get_or_else I gen_range c bh (load bh) = Some (Inl e)) \<or>
    (\<exists>c' txids. load bh = Inr txids \<and> get_or_else I gen_range c bh (load bh) = Some (Inr (c', txids)) \<and>
       cache_ok entries mok c' \<and> coherent I load c')"
proof (cases "rnd_get I c bh")
  case (Some txids)
  with assms(3) have "load bh = Inr txids" by (simp add: coherent_def)
  with Some assms show ?thesis by (simp add: get_or_else_def)
next
  case None
  show ?thesis
  proof (cases "load bh")
    case (Inl e)
    with None show ?thesis by (simp add: get_or_else_def)
  next
    case (Inr txids)
    from bounded_cache.store_coherent [OF index_map.rc_bounded_cache [OF assms(1)] assms(2), of load bh txids
        "of_nat (length txids)"] assms(3) Inr
    obtain c' where "rnd_put I gen_range c bh txids (of_nat (length txids)) = Some (Inr c')"
      "cache_ok entries mok c'" "coherent I load c'" by (auto simp: coherent_def)
    with None Inr show ?thesis by (simp add: get_or_else_def)
  qed
qed

section \<open>The reference index map\<close>

definition list_im :: "('k, 'v, ('k \<times> 'v) list) indexmap" where
  "list_im = \<lparr>im_new = [], im_get = map_of, im_insert = (\<lambda>m k v. (map_of m k, AList.update k v m)),
     im_len = length,
     im_swap_remove_index = (\<lambda>m i. if i < length m then Some (m ! i, butlast (m[i := last m])) else None)\<rparr>"

definition mod_range :: "nat \<Rightarrow> nat \<Rightarrow> nat \<times> nat" where
  "mod_range r n = (r mod n, r + 1)"

lemma distinct_submset: "mset xs \<subseteq># mset ys \<Longrightarrow> distinct ys \<Longrightarrow> distinct xs"
  unfolding distinct_count_atmost_1 by (metis count_eq_zero_iff count_greater_eq_one_iff dual_order.antisym
      mset_subset_eq_count mset_subset_eqD set_mset_mset)

lemma mset_swap_remove:
  assumes "i < length m"
  shows "mset (butlast (m[i := last m])) = mset m - {#m ! i#}"
proof -
  let ?u = "m[i := last m]"
  have ne: "?u \<noteq> []" "m \<noteq> []" using assms by auto
  have "last ?u = last m" using ne(2) by (simp add: last_list_update)
  then have "mset ?u = add_mset (last m) (mset (butlast ?u))"
    by (metis append_butlast_last_id mset.simps(2) mset_append ne(1) union_mset_add_mset_right add.right_neutral mset.simps(1))
  moreover have "mset ?u = add_mset (last m) (mset m - {#m ! i#})" by (rule mset_update [OF assms])
  ultimately show ?thesis by simp
qed

interpretation refim: index_map "list_im :: ('k, u32 \<times> 'v, ('k \<times> (u32 \<times> 'v)) list) indexmap" mod_range
  "\<lambda>m. m" "\<lambda>m. distinct (map fst m)"
proof (unfold_locales, goal_cases)
  case (6 m k v old m')
  then show ?case by (auto simp: list_im_def distinct_update)
next
  case (7 m i)
  have "mset (map fst (butlast (m[i := last m]))) \<subseteq># mset (map fst m)"
    unfolding mset_map mset_swap_remove [OF 7(2)] by (intro image_mset_subseteq_mono) simp
  with 7 have "distinct (map fst (butlast (m[i := last m])))" by (metis distinct_submset)
  with 7 show ?case by (simp add: list_im_def mset_swap_remove)
qed (auto simp: list_im_def mod_range_def)

section \<open>Properties\<close>

text \<open>C40: Storing into the cache always returns and never panics: the eviction loop ends with room for the entry
  (the random index is always in range because an empty cache has room), the byte counter stays the
  cost of the entries without wrapping and is bounded by the capacity plus the overhead of one entry,
  no key gets a value that was not stored under it, and an entry that is small enough is found.\<close>

theorem cache_put_total:
  assumes "index_map I gen_range entries mok" "cache_ok entries mok c"
  shows "\<exists>c'. rnd_put I gen_range c k v n = Some (Inr c') \<and> cache_ok entries mok c' \<and>
    unat (rnd_usage c') \<le> unat (rnd_capacity c) + unat (rc_entry_overhead c) \<and>
    (\<forall>k' w. rnd_get I c' k' = Some w \<longrightarrow> k' = k \<and> w = v \<or> rnd_get I c k' = Some w) \<and>
    (n \<le> rnd_capacity c \<and> unat n + unat (rc_entry_overhead c) < 4294967296 \<longrightarrow> rnd_get I c' k = Some v)"
proof -
  from index_map.put_ok [OF assms, of k v n] obtain c' where c': "rnd_put I gen_range c k v n = Some (Inr c')"
    "cache_ok entries mok c'" "rc_bytes_capacity c' = rc_bytes_capacity c" "rc_entry_overhead c' = rc_entry_overhead c"
    "\<forall>k' w. rnd_get I c' k' = Some w \<longrightarrow> k' = k \<and> w = v \<or> rnd_get I c k' = Some w"
    "n \<le> rc_bytes_capacity c \<and> unat n + unat (rc_entry_overhead c) < 4294967296 \<longrightarrow> rnd_get I c' k = Some v"
    by blast
  moreover have "unat (rnd_usage c') \<le> unat (rnd_capacity c) + unat (rc_entry_overhead c)"
    using c'(2-4) by (simp add: cache_ok_def rnd_usage_def rnd_capacity_def)
  ultimately show ?thesis unfolding rnd_capacity_def by (intro exI [of _ c'] conjI)
qed

definition demo_cache :: "((Bytes \<times> (u32 \<times> nat)) list, nat) RndCache" where
  "demo_cache = rndcache_new list_im 0 50"

lemma demo_cache_ok: "cache_ok (\<lambda>m. m) (\<lambda>m. distinct (map fst m)) demo_cache"
  by (simp add: cache_ok_def demo_cache_def rndcache_new_def list_im_def)

theorem cache_put_total_witness:
  "\<exists>c'. rnd_put list_im mod_range demo_cache [1] 7 20 = Some (Inr c') \<and> rnd_get list_im c' [1] = Some 7"
  using cache_put_total [OF refim.index_map_axioms demo_cache_ok, of "[1]" 7 20]
  by (auto simp: rnd_capacity_def demo_cache_def rndcache_new_def)

text \<open>The block cache is transparent: as long as it only holds answers of the loader, asking it gives the
  loader's answer (an error included, with nothing cached) and keeps that invariant.\<close>

lemma block_cache_transparent:
  assumes "index_map I gen_range entries mok" "cache_ok entries mok c" "coherent I load c"
  shows "(\<exists>e. load bh = Inl e \<and> get_or_else I gen_range c bh (load bh) = Some (Inl e)) \<or>
    (\<exists>c' txids. load bh = Inr txids \<and> get_or_else I gen_range c bh (load bh) = Some (Inr (c', txids)) \<and>
       cache_ok entries mok c' \<and> coherent I load c')"
  by (rule get_or_else_ok [OF assms])

text \<open>The room made for an entry does not count its overhead, so the capacity can be exceeded.\<close>

lemma usage_exceeds_capacity:
  "\<exists>c'. rnd_put list_im mod_range demo_cache [1] 7 50 = Some (Inr c') \<and> rnd_capacity c' < rnd_usage c'"
proof -
  have "make_room list_im mod_range 50 demo_cache = Some (Inr demo_cache)"
    by (subst make_room.simps) (simp add: fits_in_cache_def demo_cache_def rndcache_new_def)
  then show ?thesis
    by (simp add: rnd_put_def demo_cache_def rndcache_new_def list_im_def inc_bytes_used_def
        rnd_capacity_def rnd_usage_def)
qed

end
