(* ===== verification/DosLimit.thy ===== *)
theory DosLimit
  imports Prelude
begin

text \<open>
  Connection limits (\<^verbatim>\<open>src/src/doslimit.rs\<close>) and the call timeout (\<^verbatim>\<open>src/src/timeout.rs\<close>).
  Connections of clients are opened and closed in any order; the step relation \<open>conn_step\<close> is one
  accepted, rejected or closed connection, with the multiset of open connections as a ghost.
\<close>

section \<open>Global limits\<close>

text \<open>The \<^verbatim>\<open>{}\<close> format of a signed integer and the \<^verbatim>\<open>{:?}\<close> format of a byte array.\<close>

definition show_int :: "int \<Rightarrow> string" where
  "show_int i = (if i < 0 then ''-'' @ show_nat (nat (- i)) else show_nat (nat i))"

fun show_items :: "Bytes \<Rightarrow> string" where
  "show_items [] = []"
| "show_items [b] = show_nat (unat b)"
| "show_items (b # bs) = show_nat (unat b) @ '', '' @ show_items bs"

definition show_bytes :: "Bytes \<Rightarrow> string" where
  "show_bytes bs = ''['' @ show_items bs @ '']''"

datatype IpAddr = V4 (octets: Bytes) | V6 (octets: Bytes)

record GlobalLimits =
  gl_max_connections_total :: i32
  gl_max_connections_shared_prefix :: u32
  gl_total_connections :: i32
  gl_total_prefixed_connections :: "Bytes \<rightharpoonup> u32"

definition get_prefix :: "IpAddr \<Rightarrow> Bytes" where
  "get_prefix addr = take 2 (octets addr)"

text \<open>\<open>max_connections_total as i32\<close> keeps the bits.\<close>

definition global_limits_new :: "u32 \<Rightarrow> u32 \<Rightarrow> GlobalLimits" where
  "global_limits_new max_connections_total max_connections_shared_prefix = \<lparr>
     gl_max_connections_total = max_connections_total,
     gl_max_connections_shared_prefix = max_connections_shared_prefix,
     gl_total_connections = 0,
     gl_total_prefixed_connections = Map.empty\<rparr>"

definition inc_connection :: "GlobalLimits \<Rightarrow> IpAddr \<Rightarrow> GlobalLimits \<times> (u32 \<times> u32) result" where
  "inc_connection g addr =
     (let p = get_prefix addr;
          prefix_count = (case gl_total_prefixed_connections g p of Some n \<Rightarrow> n | None \<Rightarrow> 0);
          g1 = g\<lparr>gl_total_prefixed_connections := (gl_total_prefixed_connections g)(p \<mapsto> prefix_count)\<rparr>
      in if gl_max_connections_shared_prefix g \<le> prefix_count
         then (g1, bail (''Maximum connection limit of '' @ show_nat (unat (gl_max_connections_shared_prefix g)) @
           '' reached for IP prefix '' @ show_bytes p @ ''.''))
         else if \<not> sint (gl_total_connections g) < sint (gl_max_connections_total g)
         then (g1, bail (''Maximum connection limit of '' @ show_int (sint (gl_max_connections_total g)) @ '' reached.''))
         else let c = gl_total_connections g + 1 in
           (g1\<lparr>gl_total_connections := c,
               gl_total_prefixed_connections := (gl_total_prefixed_connections g1)(p \<mapsto> prefix_count + 1)\<rparr>,
            Inr (c, prefix_count + 1)))"

definition dec_connection :: "GlobalLimits \<Rightarrow> IpAddr \<Rightarrow> GlobalLimits \<times> (u32 \<times> u32) result" where
  "dec_connection g addr =
     (let p = get_prefix addr;
          (g1, prefix_count) = (case gl_total_prefixed_connections g p of
             Some n \<Rightarrow> (g\<lparr>gl_total_prefixed_connections := (gl_total_prefixed_connections g)(p \<mapsto> n - 1)\<rparr>, n - 1)
           | None \<Rightarrow> (g, 0))
      in if sint (gl_total_connections g) \<le> 0
         then (g1, bail ''Cannot decrease connection counter. Already at zero.'')
         else let c = gl_total_connections g - 1
              in (g1\<lparr>gl_total_connections := c\<rparr>, Inr (c, prefix_count)))"

definition connection_limits :: "GlobalLimits \<Rightarrow> u32 \<times> u32" where
  "connection_limits g = (gl_max_connections_total g, gl_max_connections_shared_prefix g)"

section \<open>Limits of one connection\<close>

record ConnectionLimits =
  cl_rpc_timeout :: u16
  cl_max_subscriptions :: u32
  cl_max_alias_bytes :: u32

definition ConnectionLimits_new :: "u16 \<Rightarrow> u32 \<Rightarrow> u32 \<Rightarrow> ConnectionLimits" where
  "ConnectionLimits_new rpc_timeout max_subscriptions max_alias_bytes =
     \<lparr>cl_rpc_timeout = rpc_timeout, cl_max_subscriptions = max_subscriptions, cl_max_alias_bytes = max_alias_bytes\<rparr>"

definition rpc_invalid_request :: "string \<Rightarrow> ErrorKind" where
  "rpc_invalid_request what = RpcError InvalidRequest what"

definition rpc_invalid_params :: "string \<Rightarrow> ErrorKind" where
  "rpc_invalid_params what = RpcError InvalidParams what"

definition check_subscriptions :: "ConnectionLimits \<Rightarrow> u32 \<Rightarrow> unit result" where
  "check_subscriptions l num_subscriptions =
     (if num_subscriptions \<le> cl_max_subscriptions l then Inr ()
      else bail_kind (rpc_invalid_request (''Scripthash subscriptions limit reached (max '' @
        show_nat (unat (cl_max_subscriptions l)) @ '')'')))"

definition check_alias_usage :: "ConnectionLimits \<Rightarrow> nat \<Rightarrow> unit result" where
  "check_alias_usage l bytes_used =
     (if bytes_used \<le> unat (cl_max_alias_bytes l) then Inr ()
      else bail_kind (rpc_invalid_request (''Address/alias subscriptions limit reached (max '' @
        show_nat (unat (cl_max_alias_bytes l)) @
        '' bytes) Use scripthash subscriptions for more subscriptions or increase this limit.'')))"

section \<open>Timeouts\<close>

text \<open>Time is a number of time units on a monotone clock, read at the call.\<close>

record TimeoutTrigger =
  tt_start :: nat
  tt_timeout :: nat

definition timeout_new :: "nat \<Rightarrow> nat \<Rightarrow> TimeoutTrigger" where
  "timeout_new now timeout = \<lparr>tt_start = now, tt_timeout = timeout\<rparr>"

definition timeout_check :: "TimeoutTrigger \<Rightarrow> nat \<Rightarrow> unit result" where
  "timeout_check t now =
     (if tt_timeout t \<le> now - tt_start t then bail_kind (RpcError Timeout ''Timeout'') else Inr ())"

section \<open>Connections over time\<close>

inductive conn_step :: "GlobalLimits \<times> IpAddr multiset \<Rightarrow> GlobalLimits \<times> IpAddr multiset \<Rightarrow> bool" where
  accept: "inc_connection g addr = (g', Inr n) \<Longrightarrow> conn_step (g, C) (g', add_mset addr C)"
| reject: "inc_connection g addr = (g', Inl e) \<Longrightarrow> conn_step (g, C) (g', C)"
| close: "addr \<in># C \<Longrightarrow> dec_connection g addr = (g', r) \<Longrightarrow> conn_step (g, C) (g', C - {#addr#})"

inductive conn_reachable :: "u32 \<Rightarrow> u32 \<Rightarrow> GlobalLimits \<times> IpAddr multiset \<Rightarrow> bool" for t p where
  start: "conn_reachable t p (global_limits_new t p, {#})"
| step: "conn_reachable t p s \<Longrightarrow> conn_step s s' \<Longrightarrow> conn_reachable t p s'"

inductive_cases conn_stepE: "conn_step (g, C) s'"

text \<open>The counters are the numbers of open connections, in total and per prefix, within the limits.\<close>

definition prefix_conns :: "GlobalLimits \<Rightarrow> Bytes \<Rightarrow> u32" where
  "prefix_conns g q = (case gl_total_prefixed_connections g q of Some n \<Rightarrow> n | None \<Rightarrow> 0)"

definition conns_of :: "Bytes \<Rightarrow> IpAddr multiset \<Rightarrow> nat" where
  "conns_of q C = size (filter_mset (\<lambda>a. get_prefix a = q) C)"

definition conn_inv :: "u32 \<Rightarrow> u32 \<Rightarrow> GlobalLimits \<times> IpAddr multiset \<Rightarrow> bool" where
  "conn_inv t p s \<longleftrightarrow>
     gl_max_connections_total (fst s) = t \<and> gl_max_connections_shared_prefix (fst s) = p \<and>
     sint (gl_total_connections (fst s)) = int (size (snd s)) \<and>
     (snd s = {#} \<or> int (size (snd s)) \<le> sint t) \<and>
     (\<forall>q. unat (prefix_conns (fst s) q) = conns_of q (snd s) \<and> conns_of q (snd s) \<le> unat p)"

lemma prefix_conns_update [simp]:
  "prefix_conns (g\<lparr>gl_total_prefixed_connections := m(k \<mapsto> n)\<rparr>) q =
     (if q = k then n else prefix_conns (g\<lparr>gl_total_prefixed_connections := m\<rparr>) q)"
  "prefix_conns (g\<lparr>gl_total_connections := x\<rparr>) q = prefix_conns g q"
  "prefix_conns (g\<lparr>gl_total_prefixed_connections := gl_total_prefixed_connections g\<rparr>) q = prefix_conns g q"
  "prefix_conns (g\<lparr>gl_total_connections := x, gl_total_prefixed_connections := m\<rparr>) q =
     prefix_conns (g\<lparr>gl_total_prefixed_connections := m\<rparr>) q"
  by (simp_all add: prefix_conns_def)

lemma conns_of_simps [simp]:
  "conns_of q {#} = 0" "conns_of q (add_mset a C) = (if get_prefix a = q then Suc (conns_of q C) else conns_of q C)"
  by (simp_all add: conns_of_def)

lemma sint_succ: "sint (x :: i32) < sint (y :: i32) \<Longrightarrow> sint (x + 1) = sint x + 1"
proof -
  assume "sint x < sint y"
  then have "sint x + 1 < 2 ^ 31" using sint_less [of y] by simp
  moreover have "- (2 ^ 31) \<le> sint x" using sint_ge [of x] by simp
  ultimately show ?thesis
    unfolding sint_word_ariths by (simp add: signed_take_bit_int_eq_self)
qed

lemma sint_pred: "0 < sint (x :: i32) \<Longrightarrow> sint (x - 1) = sint x - 1"
proof -
  assume "0 < sint x"
  moreover have "sint x < 2 ^ 31" using sint_less [of x] by simp
  ultimately show ?thesis
    unfolding sint_word_ariths by (simp add: signed_take_bit_int_eq_self)
qed

lemma unat_succ: "x < (y :: u32) \<Longrightarrow> unat (x + 1) = unat x + 1"
  using unat_u32_less [of y] by (subst unat_add_u32) (simp_all add: word_less_nat_alt)

lemma inc_connection_cases:
  "inc_connection g a = (g', r) \<Longrightarrow>
    (prefix_conns g (get_prefix a) < gl_max_connections_shared_prefix g \<and>
     sint (gl_total_connections g) < sint (gl_max_connections_total g) \<and>
     g' = g\<lparr>gl_total_connections := gl_total_connections g + 1,
        gl_total_prefixed_connections := (gl_total_prefixed_connections g)(get_prefix a \<mapsto> prefix_conns g (get_prefix a) + 1)\<rparr> \<and>
     r = Inr (gl_total_connections g + 1, prefix_conns g (get_prefix a) + 1)) \<or>
    (\<not> (prefix_conns g (get_prefix a) < gl_max_connections_shared_prefix g \<and>
        sint (gl_total_connections g) < sint (gl_max_connections_total g)) \<and>
     g' = g\<lparr>gl_total_prefixed_connections := (gl_total_prefixed_connections g)(get_prefix a \<mapsto> prefix_conns g (get_prefix a))\<rparr> \<and>
     \<not> is_ok r)"
  unfolding inc_connection_def prefix_conns_def [symmetric] by (auto simp: Let_def bail_def not_le split: if_splits)

lemma inc_inv:
  assumes inv: "conn_inv t p (g, C)" and run: "inc_connection g a = (g', r)"
  shows "conn_inv t p (g', if is_ok r then add_mset a C else C)"
  using inc_connection_cases [OF run]
proof (elim disjE conjE)
  assume lt: "prefix_conns g (get_prefix a) < gl_max_connections_shared_prefix g"
    "sint (gl_total_connections g) < sint (gl_max_connections_total g)"
    and g': "g' = g\<lparr>gl_total_connections := gl_total_connections g + 1,
        gl_total_prefixed_connections := (gl_total_prefixed_connections g)(get_prefix a \<mapsto> prefix_conns g (get_prefix a) + 1)\<rparr>"
    and r: "r = Inr (gl_total_connections g + 1, prefix_conns g (get_prefix a) + 1)"
  show ?thesis
    using inv lt sint_succ [OF lt(2)] unat_succ [OF lt(1)]
    by (auto simp: conn_inv_def g' r word_less_nat_alt)
next
  assume "g' = g\<lparr>gl_total_prefixed_connections := (gl_total_prefixed_connections g)(get_prefix a \<mapsto> prefix_conns g (get_prefix a))\<rparr>"
    "\<not> is_ok r"
  with inv show ?thesis by (auto simp: conn_inv_def)
qed

lemma dec_connection_eq:
  assumes "conn_inv t p (g, C)" "a \<in># C"
  shows "dec_connection g a =
    (g\<lparr>gl_total_connections := gl_total_connections g - 1,
       gl_total_prefixed_connections := (gl_total_prefixed_connections g)(get_prefix a \<mapsto> prefix_conns g (get_prefix a) - 1)\<rparr>,
     Inr (gl_total_connections g - 1, prefix_conns g (get_prefix a) - 1))"
    and "0 < sint (gl_total_connections g)" "0 < unat (prefix_conns g (get_prefix a))"
proof -
  from assms(2) obtain D where C: "C = add_mset a D" by (metis insert_DiffM)
  with assms(1) show pos: "0 < sint (gl_total_connections g)" "0 < unat (prefix_conns g (get_prefix a))"
    by (simp_all add: conn_inv_def)
  then obtain n where "gl_total_prefixed_connections g (get_prefix a) = Some n"
    by (cases "gl_total_prefixed_connections g (get_prefix a)") (auto simp: prefix_conns_def)
  with pos show "dec_connection g a =
    (g\<lparr>gl_total_connections := gl_total_connections g - 1,
       gl_total_prefixed_connections := (gl_total_prefixed_connections g)(get_prefix a \<mapsto> prefix_conns g (get_prefix a) - 1)\<rparr>,
     Inr (gl_total_connections g - 1, prefix_conns g (get_prefix a) - 1))"
    by (simp add: dec_connection_def Let_def prefix_conns_def)
qed

lemma dec_inv:
  assumes inv: "conn_inv t p (g, C)" and mem: "a \<in># C" and run: "dec_connection g a = (g', r)"
  shows "conn_inv t p (g', C - {#a#}) \<and> is_ok r"
proof -
  from mem obtain D where C: "C = add_mset a D" by (metis insert_DiffM)
  note d = dec_connection_eq [OF inv mem]
  have u: "unat (prefix_conns g (get_prefix a) - 1) = unat (prefix_conns g (get_prefix a)) - 1"
    using d(3) unat_sub [of 1 "prefix_conns g (get_prefix a)"] by (simp add: word_le_nat_alt)
  have "conns_of q C \<le> unat p" for q using inv by (simp add: conn_inv_def)
  from this [unfolded C] have le: "conns_of q D \<le> unat p" for q
    by (metis Suc_leD conns_of_simps(2))
  show ?thesis
    using run inv d(3) sint_pred [OF d(2)] u le unfolding d(1) by (auto simp: conn_inv_def C)
qed

lemma reachable_inv: "conn_reachable t p s \<Longrightarrow> conn_inv t p s"
proof (induction rule: conn_reachable.induct)
  case start
  then show ?case by (simp add: conn_inv_def global_limits_new_def prefix_conns_def)
next
  case (step s s')
  obtain g C where s: "s = (g, C)" by fastforce
  from step.hyps(2) step.IH show ?case
    unfolding s by (auto elim!: conn_stepE dest: inc_inv dec_inv)
qed

section \<open>Properties\<close>

text \<open>In every state reachable by accepting, rejecting and closing connections, the total and the per-prefix
  counters are exactly the numbers of open connections, and neither limit is exceeded.\<close>

lemma connection_counts:
  assumes "conn_reachable t p (g, C)"
  shows "sint (gl_total_connections g) = int (size C) \<and> (C = {#} \<or> int (size C) \<le> sint t) \<and>
    unat (prefix_conns g q) = size (filter_mset (\<lambda>a. get_prefix a = q) C) \<and>
    size (filter_mset (\<lambda>a. get_prefix a = q) C) \<le> unat p"
  using reachable_inv [OF assms] by (simp add: conn_inv_def conns_of_def)

lemma demo_accept:
  "inc_connection (global_limits_new 5 2) (V4 [10, 0, 0, 1]) =
    (\<lparr>gl_max_connections_total = 5, gl_max_connections_shared_prefix = 2, gl_total_connections = 1,
      gl_total_prefixed_connections = [[10, 0] \<mapsto> 1]\<rparr>, Inr (1, 1))"
  by (simp add: inc_connection_def global_limits_new_def get_prefix_def)

text \<open>A client is accepted exactly when its prefix and the server have a free slot, and closing an open
  connection never fails and never takes a counter below zero.\<close>

lemma accept_iff_free_slot:
  assumes "conn_reachable t p (g, C)"
  shows "(is_ok (snd (inc_connection g a)) \<longleftrightarrow>
      size (filter_mset (\<lambda>b. get_prefix b = get_prefix a) C) < unat p \<and> int (size C) < sint t) \<and>
    (a \<in># C \<longrightarrow> is_ok (snd (dec_connection g a)) \<and> 0 \<le> sint (gl_total_connections (fst (dec_connection g a))))"
proof (intro conjI impI)
  have inv: "conn_inv t p (g, C)" by (rule reachable_inv [OF assms])
  obtain g' r where run: "inc_connection g a = (g', r)" by fastforce
  from inv have cnt: "unat (prefix_conns g (get_prefix a)) = conns_of (get_prefix a) C"
    "sint (gl_total_connections g) = int (size C)" "gl_max_connections_shared_prefix g = p" "gl_max_connections_total g = t"
    by (simp_all add: conn_inv_def)
  show "is_ok (snd (inc_connection g a)) \<longleftrightarrow>
      size (filter_mset (\<lambda>b. get_prefix b = get_prefix a) C) < unat p \<and> int (size C) < sint t"
    using inc_connection_cases [OF run] run cnt by (auto simp: word_less_nat_alt conns_of_def)
  assume a: "a \<in># C"
  obtain g2 r2 where d: "dec_connection g a = (g2, r2)" by fastforce
  from dec_inv [OF inv a d] d show "is_ok (snd (dec_connection g a))"
    "0 \<le> sint (gl_total_connections (fst (dec_connection g a)))" by (simp_all add: conn_inv_def)
qed

text \<open>A configured total above \<open>2 ^ 31 - 1\<close> becomes a negative limit that admits nobody.\<close>

lemma large_total_rejects_all:
  "\<not> is_ok (snd (inc_connection (global_limits_new 0x80000000 2) a))"
  by (simp add: inc_connection_def global_limits_new_def Let_def bail_def)

end
