(* ===== verification/Merkle.thy ===== *)
theory Merkle
  imports Bitcoin
begin

text \<open>
  Merkle branches (\<^verbatim>\<open>merklize\<close> and \<^verbatim>\<open>create_merkle_branch_and_root\<close> of \<^verbatim>\<open>src/src/query/mod.rs\<close>),
  the top-down definition of a Merkle root they are compared with, and the check a client runs on a
  branch.  The double SHA-256 of the \<^verbatim>\<open>bitcoincash\<close> crate is the parameter \<open>H\<close>.
\<close>

section \<open>The code\<close>

definition merklize :: "(Bytes \<Rightarrow> Bytes) \<Rightarrow> Bytes \<Rightarrow> Bytes \<Rightarrow> Bytes" where
  "merklize H left right = H (left @ right)"

text \<open>\<^verbatim>\<open>chunks(2).map(|pair| merklize(pair[0], pair[1]))\<close>: an incomplete pair panics.\<close>

fun merkle_pairs :: "(Bytes \<Rightarrow> Bytes) \<Rightarrow> Bytes list \<Rightarrow> Bytes list result" where
  "merkle_pairs H [] = Inr []"
| "merkle_pairs H [a] = Inl (Panic ''index out of bounds'')"
| "merkle_pairs H (a # b # rest) =
     and_then (merkle_pairs H rest) (\<lambda>nodes. Inr (merklize H a b # nodes))"

definition merkle_pad :: "Bytes list \<Rightarrow> Bytes list" where
  "merkle_pad hashes = (if length hashes mod 2 \<noteq> 0 then hashes @ [last hashes] else hashes)"

lemma length_merkle_pairs: "merkle_pairs H xs = Inr ys \<Longrightarrow> 2 * length ys = length xs"
  by (induction H xs arbitrary: ys rule: merkle_pairs.induct) (auto simp: result_simps)

lemma length_merkle_pad: "length (merkle_pad xs) = length xs + length xs mod 2"
  by (auto simp: merkle_pad_def)

function merkle_loop :: "(Bytes \<Rightarrow> Bytes) \<Rightarrow> Bytes list \<Rightarrow> nat \<Rightarrow> Bytes list \<Rightarrow> (Bytes list \<times> Bytes) result" where
  "merkle_loop H hashes index merkle =
     (if 1 < length hashes then
        let padded = merkle_pad hashes;
            index' = (if index mod 2 = 0 then index + 1 else index - 1)
        in if index' < length padded then
             (case merkle_pairs H padded of
                Inl e \<Rightarrow> Inl e
              | Inr hashes' \<Rightarrow> merkle_loop H hashes' (index' div 2) (merkle @ [padded ! index']))
           else Inl (Panic ''index out of bounds'')
      else if hashes = [] then Inl (Panic ''index out of bounds'')
      else Inr (merkle, hashes ! 0))"
  by pat_completeness auto
termination
proof (relation "measure (\<lambda>(_, hashes, _, _). length hashes)", simp, goal_cases)
  case (1 H hashes index merkle padded index' hashes')
  then have "2 * length hashes' = length hashes + length hashes mod 2"
    using length_merkle_pairs [of H padded hashes'] by (simp add: length_merkle_pad)
  moreover have "length hashes mod 2 \<le> 1" by simp
  ultimately show ?case using 1(1) by simp
qed

declare merkle_loop.simps [simp del]

definition create_merkle_branch_and_root :: "(Bytes \<Rightarrow> Bytes) \<Rightarrow> Bytes list \<Rightarrow> nat \<Rightarrow> (Bytes list \<times> Bytes) result" where
  "create_merkle_branch_and_root H hashes index = merkle_loop H hashes index []"

section \<open>Reference definitions\<close>

text \<open>
  The root of a list of at most \<open>2 ^ d\<close> leaves, top down: a missing right subtree is a copy of the
  left one.  And the check of a branch: hash upwards from the leaf.
\<close>

fun mroot :: "(Bytes \<Rightarrow> Bytes) \<Rightarrow> nat \<Rightarrow> Bytes list \<Rightarrow> Bytes" where
  "mroot H 0 xs = hd xs"
| "mroot H (Suc d) xs =
     (let l = mroot H d (take (2 ^ d) xs)
      in merklize H l (if 2 ^ d < length xs then mroot H d (drop (2 ^ d) xs) else l))"

fun merkle_fold :: "(Bytes \<Rightarrow> Bytes) \<Rightarrow> Bytes \<Rightarrow> Bytes list \<Rightarrow> nat \<Rightarrow> Bytes" where
  "merkle_fold H h [] index = h"
| "merkle_fold H h (b # bs) index =
     merkle_fold H (if index mod 2 = 0 then merklize H h b else merklize H b h) bs (index div 2)"

text \<open>The least depth with room for \<open>n\<close> leaves.\<close>

fun depth :: "nat \<Rightarrow> nat" where
  "depth n = (if n \<le> 1 then 0 else Suc (depth ((n + 1) div 2)))"

declare depth.simps [simp del]

text \<open>One level of the tree.\<close>

fun pairs_of :: "(Bytes \<Rightarrow> Bytes) \<Rightarrow> Bytes list \<Rightarrow> Bytes list" where
  "pairs_of H [] = []"
| "pairs_of H [a] = [merklize H a a]"
| "pairs_of H (a # b # rest) = merklize H a b # pairs_of H rest"

section \<open>Lemmas\<close>

lemma length_pairs_of: "length (pairs_of H xs) = (length xs + 1) div 2"
  by (induction H xs rule: pairs_of.induct) auto

lemma merkle_pairs_even: "even (length xs) \<Longrightarrow> merkle_pairs H xs = Inr (pairs_of H xs)"
  by (induction H xs rule: merkle_pairs.induct) auto

lemma pairs_of_pad: "pairs_of H (merkle_pad xs) = pairs_of H xs"
proof -
  have "odd (length xs) \<Longrightarrow> pairs_of H (xs @ [last xs]) = pairs_of H xs"
    by (induction H xs rule: pairs_of.induct) auto
  then show ?thesis by (auto simp: merkle_pad_def odd_iff_mod_2_eq_one)
qed

lemma merkle_pairs_pad: "merkle_pairs H (merkle_pad xs) = Inr (pairs_of H xs)"
proof -
  have "even (length (merkle_pad xs))"
    by (simp add: length_merkle_pad)
  then show ?thesis by (simp add: merkle_pairs_even pairs_of_pad)
qed

lemma pairs_of_nth:
  "k < length (pairs_of H xs) \<Longrightarrow>
    pairs_of H xs ! k = merklize H (merkle_pad xs ! (2 * k)) (merkle_pad xs ! (2 * k + 1))"
proof (induction H xs arbitrary: k rule: pairs_of.induct)
  case (3 H a b rest)
  have pad: "merkle_pad (a # b # rest) = a # b # merkle_pad rest"
    by (auto simp: merkle_pad_def)
  show ?case
  proof (cases k)
    case (Suc j)
    with 3 show ?thesis by (simp add: pad)
  qed (simp add: pad)
qed (auto simp: merkle_pad_def)

lemma take_pairs_of: "take n (pairs_of H xs) = pairs_of H (take (2 * n) xs)"
proof (induction n arbitrary: xs)
  case (Suc n)
  then show ?case by (cases "(H, xs)" rule: pairs_of.cases) auto
qed simp

lemma drop_pairs_of: "drop n (pairs_of H xs) = pairs_of H (drop (2 * n) xs)"
proof (induction n arbitrary: xs)
  case (Suc n)
  then show ?case by (cases "(H, xs)" rule: pairs_of.cases) auto
qed simp

text \<open>One level up does not change the root.\<close>

lemma mroot_level:
  assumes "xs \<noteq> []" "length xs \<le> 2 ^ Suc d"
  shows "mroot H (Suc d) xs = mroot H d (pairs_of H xs)"
  using assms
proof (induction d arbitrary: xs)
  case 0
  then show ?case by (cases "(H, xs)" rule: pairs_of.cases) auto
next
  case (Suc d)
  have l: "mroot H (Suc d) (take (2 ^ Suc d) xs) = mroot H d (take (2 ^ d) (pairs_of H xs))"
    using Suc.IH [of "take (2 ^ Suc d) xs"] Suc.prems(1) by (simp add: take_pairs_of)
  have lt: "2 ^ d < length (pairs_of H xs) \<longleftrightarrow> 2 ^ Suc d < length xs"
    by (simp add: length_pairs_of) presburger
  have r: "mroot H (Suc d) (drop (2 ^ Suc d) xs) = mroot H d (drop (2 ^ d) (pairs_of H xs))"
    if "2 ^ Suc d < length xs"
    using Suc.IH [of "drop (2 ^ Suc d) xs"] Suc.prems(2) that by (simp add: drop_pairs_of)
  show ?case
    unfolding mroot.simps(2) [of H "Suc d"] mroot.simps(2) [of H d "pairs_of H xs"] Let_def l lt
    using r by simp
qed

text \<open>Where the sibling of a leaf stands.\<close>

definition sibling :: "nat \<Rightarrow> nat" where
  "sibling index = (if index mod 2 = 0 then index + 1 else index - 1)"

lemma sibling_div: "sibling index div 2 = index div 2"
  by (auto simp: sibling_def) presburger+

lemma sibling_in_pad: "index < length xs \<Longrightarrow> sibling index < length (merkle_pad xs)"
  by (auto simp: sibling_def length_merkle_pad) presburger+

lemma pad_nth: "i < length xs \<Longrightarrow> merkle_pad xs ! i = xs ! i"
  by (simp add: merkle_pad_def nth_append)

lemma node_of_leaf:
  assumes "index < length xs"
  shows "pairs_of H xs ! (index div 2) =
    (if index mod 2 = 0 then merklize H (xs ! index) (merkle_pad xs ! sibling index)
     else merklize H (merkle_pad xs ! sibling index) (xs ! index))"
proof -
  have k: "index div 2 < length (pairs_of H xs)" using assms by (simp add: length_pairs_of)
  show ?thesis
  proof (cases "index mod 2 = 0")
    case True
    then have "2 * (index div 2) = index" by presburger
    then show ?thesis using True k assms by (simp add: pairs_of_nth sibling_def pad_nth)
  next
    case False
    then have "2 * (index div 2) + 1 = index" "2 * (index div 2) = index - 1" by presburger+
    then show ?thesis using False k assms by (simp add: pairs_of_nth sibling_def pad_nth)
  qed
qed

lemma merkle_loop_step:
  assumes "1 < length xs" "index < length xs"
  shows "merkle_loop H xs index acc =
    merkle_loop H (pairs_of H xs) (index div 2) (acc @ [merkle_pad xs ! sibling index])"
  by (subst merkle_loop.simps)
    (use assms sibling_in_pad [of index xs] sibling_div [of index] in
      \<open>simp add: merkle_pairs_pad Let_def sibling_def [symmetric]\<close>)

lemma depth_bound: "n \<le> 2 ^ depth n"
proof (induction n rule: depth.induct)
  case (1 n)
  then show ?case by (subst depth.simps) (use 1 in \<open>auto; presburger\<close>)
qed

lemma merkle_loop_correct:
  assumes "index < length xs"
  shows "\<exists>branch. merkle_loop H xs index acc = Inr (acc @ branch, mroot H (depth (length xs)) xs) \<and>
    length branch = depth (length xs) \<and>
    merkle_fold H (xs ! index) branch index = mroot H (depth (length xs)) xs"
  using assms
proof (induction "length xs" arbitrary: xs index acc rule: less_induct)
  case less
  show ?case
  proof (cases "1 < length xs")
    case False
    then obtain x where xs: "xs = [x]" using less.prems by (cases xs) auto
    show ?thesis using less.prems by (simp add: xs merkle_loop.simps depth.simps)
  next
    case True
    let ?ys = "pairs_of H xs" and ?s = "merkle_pad xs ! sibling index"
    have shorter: "length ?ys < length xs" using True by (simp add: length_pairs_of)
    have inside: "index div 2 < length ?ys" using less.prems by (simp add: length_pairs_of)
    from less.hyps [OF shorter inside, of "acc @ [?s]"] obtain branch where b:
      "merkle_loop H ?ys (index div 2) (acc @ [?s]) = Inr ((acc @ [?s]) @ branch, mroot H (depth (length ?ys)) ?ys)"
      "length branch = depth (length ?ys)"
      "merkle_fold H (?ys ! (index div 2)) branch (index div 2) = mroot H (depth (length ?ys)) ?ys"
      by blast
    have d: "depth (length xs) = Suc (depth (length ?ys))"
      using True by (subst depth.simps) (simp add: length_pairs_of)
    have root: "mroot H (depth (length xs)) xs = mroot H (depth (length ?ys)) ?ys"
      unfolding d using True depth_bound [of "length xs"] d by (intro mroot_level) auto
    have "merkle_fold H (xs ! index) (?s # branch) index = mroot H (depth (length xs)) xs"
      using b(3) by (simp add: root node_of_leaf [OF less.prems])
    then show ?thesis
      using b(1,2) d root True less.prems by (intro exI [of _ "?s # branch"]) (simp add: merkle_loop_step)
  qed
qed

text \<open>
  A branch binds.  The inputs hashed while a branch is checked, and the inputs hashed by the tree:
  when no two of them collide, only the leaf at the position checks against the root.
\<close>

fun fold_inputs :: "(Bytes \<Rightarrow> Bytes) \<Rightarrow> Bytes \<Rightarrow> Bytes list \<Rightarrow> nat \<Rightarrow> Bytes set" where
  "fold_inputs H h [] index = {}"
| "fold_inputs H h (b # bs) index =
     (let pair = (if index mod 2 = 0 then h @ b else b @ h)
      in insert pair (fold_inputs H (H pair) bs (index div 2)))"

fun tree_inputs :: "(Bytes \<Rightarrow> Bytes) \<Rightarrow> nat \<Rightarrow> Bytes list \<Rightarrow> Bytes set" where
  "tree_inputs H 0 xs = {}"
| "tree_inputs H (Suc d) xs =
     (\<lambda>k. merkle_pad xs ! (2 * k) @ merkle_pad xs ! (2 * k + 1)) ` {..<length (pairs_of H xs)} \<union>
     tree_inputs H d (pairs_of H xs)"

lemma node_input:
  assumes "index < length xs"
  defines "k \<equiv> index div 2"
  shows "merkle_pad xs ! (2 * k) @ merkle_pad xs ! (2 * k + 1) =
    (if index mod 2 = 0 then xs ! index @ merkle_pad xs ! sibling index
     else merkle_pad xs ! sibling index @ xs ! index)"
proof (cases "index mod 2 = 0")
  case True
  then have "2 * k = index" unfolding k_def by presburger
  then show ?thesis using True assms(1) by (simp add: sibling_def pad_nth)
next
  case False
  then have "2 * k + 1 = index" "2 * k = index - 1" unfolding k_def by presburger+
  then show ?thesis using False assms(1) by (simp add: sibling_def pad_nth)
qed

lemma pad_lengths:
  assumes "\<forall>x\<in>set xs. length x = 32" "i < length (merkle_pad xs)"
  shows "length (merkle_pad xs ! i) = 32"
proof -
  have "set (merkle_pad xs) \<subseteq> set xs" by (cases xs) (auto simp: merkle_pad_def)
  then show ?thesis using assms nth_mem by blast
qed

lemma pairs_of_lengths:
  "\<forall>x. length (H x) = 32 \<Longrightarrow> \<forall>x\<in>set (pairs_of H xs). length x = 32"
  by (induction H xs rule: pairs_of.induct) (auto simp: merklize_def)

lemma same_side:
  assumes "(if e then h @ b else b @ h) = (if e then x @ s else s @ x)"
    "length h = (32 :: nat)" "length b = 32" "length x = 32" "length s = 32"
  shows "h = x"
  using assms by (auto split: if_splits)

lemma merkle_fold_binds:
  assumes H: "\<forall>x. length (H x) = 32"
    and "index < length xs" "length xs \<le> 2 ^ length bs"
    and "\<forall>x\<in>set xs. length x = 32" "\<forall>b\<in>set bs. length b = 32" "length h = 32"
    and "inj_on H (fold_inputs H h bs index \<union> tree_inputs H (length bs) xs)"
    and "merkle_fold H h bs index = mroot H (length bs) xs"
  shows "h = xs ! index"
  using assms(2-)
proof (induction bs arbitrary: h index xs)
  case Nil
  then have "length xs = 1" "index = 0" by auto
  then show ?case using Nil.prems(7) by (cases xs) auto
next
  case (Cons b bs)
  define k where "k = index div 2"
  define n where "n = (if index mod 2 = 0 then h @ b else b @ h)"
  define m where "m = merkle_pad xs ! (2 * k) @ merkle_pad xs ! (2 * k + 1)"
  have node: "(if index mod 2 = 0 then merklize H h b else merklize H b h) = H n"
    by (simp add: n_def merklize_def)
  have inside: "k < length (pairs_of H xs)"
    using Cons.prems(1) by (simp add: length_pairs_of k_def)
  have "merkle_fold H (H n) bs k = mroot H (length bs) (pairs_of H xs)"
    using Cons.prems(2,7) mroot_level [of xs "length bs" H] inside node
    by (cases "xs = []") (simp_all del: mroot.simps add: k_def)
  moreover have fi: "fold_inputs H h (b # bs) index = insert n (fold_inputs H (H n) bs k)"
    by (simp add: Let_def n_def k_def)
  have mi: "m \<in> tree_inputs H (length (b # bs)) xs" using inside by (simp add: m_def)
  have ti: "tree_inputs H (length bs) (pairs_of H xs) \<subseteq> tree_inputs H (length (b # bs)) xs" by simp
  have inj: "inj_on H (fold_inputs H (H n) bs k \<union> tree_inputs H (length bs) (pairs_of H xs))"
    using Cons.prems(6) by (rule inj_on_subset) (use fi ti in blast)
  have short: "length (pairs_of H xs) \<le> 2 ^ length bs"
    using Cons.prems(2) by (simp add: length_pairs_of)
  have bs: "\<forall>b\<in>set bs. length b = 32" and n32: "length (H n) = 32" using Cons.prems(4) H by simp_all
  ultimately have "H n = pairs_of H xs ! k"
    using Cons.IH [OF inside short pairs_of_lengths [OF H] bs n32 inj] by blast
  then have "H n = H m" using pairs_of_nth [OF inside] by (simp add: m_def merklize_def)
  moreover have "n \<in> fold_inputs H h (b # bs) index" unfolding fi by blast
  ultimately have "n = m" using inj_onD [OF Cons.prems(6), of n m] mi by blast
  moreover have "length (xs ! index) = 32" "length b = 32" using Cons.prems(1,3,4) by simp_all
  ultimately show ?case
    using same_side [of "index mod 2 = 0" h b "xs ! index" "merkle_pad xs ! sibling index"]
      pad_lengths [OF Cons.prems(3) sibling_in_pad [OF Cons.prems(1)]] Cons.prems(5)
    unfolding n_def m_def k_def node_input [OF Cons.prems(1)] by blast
qed

section \<open>Properties\<close>

text \<open>C37: For every position in a non-empty list of hashes the loop ends without a panic; the
  root it returns is the Merkle root as the tree defines it, the branch has one hash for each
  level, and hashing upwards from the leaf along the branch gives that root.\<close>

theorem merkle_branch_correct:
  assumes "index < length hashes"
  shows "\<exists>branch. create_merkle_branch_and_root H hashes index =
      Inr (branch, mroot H (depth (length hashes)) hashes) \<and>
    length branch = depth (length hashes) \<and>
    merkle_fold H (hashes ! index) branch index = mroot H (depth (length hashes)) hashes"
  using merkle_loop_correct [OF assms, of H "[]"] by (simp add: create_merkle_branch_and_root_def)

theorem merkle_branch_correct_witness:
  "\<exists>branch. create_merkle_branch_and_root rev [[1], [2], [3]] 2 =
      Inr (branch, mroot rev (depth 3) [[1], [2], [3]]) \<and>
    length branch = depth 3 \<and>
    merkle_fold rev [3] branch 2 = mroot rev (depth 3) [[1], [2], [3]]"
  using merkle_branch_correct [of 2 "[[1], [2], [3]]" rev] by (simp add: numeral_3_eq_3)

text \<open>A Merkle proof cannot show another transaction at a position: of the branches with one
  32-byte hash for each level, those that check against the root start from the hash at that
  position, unless two of the inputs that the check and the tree hash collide.\<close>

lemma merkle_branch_binds:
  assumes "create_merkle_branch_and_root H hashes index = Inr (branch, root)"
    and "index < length hashes" "length bs = length branch"
    and "\<forall>x. length (H x) = 32" "\<forall>x\<in>set hashes. length x = 32"
    and "\<forall>b\<in>set bs. length b = 32" "length h = 32"
    and "inj_on H (fold_inputs H h bs index \<union> tree_inputs H (length bs) hashes)"
    and "merkle_fold H h bs index = root"
  shows "h = hashes ! index"
proof (rule merkle_fold_binds [OF assms(4,2) _ assms(5-8)])
  obtain br where "create_merkle_branch_and_root H hashes index = Inr (br, mroot H (depth (length hashes)) hashes)"
    "length br = depth (length hashes)"
    using merkle_loop_correct [OF assms(2), of H "[]"] by (auto simp: create_merkle_branch_and_root_def)
  then have "length bs = depth (length hashes)" "root = mroot H (length bs) hashes"
    using assms(1,3) by auto
  then show "length hashes \<le> 2 ^ length bs" "merkle_fold H h bs index = mroot H (length bs) hashes"
    using depth_bound assms(9) by auto
qed

end
