(* ===== verification/Status.thy ===== *)
theory Status
  imports Mempool
begin

text \<open>
  The status of a script hash (\<^verbatim>\<open>src/src/query/primitives.rs\<close> and the first part of
  \<^verbatim>\<open>src/src/query/mod.rs\<close>): balances, history, unspent outputs and the status hash.  A hash map is
  the list of its bindings in insertion order; the order in which it is iterated is a parameter
  (\<open>runtime\<close>), and the unstable sorts are stable sorts of that order, which reach every sorted
  permutation.  The order of transaction ids and their hexadecimal form are those of the
  \<^verbatim>\<open>bitcoincash\<close> crate.  Sums and casts wrap as in a release build, where the debug assertion of
  \<^verbatim>\<open>history\<close> is absent.
\<close>

section \<open>The code\<close>

record FundingOutput =
  fo_funding_output :: OutPoint
  fo_height :: u32
  fo_value :: u64
  fo_state :: ConfirmationState

record SpendingInput =
  si_txn_id :: Txid
  si_height :: u32
  si_funding_output :: OutPoint
  si_value :: u64
  si_state :: ConfirmationState

record Status =
  st_confirmed :: "FundingOutput list \<times> SpendingInput list"
  st_mempool :: "FundingOutput list \<times> SpendingInput list"
  st_txn_fees :: "(Txid \<times> u64) list"

record runtime =
  iter_txns :: "(Txid \<times> i32) list \<Rightarrow> (Txid \<times> i32) list"
  iter_outputs :: "(OutPoint \<times> FundingOutput) list \<Rightarrow> (OutPoint \<times> FundingOutput) list"
  txid_less :: "Txid \<Rightarrow> Txid \<Rightarrow> bool"
  txid_hex :: "Txid \<Rightarrow> string"

definition calc_balance :: "FundingOutput list \<times> SpendingInput list \<Rightarrow> 64 word" where
  "calc_balance fs =
     (let funded = (\<Sum>output\<leftarrow>fst fs. fo_value output);
          spent = (\<Sum>inp\<leftarrow>snd fs. si_value inp)
      in funded - spent)"

record HistoryItem =
  hi_height :: i32
  hi_tx_hash :: Txid
  hi_fee :: "u64 option"

definition st_funding :: "Status \<Rightarrow> FundingOutput list" where
  "st_funding st = fst (st_confirmed st) @ fst (st_mempool st)"

definition st_spending :: "Status \<Rightarrow> SpendingInput list" where
  "st_spending st = snd (st_confirmed st) @ snd (st_mempool st)"

definition confirmed_balance :: "Status \<Rightarrow> 64 word" where
  "confirmed_balance st = calc_balance (st_confirmed st)"

definition mempool_balance :: "Status \<Rightarrow> 64 word" where
  "mempool_balance st = calc_balance (st_mempool st)"

fun history_height :: "ConfirmationState \<Rightarrow> u32 \<Rightarrow> i32" where
  "history_height Confirmed height = height"
| "history_height InMempool height = 0"
| "history_height UnconfirmedParent height = -1"
| "history_height Indeterminate height = 0"

definition history_map :: "Status \<Rightarrow> (Txid \<times> i32) list" where
  "history_map st =
     (let m = fold (\<lambda>f. AList.update (op_txid (fo_funding_output f)) (history_height (fo_state f) (fo_height f)))
                (st_funding st) []
      in fold (\<lambda>s. AList.update (si_txn_id s) (history_height (si_state s) (si_height s))) (st_spending st) m)"

datatype Ordering = Less | Equal | Greater

definition cmp_i32 :: "i32 \<Rightarrow> i32 \<Rightarrow> Ordering" where
  "cmp_i32 a b = (if sint a < sint b then Less else if sint a = sint b then Equal else Greater)"

definition cmp_txid :: "runtime \<Rightarrow> Txid \<Rightarrow> Txid \<Rightarrow> Ordering" where
  "cmp_txid R a b = (if txid_less R a b then Less else if a = b then Equal else Greater)"

definition abs_i32 :: "i32 \<Rightarrow> i32" where
  "abs_i32 h = (if sint h < 0 then - h else h)"

definition history_cmp :: "runtime \<Rightarrow> HistoryItem \<Rightarrow> HistoryItem \<Rightarrow> Ordering" where
  "history_cmp R a b =
     (if hi_height a = hi_height b then cmp_txid R (hi_tx_hash b) (hi_tx_hash a)
      else if 0 < sint (hi_height a) \<and> 0 < sint (hi_height b) then cmp_i32 (hi_height a) (hi_height b)
      else
        let a_height = (if sint (hi_height a) \<le> 0 then 0xEEEEEE + abs_i32 (hi_height a) else hi_height a);
            b_height = (if sint (hi_height b) \<le> 0 then 0xEEEEEE + abs_i32 (hi_height b) else hi_height b)
        in cmp_i32 a_height b_height)"

fun insert_by :: "('a \<Rightarrow> 'a \<Rightarrow> bool) \<Rightarrow> 'a \<Rightarrow> 'a list \<Rightarrow> 'a list" where
  "insert_by le x [] = [x]"
| "insert_by le x (y # ys) = (if le x y then x # y # ys else y # insert_by le x ys)"

definition sort_by :: "('a \<Rightarrow> 'a \<Rightarrow> bool) \<Rightarrow> 'a list \<Rightarrow> 'a list" where
  "sort_by le xs = foldr (insert_by le) xs []"

definition history :: "runtime \<Rightarrow> Status \<Rightarrow> HistoryItem list" where
  "history R st =
     sort_by (\<lambda>a b. history_cmp R a b \<noteq> Greater)
       (map (\<lambda>(txid, height). \<lparr>hi_height = height, hi_tx_hash = txid, hi_fee = map_of (st_txn_fees st) txid\<rparr>)
         (iter_txns R (history_map st)))"

definition unspent_map :: "Status \<Rightarrow> (OutPoint \<times> FundingOutput) list" where
  "unspent_map st =
     fold (\<lambda>s. AList.delete (si_funding_output s)) (st_spending st)
       (fold (\<lambda>f. AList.update (fo_funding_output f) f) (st_funding st) [])"

definition unspent :: "runtime \<Rightarrow> Status \<Rightarrow> FundingOutput list" where
  "unspent R st = sort_by (\<lambda>a b. fo_height a \<le> fo_height b) (map snd (iter_outputs R (unspent_map st)))"

definition show_i32 :: "i32 \<Rightarrow> string" where
  "show_i32 h = (if sint h < 0 then CHR ''-'' # show_nat (nat (- sint h)) else show_nat (nat (sint h)))"

definition hash_part :: "runtime \<Rightarrow> HistoryItem \<Rightarrow> string" where
  "hash_part R item = txid_hex R (hi_tx_hash item) @ '':'' @ show_i32 (hi_height item) @ '':''"

definition status_hash :: "libs \<Rightarrow> runtime \<Rightarrow> Status \<Rightarrow> FullHash option" where
  "status_hash L R st =
     (let txns = history R st
      in if txns = [] then None
         else Some (lib_sha256 L (concat (map (\<lambda>item. ascii (hash_part R item)) txns))))"

section \<open>What is assumed of the runtime and of the crate\<close>

locale runtime_laws =
  fixes R :: runtime
  assumes iter_txns_perm: "mset (iter_txns R m) = mset m"
    and iter_outputs_perm: "mset (iter_outputs R u) = mset u"
    and txid_less_irrefl: "\<not> txid_less R a a"
    and txid_less_trans: "txid_less R a b \<Longrightarrow> txid_less R b c \<Longrightarrow> txid_less R a c"
    and txid_less_linear: "txid_less R a b \<or> a = b \<or> txid_less R b a"
    and txid_hex_inj: "txid_hex R a = txid_hex R b \<Longrightarrow> a = b"
    and txid_hex_no_colon: "CHR '':'' \<notin> set (txid_hex R a)"

definition std_runtime :: runtime where
  "std_runtime = \<lparr>iter_txns = id, iter_outputs = id, txid_less = (\<lambda>a b. a < b), txid_hex = (\<lambda>t. hex_enc (rev t))\<rparr>"

lemma hex_enc_no_colon: "CHR '':'' \<notin> set (hex_enc b)"
proof (induction b)
  case (Cons x b)
  have "unnibble (CHR '':'') = None" by (simp add: unnibble_def)
  then have nib: "CHR '':'' \<noteq> nibble n" if "n < 16" for n
    using unnibble_nibble [OF that] by auto
  have "unat x div 16 < 16"
    using unsigned_less [where 'a = nat and w = x] by (simp add: less_mult_imp_div_less)
  then show ?case using Cons.IH nib [of "unat x div 16"] nib [of "unat x mod 16"] by simp
qed simp

interpretation stdrt: runtime_laws std_runtime
proof (unfold_locales, goal_cases)
  case (6 a b)
  then have "hex_dec (hex_enc (rev a)) = hex_dec (hex_enc (rev b))" by (simp add: std_runtime_def)
  then show ?case by (simp add: hex_dec_enc)
qed (auto simp: std_runtime_def hex_enc_no_colon)

section \<open>Sorting\<close>

lemma mset_insert_by [simp]: "mset (insert_by le x xs) = add_mset x (mset xs)"
  by (induction xs) auto

lemma mset_sort_by [simp]: "mset (sort_by le xs) = mset xs"
  unfolding sort_by_def by (induction xs) auto

lemma set_insert_by [simp]: "set (insert_by le x xs) = insert x (set xs)"
  by (induction xs) auto

lemma set_sort_by [simp]: "set (sort_by le xs) = set xs"
  using mset_sort_by set_mset_mset by metis

lemma sorted_insert_by:
  assumes "sorted_wrt le xs" "\<And>a b. a \<in> S \<Longrightarrow> b \<in> S \<Longrightarrow> le a b \<or> le b a"
    "\<And>a b c. a \<in> S \<Longrightarrow> b \<in> S \<Longrightarrow> c \<in> S \<Longrightarrow> le a b \<Longrightarrow> le b c \<Longrightarrow> le a c"
    "x \<in> S" "set xs \<subseteq> S"
  shows "sorted_wrt le (insert_by le x xs)"
  using assms(1,4,5)
proof (induction xs)
  case (Cons y ys)
  show ?case
  proof (cases "le x y")
    case True
    then show ?thesis using Cons.prems assms(3) [of x y] by auto
  next
    case False
    then have "le y x" using assms(2) [of x y] Cons.prems by auto
    then show ?thesis using False Cons by auto
  qed
qed simp

lemma sorted_sort_by:
  assumes "\<And>a b. a \<in> set xs \<Longrightarrow> b \<in> set xs \<Longrightarrow> le a b \<or> le b a"
    "\<And>a b c. a \<in> set xs \<Longrightarrow> b \<in> set xs \<Longrightarrow> c \<in> set xs \<Longrightarrow> le a b \<Longrightarrow> le b c \<Longrightarrow> le a c"
  shows "sorted_wrt le (sort_by le xs)"
proof -
  have "sorted_wrt le (sort_by le ys)" if "set ys \<subseteq> set xs" for ys
    using that
  proof (induction ys)
    case (Cons y ys)
    then show ?case using sorted_insert_by [of le "sort_by le ys" "set xs" y, OF _ assms]
      by (simp add: sort_by_def [of le "y # ys"] sort_by_def [symmetric])
  qed (simp add: sort_by_def)
  then show ?thesis by blast
qed

lemma sorted_wrt_unique:
  assumes "sorted_wrt le xs" "sorted_wrt le ys" "mset xs = mset ys"
    "\<And>a b. a \<in> set xs \<Longrightarrow> b \<in> set xs \<Longrightarrow> le a b \<Longrightarrow> le b a \<Longrightarrow> a = b"
  shows "xs = ys"
  using assms
proof (induction xs arbitrary: ys)
  case (Cons x xs)
  then obtain y ys' where ys: "ys = y # ys'" by (cases ys) auto
  have sets: "set (x # xs) = set ys" using Cons.prems(3) by (metis set_mset_mset)
  have "x = y"
  proof (rule ccontr)
    assume "x \<noteq> y"
    then have "x \<in> set ys'" "y \<in> set xs" using sets ys by auto
    then show False using \<open>x \<noteq> y\<close> Cons.prems(1,2) Cons.prems(4) [of x y] ys by auto
  qed
  moreover have "xs = ys'"
    using Cons.prems ys \<open>x = y\<close> by (intro Cons.IH) auto
  ultimately show ?case by (simp add: ys)
qed simp

lemma sorted_unique_on:
  assumes "mset xs = mset ys"
    "\<And>a b. a \<in> set xs \<Longrightarrow> b \<in> set xs \<Longrightarrow> le a b \<or> le b a"
    "\<And>a b c. a \<in> set xs \<Longrightarrow> b \<in> set xs \<Longrightarrow> c \<in> set xs \<Longrightarrow> le a b \<Longrightarrow> le b c \<Longrightarrow> le a c"
    "\<And>a b. a \<in> set xs \<Longrightarrow> b \<in> set xs \<Longrightarrow> le a b \<Longrightarrow> le b a \<Longrightarrow> a = b"
  shows "sort_by le xs = sort_by le ys"
proof (rule sorted_wrt_unique)
  have s: "set ys = set xs" using assms(1) by (metis set_mset_mset)
  show "sorted_wrt le (sort_by le xs)" by (rule sorted_sort_by) (fact assms(2,3))+
  show "sorted_wrt le (sort_by le ys)" by (rule sorted_sort_by; unfold s) (fact assms(2,3))+
  show "mset (sort_by le xs) = mset (sort_by le ys)" by (simp add: assms(1))
  show "a = b" if "a \<in> set (sort_by le xs)" "b \<in> set (sort_by le xs)" "le a b" "le b a" for a b
    using assms(4) [of a b] that by simp
qed

section \<open>History\<close>

text \<open>Confirmed heights below the offset that puts mempool transactions last.\<close>

definition low_heights :: "Status \<Rightarrow> bool" where
  "low_heights st \<longleftrightarrow>
     (\<forall>f\<in>set (st_funding st). fo_state f = Confirmed \<longrightarrow> unat (fo_height f) < 0xEEEEEE) \<and>
     (\<forall>s\<in>set (st_spending st). si_state s = Confirmed \<longrightarrow> unat (si_height s) < 0xEEEEEE)"

definition ok_height :: "i32 \<Rightarrow> bool" where
  "ok_height h \<longleftrightarrow> -1 \<le> sint h \<and> sint h < 0xEEEEEE"

definition hkey :: "i32 \<Rightarrow> int" where
  "hkey h = (if sint h \<le> 0 then 0xEEEEEE - sint h else sint h)"

lemma sint_small: "uint (h :: 32 word) < 0x80000000 \<Longrightarrow> sint h = uint h"
  using signed_take_bit_int_eq_self [of 31 "uint h"] uint_ge_0 [of h] by (simp add: sint_uint)

lemma uint_less_unat: "unat (h :: 'a::len word) < n \<Longrightarrow> uint h < int n"
  using uint_nat [of h] by linarith

lemma ok_history_height:
  assumes "state = Confirmed \<longrightarrow> unat h < 0xEEEEEE"
  shows "ok_height (history_height state h)"
proof (cases "state = Confirmed")
  case True
  then have "uint h < 0xEEEEEE" using assms uint_less_unat [of h "0xEEEEEE"] by auto
  moreover from this have "sint h = uint h" by (intro sint_small) linarith
  moreover have "-1 \<le> uint h" using uint_ge_0 [of h] by linarith
  ultimately show ?thesis using True by (simp add: ok_height_def)
qed (cases state; simp add: ok_height_def)

lemma hkey_inj: "ok_height a \<Longrightarrow> ok_height b \<Longrightarrow> hkey a = hkey b \<Longrightarrow> a = b"
  by (auto simp: hkey_def ok_height_def signed_word_eqI split: if_splits)

lemma mempool_key: "ok_height h \<Longrightarrow> sint h \<le> 0 \<Longrightarrow> sint (0xEEEEEE + abs_i32 h) = hkey h"
proof -
  assume h: "ok_height h" "sint h \<le> 0"
  then have "sint h = -1 \<or> sint h = 0" by (auto simp: ok_height_def)
  moreover have "sint (-1 :: i32) = -1" "sint (0 :: i32) = 0" by simp_all
  ultimately have "h = -1 \<or> h = 0" by (metis signed_word_eqI)
  then show ?thesis by (auto simp: abs_i32_def hkey_def)
qed

context runtime_laws
begin

lemma history_cmp_le:
  assumes "ok_height (hi_height a)" "ok_height (hi_height b)"
  shows "history_cmp R a b \<noteq> Greater \<longleftrightarrow>
    hkey (hi_height a) < hkey (hi_height b) \<or>
    hi_height a = hi_height b \<and> \<not> txid_less R (hi_tx_hash a) (hi_tx_hash b)"
proof (cases "hi_height a = hi_height b")
  case True
  then show ?thesis
    using txid_less_linear [of "hi_tx_hash a" "hi_tx_hash b"] txid_less_irrefl [of "hi_tx_hash a"]
      txid_less_trans [of "hi_tx_hash a" "hi_tx_hash b" "hi_tx_hash a"]
    by (auto simp: history_cmp_def cmp_txid_def)
next
  case False
  let ?k = "\<lambda>h. if sint h \<le> 0 then 0xEEEEEE + abs_i32 h else h"
  have k: "sint (?k (hi_height a)) = hkey (hi_height a)" "sint (?k (hi_height b)) = hkey (hi_height b)"
    using assms by (simp_all add: mempool_key, simp_all add: hkey_def)
  have "history_cmp R a b = cmp_i32 (?k (hi_height a)) (?k (hi_height b))"
    using False by (simp add: history_cmp_def)
  moreover have "hkey (hi_height a) \<noteq> hkey (hi_height b)" using hkey_inj assms False by blast
  ultimately show ?thesis using False by (auto simp: cmp_i32_def k)
qed

end

text \<open>A hash map filled in a loop.\<close>

definition fill :: "('x \<Rightarrow> 'k) \<Rightarrow> ('x \<Rightarrow> 'v) \<Rightarrow> 'x list \<Rightarrow> ('k \<times> 'v) list \<Rightarrow> ('k \<times> 'v) list" where
  "fill k v xs m = fold (\<lambda>x. AList.update (k x) (v x)) xs m"

lemma fill_distinct: "distinct (map fst m) \<Longrightarrow> distinct (map fst (fill k v xs m))"
  unfolding fill_def by (induction xs arbitrary: m) (auto simp: distinct_update)

lemma fill_keys: "fst ` set (fill k v xs m) = fst ` set m \<union> k ` set xs"
  unfolding fill_def by (induction xs arbitrary: m) (auto simp: dom_update)

lemma set_update_subset: "set (AList.update a b m) \<subseteq> insert (a, b) (set m)"
  by (induction m) auto

lemma fill_subset: "set (fill k v xs m) \<subseteq> set m \<union> (\<lambda>x. (k x, v x)) ` set xs"
  unfolding fill_def
proof (induction xs arbitrary: m)
  case (Cons x xs)
  then show ?case using set_update_subset [of "k x" "v x" m] by fastforce
qed simp

lemma history_map_fill:
  "history_map st = fill si_txn_id (\<lambda>s. history_height (si_state s) (si_height s)) (st_spending st)
     (fill (\<lambda>f. op_txid (fo_funding_output f)) (\<lambda>f. history_height (fo_state f) (fo_height f)) (st_funding st) [])"
  by (simp add: history_map_def fill_def)

lemma history_map_distinct: "distinct (map fst (history_map st))"
  by (simp add: history_map_fill fill_distinct)

lemma history_map_keys:
  "fst ` set (history_map st) = (\<lambda>f. op_txid (fo_funding_output f)) ` set (st_funding st) \<union> si_txn_id ` set (st_spending st)"
  by (simp add: history_map_fill fill_keys)

lemma history_map_heights:
  assumes "low_heights st" "(t, h) \<in> set (history_map st)"
  shows "ok_height h"
proof -
  define F where "F = fill (\<lambda>f. op_txid (fo_funding_output f)) (\<lambda>f. history_height (fo_state f) (fo_height f)) (st_funding st) []"
  have "(t, h) \<in> set F \<union> (\<lambda>s. (si_txn_id s, history_height (si_state s) (si_height s))) ` set (st_spending st)"
    using assms(2) unfolding history_map_fill F_def [symmetric] by (rule subsetD [OF fill_subset])
  moreover have "F' \<in> (\<lambda>f. (op_txid (fo_funding_output f), history_height (fo_state f) (fo_height f))) ` set (st_funding st)"
    if "F' \<in> set F" for F'
    using subsetD [OF fill_subset that [unfolded F_def]] by simp
  ultimately consider f where "f \<in> set (st_funding st)" "h = history_height (fo_state f) (fo_height f)"
    | s where "s \<in> set (st_spending st)" "h = history_height (si_state s) (si_height s)"
    by fast
  then show ?thesis using assms(1) ok_history_height unfolding low_heights_def by cases blast+
qed

definition history_item :: "Status \<Rightarrow> Txid \<times> i32 \<Rightarrow> HistoryItem" where
  "history_item st th = \<lparr>hi_height = snd th, hi_tx_hash = fst th, hi_fee = map_of (st_txn_fees st) (fst th)\<rparr>"

definition hist_le :: "runtime \<Rightarrow> HistoryItem \<Rightarrow> HistoryItem \<Rightarrow> bool" where
  "hist_le R a b \<longleftrightarrow> history_cmp R a b \<noteq> Greater"

lemma history_alt: "history R st = sort_by (hist_le R) (map (history_item st) (iter_txns R (history_map st)))"
  unfolding history_def
  by (simp add: hist_le_def [abs_def] history_item_def [abs_def] case_prod_beta')

context runtime_laws
begin

lemma history_set: "set (history R st) = history_item st ` set (history_map st)"
proof -
  have "set (iter_txns R (history_map st)) = set (history_map st)"
    using iter_txns_perm by (metis set_mset_mset)
  then show ?thesis by (simp add: history_alt)
qed

lemma history_mset: "mset (history R st) = mset (map (history_item st) (history_map st))"
  by (simp add: history_alt iter_txns_perm)

lemma history_txids_distinct: "distinct (map hi_tx_hash (history R st))"
proof -
  have "mset (map hi_tx_hash (history R st)) = mset (map fst (history_map st))"
    by (simp add: history_mset history_item_def multiset.map_comp comp_def)
  then show ?thesis using history_map_distinct by (metis mset_eq_imp_distinct_iff)
qed

lemma hist_le_iff:
  assumes "ok_height (hi_height a)" "ok_height (hi_height b)"
  shows "hist_le R a b \<longleftrightarrow> hkey (hi_height a) < hkey (hi_height b) \<or>
    hi_height a = hi_height b \<and> \<not> txid_less R (hi_tx_hash a) (hi_tx_hash b)"
  unfolding hist_le_def using assms by (rule history_cmp_le)

lemma hist_le_total:
  "ok_height (hi_height a) \<Longrightarrow> ok_height (hi_height b) \<Longrightarrow> hist_le R a b \<or> hist_le R b a"
  using hkey_inj [of "hi_height a" "hi_height b"] txid_less_irrefl [of "hi_tx_hash a"]
    txid_less_trans [of "hi_tx_hash a" "hi_tx_hash b" "hi_tx_hash a"]
  by (auto simp: hist_le_iff)

lemma hist_le_trans:
  "ok_height (hi_height a) \<Longrightarrow> ok_height (hi_height b) \<Longrightarrow> ok_height (hi_height c) \<Longrightarrow>
   hist_le R a b \<Longrightarrow> hist_le R b c \<Longrightarrow> hist_le R a c"
  using txid_less_linear [of "hi_tx_hash b" "hi_tx_hash c"]
    txid_less_trans [of "hi_tx_hash a" "hi_tx_hash c" "hi_tx_hash b"]
  by (auto simp: hist_le_iff)

lemma hist_le_antisym:
  "ok_height (hi_height a) \<Longrightarrow> ok_height (hi_height b) \<Longrightarrow> hist_le R a b \<Longrightarrow> hist_le R b a \<Longrightarrow>
   hi_tx_hash a = hi_tx_hash b \<and> hi_height a = hi_height b"
  using txid_less_linear [of "hi_tx_hash a" "hi_tx_hash b"] by (auto simp: hist_le_iff)

lemma history_item_ok:
  "low_heights st \<Longrightarrow> i \<in> history_item st ` set (history_map st) \<Longrightarrow> ok_height (hi_height i)"
  using history_map_heights by (auto simp: history_item_def)

lemma history_sorted:
  assumes "low_heights st"
  shows "sorted_wrt (hist_le R) (history R st)"
  unfolding history_alt
proof (rule sorted_sort_by)
  have ok: "ok_height (hi_height i)" if "i \<in> set (map (history_item st) (iter_txns R (history_map st)))" for i
    using that history_item_ok [OF assms] iter_txns_perm [of "history_map st"] by (metis set_map set_mset_mset)
  fix a b c
  assume a: "a \<in> set (map (history_item st) (iter_txns R (history_map st)))"
    and b: "b \<in> set (map (history_item st) (iter_txns R (history_map st)))"
  show "hist_le R a b \<or> hist_le R b a" using hist_le_total ok a b by blast
  assume "c \<in> set (map (history_item st) (iter_txns R (history_map st)))" "hist_le R a b" "hist_le R b c"
  then show "hist_le R a c" using hist_le_trans ok a b by blast
qed

lemma history_unique:
  assumes "low_heights st" "sorted_wrt (hist_le R) xs" "mset xs = mset (map (history_item st) (history_map st))"
  shows "history R st = xs"
proof (rule sorted_wrt_unique [OF history_sorted [OF assms(1)] assms(2)])
  show "mset (history R st) = mset xs" by (simp add: history_mset assms(3))
  fix a b assume ab: "a \<in> set (history R st)" "b \<in> set (history R st)" "hist_le R a b" "hist_le R b a"
  have ok: "ok_height (hi_height i)" if "i \<in> set (history R st)" for i
    using that history_item_ok [OF assms(1)] by (simp only: history_set)
  have "hi_tx_hash a = hi_tx_hash b"
    using hist_le_antisym [OF ok [OF ab(1)] ok [OF ab(2)] ab(3,4)] by blast
  moreover have "inj_on hi_tx_hash (set (history R st))"
    using history_txids_distinct [of st] by (simp only: distinct_map)
  ultimately show "a = b" using ab(1,2) by (metis inj_onD)
qed

end

section \<open>Balances\<close>

text \<open>
  The status of a script hash is consistent when its outputs are distinct, every spent output is
  one of them with the same value and is spent once, and the total is below \<open>2 ^ 63\<close> satoshi.
\<close>

definition consistent :: "Status \<Rightarrow> bool" where
  "consistent st \<longleftrightarrow>
     distinct (map fo_funding_output (st_funding st)) \<and> distinct (map si_funding_output (st_spending st)) \<and>
     (\<forall>s\<in>set (st_spending st). \<exists>f\<in>set (st_funding st).
        fo_funding_output f = si_funding_output s \<and> fo_value f = si_value s) \<and>
     (\<Sum>f\<leftarrow>st_funding st. unat (fo_value f)) < 2 ^ 63"

lemma unat_sum_list: "(\<Sum>x\<leftarrow>xs. unat (v x)) < 18446744073709551616 \<Longrightarrow> unat (\<Sum>x\<leftarrow>xs. v x :: u64) = (\<Sum>x\<leftarrow>xs. unat (v x))"
  by (induction xs) (auto simp: unat_add_u64)

lemma sint_diff_u64:
  assumes "unat (a :: u64) < 2 ^ 63" "unat b < 2 ^ 63"
  shows "sint (a - b) = int (unat a) - int (unat b)"
proof -
  have b: "0 \<le> uint a" "uint a < 2 ^ 63" "0 \<le> uint b" "uint b < 2 ^ 63"
    using assms [THEN uint_less_unat] by simp_all
  have t: "signed_take_bit 63 (take_bit 64 x) = signed_take_bit 63 x" for x :: int
    by (simp add: signed_take_bit_take_bit)
  have "sint (a - b) = signed_take_bit 63 (uint a - uint b)"
    unfolding sint_uint uint_word_ariths using t [of "uint a - uint b"] by (simp add: take_bit_eq_mod)
  also have "\<dots> = uint a - uint b" using b by (intro signed_take_bit_int_eq_self) linarith+
  finally show ?thesis by (simp only: uint_nat)
qed

lemma fill_distinct_map:
  assumes "distinct (map k xs)" "fst ` set m \<inter> k ` set xs = {}"
  shows "fill k v xs m = m @ map (\<lambda>x. (k x, v x)) xs"
  using assms unfolding fill_def
proof (induction xs arbitrary: m)
  case (Cons x xs)
  have "AList.update (k x) (v x) m = m @ [(k x, v x)]"
  proof -
    have "k x \<notin> fst ` set m" using Cons.prems(2) by auto
    then show ?thesis by (induction m) auto
  qed
  then show ?case using Cons.prems Cons.IH [of "m @ [(k x, v x)]"] by auto
qed simp

lemma fold_delete: "fold (\<lambda>s. AList.delete (k s)) ss m = filter (\<lambda>p. fst p \<notin> k ` set ss) m"
proof (induction ss arbitrary: m)
  case (Cons s ss)
  then show ?case by (simp add: AList.delete_eq case_prod_beta) (rule filter_cong; auto)
qed simp

lemma unspent_map_eq:
  assumes "distinct (map fo_funding_output (st_funding st))"
  shows "map snd (unspent_map st) =
    filter (\<lambda>f. fo_funding_output f \<notin> si_funding_output ` set (st_spending st)) (st_funding st)"
proof -
  have "fold (\<lambda>f. AList.update (fo_funding_output f) f) (st_funding st) [] =
      map (\<lambda>f. (fo_funding_output f, f)) (st_funding st)"
    using fill_distinct_map [OF assms, of "[]" "\<lambda>f. f"] by (simp add: fill_def)
  then show ?thesis
    by (simp add: unspent_map_def fold_delete filter_map comp_def)
qed

lemma sum_spent:
  assumes "distinct (map fo_funding_output fs)" "distinct (map si_funding_output ss)"
    "\<forall>s\<in>set ss. \<exists>f\<in>set fs. fo_funding_output f = si_funding_output s \<and> fo_value f = si_value s"
  shows "(\<Sum>s\<leftarrow>ss. unat (si_value s)) =
    (\<Sum>f\<leftarrow>filter (\<lambda>f. fo_funding_output f \<in> si_funding_output ` set ss) fs. unat (fo_value f))"
proof -
  define val where "val op = (THE v. \<exists>f\<in>set fs. fo_funding_output f = op \<and> v = unat (fo_value f))" for op
  have inj: "inj_on fo_funding_output (set fs)" using assms(1) by (simp add: distinct_map)
  have val: "val (fo_funding_output f) = unat (fo_value f)" if "f \<in> set fs" for f
    unfolding val_def using that inj by (intro the_equality) (auto dest: inj_onD)
  have vs: "unat (si_value s) = val (si_funding_output s)" if "s \<in> set ss" for s
    using assms(3) that val by metis
  let ?fs = "filter (\<lambda>f. fo_funding_output f \<in> si_funding_output ` set ss) fs"
  have "(\<Sum>s\<leftarrow>ss. unat (si_value s)) = (\<Sum>s\<leftarrow>ss. val (si_funding_output s))"
    using vs by (intro arg_cong [where f = sum_list] map_cong) auto
  also have "\<dots> = (\<Sum>op\<in>si_funding_output ` set ss. val op)"
    using sum_list_distinct_conv_sum_set [OF assms(2), of val] by (simp add: comp_def)
  also have "si_funding_output ` set ss = fo_funding_output ` set ?fs" using assms(3) by force
  also have "(\<Sum>op\<in>fo_funding_output ` set ?fs. val op) = (\<Sum>f\<leftarrow>?fs. val (fo_funding_output f))"
    using sum_list_distinct_conv_sum_set [of "map fo_funding_output ?fs" val] assms(1)
    by (simp add: comp_def distinct_map_filter)
  also have "\<dots> = (\<Sum>f\<leftarrow>?fs. unat (fo_value f))"
    using val by (intro arg_cong [where f = sum_list] map_cong) auto
  finally show ?thesis .
qed

lemma sum_filter_split:
  "(\<Sum>x\<leftarrow>xs. v x :: nat) = (\<Sum>x\<leftarrow>filter P xs. v x) + (\<Sum>x\<leftarrow>filter (\<lambda>x. \<not> P x) xs. v x)"
  by (induction xs) auto

lemma calc_balance_sint:
  assumes "(\<Sum>f\<leftarrow>fst fs. unat (fo_value f)) < 2 ^ 63" "(\<Sum>s\<leftarrow>snd fs. unat (si_value s)) < 2 ^ 63"
  shows "sint (calc_balance fs) = int (\<Sum>f\<leftarrow>fst fs. unat (fo_value f)) - int (\<Sum>s\<leftarrow>snd fs. unat (si_value s))"
  unfolding calc_balance_def Let_def
  using assms by (subst sint_diff_u64) (simp_all add: unat_sum_list)

context runtime_laws
begin

lemma unspent_mset: "mset (unspent R st) = mset (map snd (unspent_map st))"
  by (simp add: unspent_def iter_outputs_perm)

lemma unspent_sum:
  assumes "consistent st"
  shows "(\<Sum>f\<leftarrow>unspent R st. unat (fo_value f)) + (\<Sum>s\<leftarrow>st_spending st. unat (si_value s)) =
    (\<Sum>f\<leftarrow>st_funding st. unat (fo_value f))"
proof -
  let ?P = "\<lambda>f. fo_funding_output f \<in> si_funding_output ` set (st_spending st)"
  have "(\<Sum>f\<leftarrow>unspent R st. unat (fo_value f)) = (\<Sum>f\<leftarrow>map snd (unspent_map st). unat (fo_value f))"
    unfolding sum_mset_sum_list [symmetric] mset_map unspent_mset ..
  also have "\<dots> = (\<Sum>f\<leftarrow>filter (\<lambda>f. \<not> ?P f) (st_funding st). unat (fo_value f))"
    using assms by (simp only: unspent_map_eq consistent_def)
  finally have "(\<Sum>f\<leftarrow>unspent R st. unat (fo_value f)) = \<dots>" .
  moreover have "(\<Sum>s\<leftarrow>st_spending st. unat (si_value s)) = (\<Sum>f\<leftarrow>filter ?P (st_funding st). unat (fo_value f))"
    using assms unfolding consistent_def by (intro sum_spent) blast+
  ultimately show ?thesis
    unfolding sum_filter_split [of "\<lambda>f. unat (fo_value f)" "st_funding st" ?P] by linarith
qed

end

section \<open>The status hash\<close>

lemma char_of_digit: "n < 10 \<Longrightarrow> (of_char (char_of (48 + n) :: char) :: nat) = 48 + n"
  by (simp add: of_char_of)

lemma show_nat_digits: "c \<in> set (show_nat n) \<Longrightarrow> 48 \<le> (of_char c :: nat) \<and> (of_char c :: nat) \<le> 57"
proof (induction n rule: show_nat.induct)
  case (1 n)
  show ?case
  proof (cases "n < 10")
    case True
    then show ?thesis using "1.prems" char_of_digit [of n] by (simp add: show_nat.simps [of n])
  next
    case False
    then show ?thesis using 1 char_of_digit [of "n mod 10"] by (auto simp: show_nat.simps [of n])
  qed
qed

fun read_nat :: "string \<Rightarrow> nat \<Rightarrow> nat" where
  "read_nat [] acc = acc"
| "read_nat (c # cs) acc = read_nat cs (10 * acc + (of_char c - 48))"

lemma read_nat_append: "read_nat (a @ [c]) acc = 10 * read_nat a acc + (of_char c - 48)"
  by (induction a arbitrary: acc) auto

lemma read_show_nat: "read_nat (show_nat n) 0 = n"
proof (induction n rule: show_nat.induct)
  case (1 n)
  then show ?case
    using char_of_digit [of n] char_of_digit [of "n mod 10"]
    by (cases "n < 10") (simp_all add: show_nat.simps [of n] read_nat_append)
qed

lemma show_nat_inj: "show_nat a = show_nat b \<Longrightarrow> a = b"
  by (metis read_show_nat)

lemma show_i32_no_colon: "CHR '':'' \<notin> set (show_i32 h)"
proof -
  have "CHR '':'' \<notin> set (show_nat n)" for n using show_nat_digits [of "CHR '':''" n] by auto
  then show ?thesis by (simp add: show_i32_def)
qed

lemma show_i32_inj: "show_i32 a = show_i32 b \<Longrightarrow> a = b"
proof -
  assume e: "show_i32 a = show_i32 b"
  have d: "show_nat n \<noteq> CHR ''-'' # s" for n s
    using show_nat_digits [of "CHR ''-''" n] by auto
  have "sint a = sint b"
  proof (cases "sint a < 0"; cases "sint b < 0")
    assume "sint a < 0" "sint b < 0"
    then show ?thesis using e show_nat_inj by (fastforce simp: show_i32_def)
  next
    assume "\<not> sint a < 0" "\<not> sint b < 0"
    then show ?thesis using e show_nat_inj by (fastforce simp: show_i32_def)
  qed (use e d d [symmetric] in \<open>simp_all add: show_i32_def\<close>)
  then show ?thesis by (rule signed_word_eqI)
qed

lemma colon_split:
  "x \<notin> set a \<Longrightarrow> x \<notin> set b \<Longrightarrow> a @ x # r = b @ x # s \<Longrightarrow> a = b \<and> r = s"
  by (induction a arbitrary: b) (auto simp: Cons_eq_append_conv append_eq_Cons_conv)

definition status_preimage :: "runtime \<Rightarrow> HistoryItem list \<Rightarrow> Bytes" where
  "status_preimage R txns = concat (map (\<lambda>item. ascii (hash_part R item)) txns)"

lemma ascii_concat: "concat (map (\<lambda>x. ascii (f x)) xs) = ascii (concat (map f xs))"
  by (simp add: ascii_def map_concat comp_def)

lemma of_char_mod: "(of_char c :: nat) mod 256 = of_char c"
  using of_char_of [of "of_char c :: nat"] by simp

lemma of_char_u8_inj: "(of_char x :: u8) = of_char y \<Longrightarrow> x = y"
proof -
  assume "(of_char x :: u8) = of_char y"
  then have "(of_nat (of_char x :: nat) :: u8) = of_nat (of_char y)" by (simp only: of_nat_of_char)
  then have "unat (of_nat (of_char x :: nat) :: u8) = unat (of_nat (of_char y :: nat) :: u8)" by (rule arg_cong)
  then have "(of_char x :: nat) mod 256 = of_char y mod 256" unfolding unat_of_nat by simp
  then show ?thesis by (simp only: of_char_mod of_char_eq_iff)
qed

lemma ascii_inj: "ascii a = ascii b \<Longrightarrow> a = b"
  unfolding ascii_def by (rule map_injective) (auto intro!: injI of_char_u8_inj)

context runtime_laws
begin

lemma hash_parts_inj:
  "concat (map (hash_part R) xs) = concat (map (hash_part R) ys) \<Longrightarrow>
    map (\<lambda>i. (hi_tx_hash i, hi_height i)) xs = map (\<lambda>i. (hi_tx_hash i, hi_height i)) ys"
proof (induction xs arbitrary: ys)
  case Nil
  then show ?case by (cases ys) (auto simp: hash_part_def)
next
  case (Cons x xs)
  then obtain y ys' where ys: "ys = y # ys'" by (cases ys) (auto simp: hash_part_def)
  let ?c = "CHR '':''"
  have "txid_hex R (hi_tx_hash x) @ ?c # (show_i32 (hi_height x) @ ?c # concat (map (hash_part R) xs)) =
        txid_hex R (hi_tx_hash y) @ ?c # (show_i32 (hi_height y) @ ?c # concat (map (hash_part R) ys'))"
    using Cons.prems by (simp add: ys hash_part_def [of R x] hash_part_def [of R y])
  from colon_split [OF txid_hex_no_colon txid_hex_no_colon this]
  have a: "txid_hex R (hi_tx_hash x) = txid_hex R (hi_tx_hash y)" and
    r: "show_i32 (hi_height x) @ ?c # concat (map (hash_part R) xs) =
      show_i32 (hi_height y) @ ?c # concat (map (hash_part R) ys')" by blast+
  from colon_split [OF show_i32_no_colon show_i32_no_colon r]
  have "show_i32 (hi_height x) = show_i32 (hi_height y)"
    "concat (map (hash_part R) xs) = concat (map (hash_part R) ys')" by blast+
  then show ?case using a txid_hex_inj show_i32_inj Cons.IH [of ys'] by (simp add: ys)
qed

lemma status_preimage_inj:
  "status_preimage R xs = status_preimage R ys \<Longrightarrow>
    map (\<lambda>i. (hi_tx_hash i, hi_height i)) xs = map (\<lambda>i. (hi_tx_hash i, hi_height i)) ys"
  unfolding status_preimage_def ascii_concat by (intro hash_parts_inj ascii_inj)

end

section \<open>Properties\<close>

text \<open>A script hash funded in a block and again, by the transaction spending it, in the mempool.\<close>

definition demo_funded :: FundingOutput where
  "demo_funded = \<lparr>fo_funding_output = \<lparr>op_txid = replicate 32 1, op_vout = 0\<rparr>, fo_height = 100,
     fo_value = 50, fo_state = Confirmed\<rparr>"

definition demo_change :: FundingOutput where
  "demo_change = \<lparr>fo_funding_output = \<lparr>op_txid = replicate 32 2, op_vout = 1\<rparr>, fo_height = MEMPOOL_HEIGHT,
     fo_value = 30, fo_state = InMempool\<rparr>"

definition demo_spend :: SpendingInput where
  "demo_spend = \<lparr>si_txn_id = replicate 32 2, si_height = MEMPOOL_HEIGHT,
     si_funding_output = \<lparr>op_txid = replicate 32 1, op_vout = 0\<rparr>, si_value = 50, si_state = InMempool\<rparr>"

definition demo_status :: Status where
  "demo_status = \<lparr>st_confirmed = ([demo_funded], []), st_mempool = ([demo_change], [demo_spend]),
     st_txn_fees = [(replicate 32 2, 20)]\<rparr>"

lemmas demo_status_defs = demo_status_def demo_funded_def demo_change_def demo_spend_def

lemma demo_status_low: "low_heights demo_status"
  by (simp add: low_heights_def st_funding_def st_spending_def demo_status_defs)

lemma demo_status_consistent: "consistent demo_status"
  by (simp add: consistent_def st_funding_def st_spending_def demo_status_defs)

definition rev_runtime :: runtime where
  "rev_runtime = std_runtime\<lparr>iter_txns := rev, iter_outputs := rev\<rparr>"

lemma rev_runtime_laws: "runtime_laws rev_runtime"
proof (unfold_locales, goal_cases)
  case 4
  then show ?case using stdrt.txid_less_trans by (simp add: rev_runtime_def)
next
  case 6
  then show ?case using stdrt.txid_hex_inj by (simp add: rev_runtime_def)
qed (use stdrt.txid_less_linear stdrt.txid_less_irrefl stdrt.txid_hex_no_colon in \<open>auto simp: rev_runtime_def\<close>)

text \<open>C38: The history of a script hash does not depend on the iteration order of the hash map it is
  collected in, as long as confirmed heights are below the offset \<^verbatim>\<open>0xEEEEEE\<close>: it lists each
  transaction that funds or spends exactly once, confirmed transactions first and by height.\<close>

theorem history_determined:
  assumes "runtime_laws R" "runtime_laws R'" "txid_less R' = txid_less R" "low_heights st"
  shows "history R st = history R' st \<and> distinct (map hi_tx_hash (history R st)) \<and>
    hi_tx_hash ` set (history R st) =
      (\<lambda>f. op_txid (fo_funding_output f)) ` set (st_funding st) \<union> si_txn_id ` set (st_spending st) \<and>
    sorted_wrt (\<lambda>a b. 0 < sint (hi_height b) \<longrightarrow> 0 < sint (hi_height a) \<and> sint (hi_height a) \<le> sint (hi_height b))
      (history R st)"
proof (intro conjI)
  have le: "hist_le R' = hist_le R"
    by (simp add: hist_le_def history_cmp_def cmp_txid_def assms(3) fun_eq_iff)
  show "history R st = history R' st"
    using runtime_laws.history_sorted [OF assms(2,4)] runtime_laws.history_mset [OF assms(2), of st]
    by (intro runtime_laws.history_unique [OF assms(1,4)]) (simp_all add: le)
  show "distinct (map hi_tx_hash (history R st))" using assms(1) by (rule runtime_laws.history_txids_distinct)
  show "hi_tx_hash ` set (history R st) =
      (\<lambda>f. op_txid (fo_funding_output f)) ` set (st_funding st) \<union> si_txn_id ` set (st_spending st)"
    unfolding runtime_laws.history_set [OF assms(1)] history_map_keys [symmetric]
    by (simp add: image_image history_item_def)
  have ok: "ok_height (hi_height a)" if "a \<in> set (history R st)" for a
    using that runtime_laws.history_item_ok [OF assms(1,4)] runtime_laws.history_set [OF assms(1)] by blast
  show "sorted_wrt (\<lambda>a b. 0 < sint (hi_height b) \<longrightarrow> 0 < sint (hi_height a) \<and> sint (hi_height a) \<le> sint (hi_height b))
      (history R st)"
  proof (rule sorted_wrt_mono_rel [OF _ runtime_laws.history_sorted [OF assms(1,4)]])
    fix a b assume ab: "a \<in> set (history R st)" "b \<in> set (history R st)" "hist_le R a b"
    have "hkey (hi_height a) \<le> hkey (hi_height b)"
      using ab(3) runtime_laws.hist_le_iff [OF assms(1) ok [OF ab(1)] ok [OF ab(2)]] by auto
    then show "0 < sint (hi_height b) \<longrightarrow> 0 < sint (hi_height a) \<and> sint (hi_height a) \<le> sint (hi_height b)"
      using ok [OF ab(1)] ok [OF ab(2)] by (auto simp: hkey_def ok_height_def split: if_splits)
  qed
qed

theorem history_determined_witness:
  "history std_runtime demo_status = history rev_runtime demo_status \<and>
   hi_tx_hash ` set (history std_runtime demo_status) = {replicate 32 1, replicate 32 2}"
proof -
  have less: "txid_less rev_runtime = txid_less std_runtime" by (simp add: rev_runtime_def)
  have txids: "(\<lambda>f. op_txid (fo_funding_output f)) ` set (st_funding demo_status) \<union> si_txn_id ` set (st_spending demo_status)
      = {replicate 32 1, replicate 32 2}"
    by (auto simp: st_funding_def st_spending_def demo_status_defs)
  show ?thesis
    using history_determined [OF stdrt.runtime_laws_axioms rev_runtime_laws less demo_status_low]
    unfolding txids by blast
qed

lemma unspent_balance:
  assumes "runtime_laws R" "consistent st"
  shows "int (\<Sum>f\<leftarrow>unspent R st. unat (fo_value f)) = sint (confirmed_balance st) + sint (mempool_balance st) \<and>
    set (unspent R st) = {f \<in> set (st_funding st). fo_funding_output f \<notin> si_funding_output ` set (st_spending st)}"
proof
  note sum = runtime_laws.unspent_sum [OF assms]
  have total: "(\<Sum>f\<leftarrow>st_funding st. unat (fo_value f)) < 2 ^ 63" using assms(2) by (simp only: consistent_def)
  let ?F = "\<lambda>fs. \<Sum>f\<leftarrow>fst fs. unat (fo_value f)" and ?S = "\<lambda>fs. \<Sum>s\<leftarrow>snd fs. unat (si_value s)"
  have f: "(\<Sum>f\<leftarrow>st_funding st. unat (fo_value f)) = ?F (st_confirmed st) + ?F (st_mempool st)"
    by (simp add: st_funding_def)
  have s: "(\<Sum>s\<leftarrow>st_spending st. unat (si_value s)) = ?S (st_confirmed st) + ?S (st_mempool st)"
    by (simp add: st_spending_def)
  have "sint (confirmed_balance st) = int (?F (st_confirmed st)) - int (?S (st_confirmed st))"
    unfolding confirmed_balance_def by (rule calc_balance_sint) (use sum total f s in linarith)+
  moreover have "sint (mempool_balance st) = int (?F (st_mempool st)) - int (?S (st_mempool st))"
    unfolding mempool_balance_def by (rule calc_balance_sint) (use sum total f s in linarith)+
  ultimately show "int (\<Sum>f\<leftarrow>unspent R st. unat (fo_value f)) = sint (confirmed_balance st) + sint (mempool_balance st)"
    using sum f s by linarith
  have "set (unspent R st) = set (map snd (unspent_map st))"
    using runtime_laws.unspent_mset [OF assms(1), of st] by (rule mset_eq_setD)
  also have "map snd (unspent_map st) =
      filter (\<lambda>f. fo_funding_output f \<notin> si_funding_output ` set (st_spending st)) (st_funding st)"
    using assms(2) unfolding consistent_def by (intro unspent_map_eq) blast
  finally show "set (unspent R st) = {f \<in> set (st_funding st). fo_funding_output f \<notin> si_funding_output ` set (st_spending st)}"
    by simp
qed

text \<open>The balances add up: for a consistent status the values of the unspent outputs sum to the
  confirmed balance plus the mempool balance, read as signed integers without overflow, and no
  listed output is spent.\<close>

lemma unspent_is_balance:
  assumes "runtime_laws R" "consistent st"
  shows "int (\<Sum>f\<leftarrow>unspent R st. unat (fo_value f)) = sint (confirmed_balance st) + sint (mempool_balance st) \<and>
    set (unspent R st) = {f \<in> set (st_funding st). fo_funding_output f \<notin> si_funding_output ` set (st_spending st)}"
  by (rule unspent_balance [OF assms])

text \<open>C39: The status hash identifies the history: two statuses with the same hash have the same list of
  transaction ids and heights, unless their preimages collide under SHA-256; it is \<^verbatim>\<open>None\<close> exactly for an
  empty history.\<close>

theorem status_hash_identifies:
  assumes "runtime_laws R" "status_hash L R st = status_hash L R st'"
    and "inj_on (lib_sha256 L) {status_preimage R (history R st), status_preimage R (history R st')}"
  shows "map (\<lambda>i. (hi_tx_hash i, hi_height i)) (history R st) =
      map (\<lambda>i. (hi_tx_hash i, hi_height i)) (history R st')"
proof (cases "history R st = [] \<or> history R st' = []")
  case True
  then have "history R st = history R st'"
    using assms(2) unfolding status_hash_def Let_def by (metis option.distinct(1))
  then show ?thesis by (rule arg_cong)
next
  case False
  then have "lib_sha256 L (status_preimage R (history R st)) = lib_sha256 L (status_preimage R (history R st'))"
    using assms(2) unfolding status_hash_def status_preimage_def Let_def by (metis option.inject)
  then have "status_preimage R (history R st) = status_preimage R (history R st')"
    by (rule inj_onD [OF assms(3)]) simp_all
  then show ?thesis by (rule runtime_laws.status_preimage_inj [OF assms(1)])
qed

theorem status_hash_identifies_witness:
  "map (\<lambda>i. (hi_tx_hash i, hi_height i)) (history std_runtime demo_status) =
   map (\<lambda>i. (hi_tx_hash i, hi_height i)) (history std_runtime (demo_status\<lparr>st_txn_fees := []\<rparr>))"
proof (rule status_hash_identifies [OF stdrt.runtime_laws_axioms, where L = std_libs])
  have m: "history_map (demo_status\<lparr>st_txn_fees := []\<rparr>) = history_map demo_status"
    by (simp add: history_map_def st_funding_def st_spending_def)
  have h: "history std_runtime demo_status = sort_by (hist_le std_runtime) (map (history_item demo_status) (history_map demo_status))"
    "history std_runtime (demo_status\<lparr>st_txn_fees := []\<rparr>) =
       sort_by (hist_le std_runtime) (map (history_item (demo_status\<lparr>st_txn_fees := []\<rparr>)) (history_map demo_status))"
    by (simp_all add: history_alt std_runtime_def m)
  have pre: "status_preimage std_runtime (history std_runtime demo_status) =
      status_preimage std_runtime (history std_runtime (demo_status\<lparr>st_txn_fees := []\<rparr>))"
    unfolding h
    by (simp add: history_map_def st_funding_def st_spending_def demo_status_defs sort_by_def hist_le_def
      history_item_def history_cmp_def status_preimage_def hash_part_def cmp_i32_def)
  have ne: "history std_runtime demo_status \<noteq> []" "history std_runtime (demo_status\<lparr>st_txn_fees := []\<rparr>) \<noteq> []"
    unfolding h by (simp_all add: history_map_def st_funding_def st_spending_def demo_status_defs sort_by_def)
  show "status_hash std_libs std_runtime demo_status = status_hash std_libs std_runtime (demo_status\<lparr>st_txn_fees := []\<rparr>)"
    using pre ne by (simp add: status_hash_def status_preimage_def Let_def)
  show "inj_on (lib_sha256 std_libs) {status_preimage std_runtime (history std_runtime demo_status),
      status_preimage std_runtime (history std_runtime (demo_status\<lparr>st_txn_fees := []\<rparr>))}"
    using pre by simp
qed

end
