(* ===== verification/QueryUtil.thy ===== *)
theory QueryUtil
  imports Status DosLimit
begin

text \<open>
  Lookups over the index (\<^verbatim>\<open>src/src/query/queryutil.rs\<close>) and the confirmed and unconfirmed queries
  built on them (\<^verbatim>\<open>query/confirmed.rs\<close>, \<^verbatim>\<open>query/unconfirmed.rs\<close>).  \<open>TxQuery::get\<close> is the argument
  \<open>txget\<close> here; theory TxQuery defines it.  A timeout is checked against the clock at the points
  of the type \<open>checkpoint\<close>: the argument \<open>tmo\<close> is the outcome at each of them.  The parallel
  iterators of rayon collect in order; when several items fail the model reports the first.  The
  timers are not modelled.
\<close>

section \<open>The code\<close>

type_synonym tx_getter = "Txid \<Rightarrow> BlockHash option \<Rightarrow> u32 option \<Rightarrow> Transaction result"

datatype checkpoint =
    OutRowCheck TxOutRow TxRow
  | SpendingCheck OutPoint Transaction
  | PrevoutCheck OutPoint TxRow
  | FundingCheck FullHash
  | FundingItemCheck OutPoint
  | UtxoCheck Txid

type_synonym timeout = "checkpoint \<Rightarrow> unit result"

definition timeout_at :: "TimeoutTrigger \<Rightarrow> (checkpoint \<Rightarrow> nat) \<Rightarrow> timeout" where
  "timeout_at trigger clock p = timeout_check trigger (clock p)"

definition txrow_by_txid :: "libs \<Rightarrow> ReadStore \<Rightarrow> Txid \<Rightarrow> TxRow option result" where
  "txrow_by_txid L store txid =
     (let key = txrow_filter_full txid in
      case rs_get store key of
        None \<Rightarrow> Inr None
      | Some value \<Rightarrow>
          and_then (txrow_from_row L \<lparr>row_key = key, row_value = value\<rparr>) (\<lambda>r. Inr (Some r)))"

definition txrows_by_prefix :: "libs \<Rightarrow> ReadStore \<Rightarrow> HashPrefix \<Rightarrow> TxRow list result" where
  "txrows_by_prefix L store txid_prefix =
     mapM (txrow_from_row L) (rs_scan store (txrow_filter_prefix txid_prefix))"

definition txoutrows_by_script_hash :: "libs \<Rightarrow> ReadStore \<Rightarrow> Bytes \<Rightarrow> TxOutRow list result" where
  "txoutrows_by_script_hash L store script_hash =
     and_then (txout_filter L script_hash) (\<lambda>f. mapM (txout_from_row L) (rs_scan store f))"

definition txids_by_funding_output :: "libs \<Rightarrow> ReadStore \<Rightarrow> OutPoint \<Rightarrow> HashPrefix list result" where
  "txids_by_funding_output L store prevout =
     mapM (\<lambda>row. and_then (txin_from_row L row) (\<lambda>r. Inr (tir_txid_prefix r)))
       (rs_scan store (txin_filter L prevout))"

text \<open>\<^verbatim>\<open>txn.output.len() - 1\<close> wraps on a transaction without outputs, and the index then is out of bounds.\<close>

definition txn_has_output :: "libs \<Rightarrow> Transaction \<Rightarrow> u32 \<Rightarrow> HashPrefix \<Rightarrow> bool result" where
  "txn_has_output L txn n scripthash_prefix =
     (if tx_output txn = [] then Inl (Panic ''index out of bounds'')
      else if length (tx_output txn) - 1 < unat n then Inr False
      else and_then (hash_prefix (compute_script_hash L (script_pubkey (tx_output txn ! unat n))))
        (\<lambda>p. Inr (p = scripthash_prefix)))"

fun lookup_loop :: "libs \<Rightarrow> TxOutRow \<Rightarrow> u32 \<Rightarrow> tx_getter \<Rightarrow> timeout \<Rightarrow> TxRow list \<Rightarrow> TxRow result" where
  "lookup_loop L txout output_index txget tmo [] = bail ''tx not in store''"
| "lookup_loop L txout output_index txget tmo (txrow # txrows) =
     and_then (tmo (OutRowCheck txout txrow)) (\<lambda>_.
     and_then (txget (get_txid txrow) None (Some (txr_height txrow))) (\<lambda>tx.
     and_then (txn_has_output L tx output_index (tok_script_hash_prefix (tor_key txout))) (\<lambda>has.
       if has then Inr txrow else lookup_loop L txout output_index txget tmo txrows)))"

definition lookup_tx_by_outrow :: "libs \<Rightarrow> ReadStore \<Rightarrow> TxOutRow \<Rightarrow> tx_getter \<Rightarrow> timeout \<Rightarrow> TxRow result" where
  "lookup_tx_by_outrow L store txout txget tmo =
     and_then (txrows_by_prefix L store (tor_txid_prefix txout)) (\<lambda>txrows.
       if length txrows = 1 then Inr (hd txrows)
       else and_then (get_output_index L txout) (\<lambda>output_index.
         lookup_loop L txout output_index txget tmo txrows))"

definition confirmation_state :: "'f Tracker option \<Rightarrow> Txid \<Rightarrow> u32 \<Rightarrow> ConfirmationState" where
  "confirmation_state mempool txid height =
     (case mempool of
        None \<Rightarrow> Confirmed
      | Some t \<Rightarrow> if height \<noteq> MEMPOOL_HEIGHT then Confirmed else tx_confirmation_state t txid (Some height))"

definition txoutrow_to_fundingoutput :: "libs \<Rightarrow> ReadStore \<Rightarrow> TxOutRow \<Rightarrow> 'f Tracker option \<Rightarrow>
    tx_getter \<Rightarrow> timeout \<Rightarrow> FundingOutput result" where
  "txoutrow_to_fundingoutput L store txoutrow mempool txget tmo =
     and_then (lookup_tx_by_outrow L store txoutrow txget tmo) (\<lambda>txrow.
     and_then (get_output_index L txoutrow) (\<lambda>index.
     and_then (get_output_value L txoutrow) (\<lambda>val.
     let txid = get_txid txrow in
     Inr \<lparr>fo_funding_output = \<lparr>op_txid = txid, op_vout = index\<rparr>, fo_height = txr_height txrow,
          fo_value = val, fo_state = confirmation_state mempool txid (txr_height txrow)\<rparr>)))"

text \<open>
  \<^verbatim>\<open>load_txns_by_prefix\<close> is a generator: its items in order, where \<open>Inl\<close> marks the point at which
  reading a row panics.
\<close>

definition load_txns_by_prefix :: "libs \<Rightarrow> ReadStore \<Rightarrow> HashPrefix list \<Rightarrow> tx_getter \<Rightarrow>
    (u32 \<times> Transaction result) result list" where
  "load_txns_by_prefix L store txid_prefixes txget =
     concat (map (\<lambda>txid_prefix.
       case txrows_by_prefix L store txid_prefix of
         Inl e \<Rightarrow> [Inl e]
       | Inr tx_rows \<Rightarrow> map (\<lambda>tx_row. Inr (txr_height tx_row,
           txget (txk_txid (txr_key tx_row)) None (Some (txr_height tx_row)))) tx_rows) txid_prefixes)"

definition spending_of :: "FundingOutput \<Rightarrow> 'f Tracker option \<Rightarrow> Txid \<Rightarrow> u32 \<Rightarrow> SpendingInput" where
  "spending_of funding mempool txid height =
     \<lparr>si_txn_id = txid, si_height = height, si_funding_output = fo_funding_output funding,
      si_value = fo_value funding, si_state = confirmation_state mempool txid height\<rparr>"

fun spending_loop :: "libs \<Rightarrow> FundingOutput \<Rightarrow> 'f Tracker option \<Rightarrow> timeout \<Rightarrow>
    (u32 \<times> Transaction result) result list \<Rightarrow> SpendingInput option result" where
  "spending_loop L funding mempool tmo [] = Inr None"
| "spending_loop L funding mempool tmo (item # items) =
     and_then item (\<lambda>(height, tx).
     and_then tx (\<lambda>tx.
       if list_ex (\<lambda>i. previous_output i = fo_funding_output funding) (tx_input tx)
       then Inr (Some (spending_of funding mempool (lib_txid L tx) height))
       else and_then (tmo (SpendingCheck (fo_funding_output funding) tx)) (\<lambda>_.
         spending_loop L funding mempool tmo items)))"

definition find_spending_input :: "libs \<Rightarrow> ReadStore \<Rightarrow> FundingOutput \<Rightarrow> 'f Tracker option \<Rightarrow>
    tx_getter \<Rightarrow> timeout \<Rightarrow> SpendingInput option result" where
  "find_spending_input L store funding mempool txget tmo =
     and_then (txids_by_funding_output L store (fo_funding_output funding)) (\<lambda>spending_txns.
     and_then (if length spending_txns = 1
               then and_then (txrows_by_prefix L store (hd spending_txns)) (\<lambda>txrows.
                 Inr (if length txrows = 1
                      then Some (spending_of funding mempool (get_txid (hd txrows)) (txr_height (hd txrows)))
                      else None))
               else Inr None) (\<lambda>one_match.
       case one_match of
         Some s \<Rightarrow> Inr (Some s)
       | None \<Rightarrow>
           if spending_txns = [] then Inr None
           else spending_loop L funding mempool tmo (load_txns_by_prefix L store spending_txns txget)))"

text \<open>The position of the first input that spends \<open>prevout\<close>.\<close>

fun input_position :: "OutPoint \<Rightarrow> TxIn list \<Rightarrow> nat \<Rightarrow> nat option" where
  "input_position prevout [] n = None"
| "input_position prevout (i # is) n =
     (if previous_output i = prevout then Some n else input_position prevout is (n + 1))"

fun prevout_txrows :: "libs \<Rightarrow> OutPoint \<Rightarrow> tx_getter \<Rightarrow> timeout \<Rightarrow> Row list \<Rightarrow> (Transaction \<times> u32 \<times> u32) option result" where
  "prevout_txrows L prevout txget tmo [] = Inr None"
| "prevout_txrows L prevout txget tmo (row # rows) =
     and_then (txrow_from_row L row) (\<lambda>txrow.
     and_then (txget (get_txid txrow) None (Some (txr_height txrow))) (\<lambda>tx.
     case input_position prevout (tx_input tx) 0 of
       Some n \<Rightarrow> Inr (Some (tx, of_nat n, if txr_height txrow = MEMPOOL_HEIGHT then 0 else txr_height txrow))
     | None \<Rightarrow> and_then (tmo (PrevoutCheck prevout txrow)) (\<lambda>_. prevout_txrows L prevout txget tmo rows)))"

fun prevout_inrows :: "libs \<Rightarrow> ReadStore \<Rightarrow> OutPoint \<Rightarrow> tx_getter \<Rightarrow> timeout \<Rightarrow> Row list \<Rightarrow>
    (Transaction \<times> u32 \<times> u32) option result" where
  "prevout_inrows L store prevout txget tmo [] = Inr None"
| "prevout_inrows L store prevout txget tmo (row # rows) =
     and_then (txin_from_row L row) (\<lambda>inrow.
     and_then (prevout_txrows L prevout txget tmo
         (rs_scan store (txrow_filter_prefix (tir_txid_prefix inrow)))) (\<lambda>found.
       case found of
         Some f \<Rightarrow> Inr (Some f)
       | None \<Rightarrow> prevout_inrows L store prevout txget tmo rows))"

definition get_tx_spending_prevout :: "libs \<Rightarrow> ReadStore \<Rightarrow> tx_getter \<Rightarrow> timeout \<Rightarrow> OutPoint \<Rightarrow>
    (Transaction \<times> u32 \<times> u32) option result" where
  "get_tx_spending_prevout L store txget tmo prevout =
     prevout_inrows L store prevout txget tmo (rs_scan store (txin_filter L prevout))"

section \<open>Confirmed and unconfirmed queries\<close>

definition confirmed_get_funding :: "libs \<Rightarrow> ReadStore \<Rightarrow> FullHash \<Rightarrow> tx_getter \<Rightarrow> timeout \<Rightarrow>
    FundingOutput list result" where
  "confirmed_get_funding L store scripthash txget tmo =
     and_then (txoutrows_by_script_hash L store scripthash) (\<lambda>funding.
     and_then (tmo (FundingCheck scripthash)) (\<lambda>_.
     mapM (\<lambda>outrow. txoutrow_to_fundingoutput L store outrow (None :: unit Tracker option) txget tmo) funding))"

definition confirmed_get_spending :: "libs \<Rightarrow> ReadStore \<Rightarrow> FundingOutput list \<Rightarrow> tx_getter \<Rightarrow> timeout \<Rightarrow>
    SpendingInput list result" where
  "confirmed_get_spending L store confirmed_funding txget tmo =
     and_then (mapM (\<lambda>f. and_then (tmo (FundingItemCheck (fo_funding_output f))) (\<lambda>_.
         find_spending_input L store f (None :: unit Tracker option) txget tmo)) confirmed_funding)
       (\<lambda>spending. Inr (List.map_filter id spending))"

definition unconfirmed_get_funding :: "libs \<Rightarrow> 'f Tracker \<Rightarrow> FullHash \<Rightarrow> tx_getter \<Rightarrow> timeout \<Rightarrow>
    FundingOutput list result" where
  "unconfirmed_get_funding L tracker scripthash txget tmo =
     and_then (txoutrows_by_script_hash L (tracker_index tracker) scripthash) (\<lambda>funding.
     mapM (\<lambda>outrow. txoutrow_to_fundingoutput L (tracker_index tracker) outrow (Some tracker) txget tmo) funding)"

fun unconfirmed_spending_loop :: "libs \<Rightarrow> 'f Tracker \<Rightarrow> tx_getter \<Rightarrow> timeout \<Rightarrow> FundingOutput list \<Rightarrow>
    SpendingInput list \<Rightarrow> SpendingInput list result" where
  "unconfirmed_spending_loop L tracker txget tmo [] spending = Inr spending"
| "unconfirmed_spending_loop L tracker txget tmo (f # fs) spending =
     and_then (tmo (FundingItemCheck (fo_funding_output f))) (\<lambda>_.
     and_then (find_spending_input L (tracker_index tracker) f (Some tracker) txget tmo) (\<lambda>spent.
     unconfirmed_spending_loop L tracker txget tmo fs
       (case spent of Some s \<Rightarrow> spending @ [s] | None \<Rightarrow> spending)))"

definition unconfirmed_get_spending :: "libs \<Rightarrow> 'f Tracker \<Rightarrow> FundingOutput list \<Rightarrow> FundingOutput list \<Rightarrow>
    tx_getter \<Rightarrow> timeout \<Rightarrow> SpendingInput list result" where
  "unconfirmed_get_spending L tracker unconfirmed_funding confirmed_funding txget tmo =
     unconfirmed_spending_loop L tracker txget tmo (unconfirmed_funding @ confirmed_funding) []"

definition get_tx_fees :: "'f Tracker \<Rightarrow> FundingOutput list \<Rightarrow> SpendingInput list \<Rightarrow> (Txid \<times> u64) list" where
  "get_tx_fees tracker funding spending =
     fold (\<lambda>mempool_txid txn_fees.
         case get_fee tracker mempool_txid of
           Some fee \<Rightarrow> AList.update mempool_txid fee txn_fees
         | None \<Rightarrow> txn_fees)
       (map (\<lambda>f. op_txid (fo_funding_output f)) funding @ map si_txn_id spending) []"

section \<open>A store that indexes a set of transactions\<close>

text \<open>
  What the lookups rely on.  The store holds the rows of the transactions \<open>T\<close>, each with its
  height, and rows of other kinds (\<open>X\<close>: headers, the tip marker, cash accounts).  Transactions have
  distinct ids, and no more outputs than a 32-bit index can name.
\<close>

definition tx_rows :: "libs \<Rightarrow> Transaction \<times> u32 \<Rightarrow> Row set" where
  "tx_rows L th = set (txin_rows L (fst th)) \<union> set (txout_rows L (fst th)) \<union>
     {txrow_to_row L (txrow_new (lib_txid L (fst th)) (snd th))}"

definition spends :: "Transaction \<Rightarrow> OutPoint \<Rightarrow> bool" where
  "spends tx po \<longleftrightarrow> po \<in> previous_output ` set (tx_input tx)"

text \<open>No two previous outputs with the same index agree in the first eight bytes of their transaction ids.\<close>

definition prevout_clear :: "(Transaction \<times> u32) set \<Rightarrow> OutPoint \<Rightarrow> bool" where
  "prevout_clear T po \<longleftrightarrow> length (op_txid po) = 32 \<and> op_txid po \<noteq> null_hash \<and>
     (\<forall>th\<in>T. \<forall>i\<in>set (tx_input (fst th)).
        hp (op_txid (previous_output i)) = hp (op_txid po) \<and> op_vout (previous_output i) = op_vout po \<longrightarrow>
        previous_output i = po)"

text \<open>
  For the outputs to a script hash: no output script agrees with it in the first eight bytes of its
  hash alone, and no two transactions agree in those of their ids.
\<close>

definition script_clear :: "libs \<Rightarrow> (Transaction \<times> u32) set \<Rightarrow> FullHash \<Rightarrow> bool" where
  "script_clear L T sh \<longleftrightarrow> length sh = 32 \<and>
     (\<forall>th\<in>T. \<forall>out\<in>set (tx_output (fst th)).
        hp (compute_script_hash L (script_pubkey out)) = hp sh \<longrightarrow>
          compute_script_hash L (script_pubkey out) = sh \<and>
          (\<forall>th'\<in>T. hp (lib_txid L (fst th')) = hp (lib_txid L (fst th)) \<longrightarrow> th' = th))"

text \<open>The outputs to a script hash, as a transaction and a position, and what the queries report of one.\<close>

definition funded :: "libs \<Rightarrow> (Transaction \<times> u32) set \<Rightarrow> FullHash \<Rightarrow> ((Transaction \<times> u32) \<times> nat) set" where
  "funded L T sh = {(th, n). th \<in> T \<and> n < length (tx_output (fst th)) \<and>
     compute_script_hash L (script_pubkey (tx_output (fst th) ! n)) = sh}"

definition funding_of :: "libs \<Rightarrow> 'f Tracker option \<Rightarrow> (Transaction \<times> u32) \<times> nat \<Rightarrow> FundingOutput" where
  "funding_of L mempool = (\<lambda>(th, n).
     \<lparr>fo_funding_output = \<lparr>op_txid = lib_txid L (fst th), op_vout = of_nat n\<rparr>, fo_height = snd th,
      fo_value = out_value (tx_output (fst th) ! n),
      fo_state = confirmation_state mempool (lib_txid L (fst th)) (snd th)\<rparr>)"

definition serves :: "libs \<Rightarrow> tx_getter \<Rightarrow> (Transaction \<times> u32) set \<Rightarrow> bool" where
  "serves L txget T \<longleftrightarrow> (\<forall>th\<in>T. txget (lib_txid L (fst th)) None (Some (snd th)) = Inr (fst th))"

definition no_timeout :: "timeout \<Rightarrow> bool" where
  "no_timeout tmo \<longleftrightarrow> (\<forall>p. tmo p = Inr ())"

definition other_row :: "Row \<Rightarrow> bool" where
  "other_row r \<longleftrightarrow> row_key r \<noteq> [] \<and> hd (row_key r) \<notin> {0x49, 0x4F, 0x54}"

lemma list_in_image: "set ys \<subseteq> f ` A \<Longrightarrow> \<exists>xs. set xs \<subseteq> A \<and> ys = map f xs"
proof (induction ys)
  case (Cons y ys)
  then obtain x xs where "x \<in> A" "y = f x" "set xs \<subseteq> A" "ys = map f xs" by auto
  then show ?case by (intro exI [of _ "x # xs"]) simp
qed simp

lemma other_row_prefix: "other_row r \<Longrightarrow> prefix (c # q) (row_key r) \<Longrightarrow> c \<notin> {0x49, 0x4F, 0x54}"
  by (cases "row_key r") (auto simp: other_row_def)

locale tx_store = codec_laws L for L :: libs +
  fixes rs :: ReadStore and T :: "(Transaction \<times> u32) set" and X :: "Row set"
  assumes scan_rows: "r \<in> set (rs_scan rs p) \<longleftrightarrow> prefix p (row_key r) \<and> (r \<in> X \<or> (\<exists>th\<in>T. r \<in> tx_rows L th))"
    and scan_keys: "distinct (map row_key (rs_scan rs p))"
    and get_row: "rs_get rs k = Some v \<longleftrightarrow> (\<exists>r. r \<in> set (rs_scan rs k) \<and> row_key r = k \<and> row_value r = v)"
    and others: "r \<in> X \<Longrightarrow> other_row r"
    and txids_unique: "th \<in> T \<Longrightarrow> th' \<in> T \<Longrightarrow> lib_txid L (fst th) = lib_txid L (fst th') \<Longrightarrow> th = th'"
    and wf: "th \<in> T \<Longrightarrow> wf_tx (fst th) \<and> length (tx_output (fst th)) < 4294967296"
begin

definition txrow_of :: "Transaction \<times> u32 \<Rightarrow> TxRow" where
  "txrow_of th = txrow_new (lib_txid L (fst th)) (snd th)"

lemma txrow_of_fields [simp]:
  "get_txid (txrow_of th) = lib_txid L (fst th)" "txk_txid (txr_key (txrow_of th)) = lib_txid L (fst th)"
  "txr_height (txrow_of th) = snd th"
  by (simp_all add: txrow_of_def get_txid_def txrow_new_def)

lemma txrow_of_inj: "th \<in> T \<Longrightarrow> th' \<in> T \<Longrightarrow> txrow_of th = txrow_of th' \<Longrightarrow> th = th'"
  using txids_unique txrow_of_fields(1) by metis

text \<open>The code byte of a filter selects one kind of row.\<close>

lemma scan_T:
  assumes "p = 0x54 # q"
  shows "r \<in> set (rs_scan rs p) \<longleftrightarrow> prefix p (row_key r) \<and> (\<exists>th\<in>T. r = txrow_to_row L (txrow_of th))"
proof -
  have "\<not> prefix p (row_key r)" if "r \<in> X"
    using other_row_prefix [OF others [OF that]] by (auto simp: assms)
  moreover have "\<not> prefix p (row_key r)" if "r \<in> set (txin_rows L tx)" for tx
    using that by (auto simp: txin_rows_def assms row_defs ser_u8)
  moreover have "\<not> prefix p (row_key r)" if "r \<in> set (txout_rows L tx)" for tx
    using that by (auto simp: txout_rows_def assms row_defs ser_u8)
  ultimately show ?thesis unfolding scan_rows tx_rows_def txrow_of_def by blast
qed

lemma scan_O:
  assumes "p = 0x4F # q"
  shows "r \<in> set (rs_scan rs p) \<longleftrightarrow> prefix p (row_key r) \<and> (\<exists>th\<in>T. r \<in> set (txout_rows L (fst th)))"
proof -
  have "\<not> prefix p (row_key r)" if "r \<in> X"
    using other_row_prefix [OF others [OF that]] by (auto simp: assms)
  moreover have "\<not> prefix p (row_key r)" if "r \<in> set (txin_rows L tx)" for tx
    using that by (auto simp: txin_rows_def assms row_defs ser_u8)
  moreover have "\<not> prefix p (row_key r)" if "r = txrow_to_row L (txrow_new t h)" for t h
    using that by (auto simp: assms row_defs ser_u8)
  ultimately show ?thesis unfolding scan_rows tx_rows_def by blast
qed

lemma scan_I:
  assumes "p = 0x49 # q"
  shows "r \<in> set (rs_scan rs p) \<longleftrightarrow> prefix p (row_key r) \<and> (\<exists>th\<in>T. r \<in> set (txin_rows L (fst th)))"
proof -
  have "\<not> prefix p (row_key r)" if "r \<in> X"
    using other_row_prefix [OF others [OF that]] by (auto simp: assms)
  moreover have "\<not> prefix p (row_key r)" if "r \<in> set (txout_rows L tx)" for tx
    using that by (auto simp: txout_rows_def assms row_defs ser_u8)
  moreover have "\<not> prefix p (row_key r)" if "r = txrow_to_row L (txrow_new t h)" for t h
    using that by (auto simp: assms row_defs ser_u8)
  ultimately show ?thesis unfolding scan_rows tx_rows_def by blast
qed

lemma rows_distinct: "distinct (rs_scan rs p)"
  using scan_keys distinct_map by blast

lemma txrow_of_roundtrip: "txrow_from_row L (txrow_to_row L (txrow_of th)) = Inr (txrow_of th)"
  by (rule txrow_roundtrip) (simp add: txid_len)

lemma mapM_map_eq: "(\<And>x. x \<in> set xs \<Longrightarrow> f x = Inr (g x)) \<Longrightarrow> mapM f xs = Inr (map g xs)"
  by (induction xs) auto

lemma txrows_by_prefix_exact:
  assumes "length p = 8"
  shows "\<exists>rows. txrows_by_prefix L rs p = Inr rows \<and> distinct rows \<and>
    set rows = txrow_of ` {th \<in> T. hp (lib_txid L (fst th)) = p}"
proof -
  let ?S = "rs_scan rs (txrow_filter_prefix p)"
  let ?dec = "\<lambda>r. projr (txrow_from_row L r)"
  have f: "txrow_filter_prefix p = 0x54 # p" by (simp add: row_defs)
  have key: "prefix (txrow_filter_prefix p) (row_key (txrow_to_row L (txrow_of th))) \<longleftrightarrow> hp (lib_txid L (fst th)) = p" for th
    using txrow_filter_prefix_iff [OF assms txid_len] by (auto simp: txrow_of_def)
  have mem: "r \<in> set ?S \<longleftrightarrow> (\<exists>th\<in>T. hp (lib_txid L (fst th)) = p \<and> r = txrow_to_row L (txrow_of th))" for r
    unfolding scan_T [OF f] using key by blast
  have inverse: "txrow_from_row L r = Inr (?dec r)" "txrow_to_row L (?dec r) = r" if "r \<in> set ?S" for r
    using that unfolding mem by (auto simp: txrow_of_roundtrip)
  have "txrows_by_prefix L rs p = Inr (map ?dec ?S)"
    unfolding txrows_by_prefix_def using inverse(1) by (rule mapM_map_eq)
  moreover have "distinct (map ?dec ?S)"
    using rows_distinct inverse(2) by (metis (no_types, lifting) distinct_map inj_on_inverseI)
  moreover have "set (map ?dec ?S) = txrow_of ` {th \<in> T. hp (lib_txid L (fst th)) = p}"
  proof -
    have "set ?S = (\<lambda>th. txrow_to_row L (txrow_of th)) ` {th \<in> T. hp (lib_txid L (fst th)) = p}"
      using mem by blast
    then show ?thesis by (simp add: image_image txrow_of_roundtrip)
  qed
  ultimately show ?thesis by blast
qed

definition in_prefixes :: "OutPoint \<Rightarrow> HashPrefix set" where
  "in_prefixes po = {hp (lib_txid L (fst th)) | th. th \<in> T \<and> (\<exists>i\<in>set (tx_input (fst th)).
     op_txid (previous_output i) \<noteq> null_hash \<and>
     hp (op_txid (previous_output i)) = hp (op_txid po) \<and> op_vout (previous_output i) = op_vout po)}"

lemma txin_row_eq:
  assumes "hp (op_txid (previous_output i)) = hp (op_txid po)" "op_vout (previous_output i) = op_vout po"
  shows "txin_to_row L (txin_new L txid i) = \<lparr>row_key = txin_filter L po @ hp txid, row_value = []\<rparr>"
  using assms by (simp add: row_defs ser_array)

lemma scan_in_rows:
  assumes "length (op_txid po) = 32"
  shows "set (rs_scan rs (txin_filter L po)) = (\<lambda>q. \<lparr>row_key = txin_filter L po @ q, row_value = []\<rparr>) ` in_prefixes po"
proof -
  have f: "txin_filter L po = 0x49 # tl (txin_filter L po)" by (simp add: row_defs ser_u8)
  have len: "length (op_txid (previous_output i)) = 32" if "th \<in> T" "i \<in> set (tx_input (fst th))" for th i
    using wf [OF that(1)] that(2) by (simp add: wf_tx_def)
  have "r \<in> set (rs_scan rs (txin_filter L po)) \<longleftrightarrow>
    (\<exists>th\<in>T. \<exists>i\<in>set (tx_input (fst th)). op_txid (previous_output i) \<noteq> null_hash \<and>
       r = txin_to_row L (txin_new L (lib_txid L (fst th)) i) \<and>
       prefix (txin_filter L po) (row_key (txin_to_row L (txin_new L (lib_txid L (fst th)) i))))" for r
    unfolding scan_I [OF f] txin_rows_def set_map set_filter by blast
  then have "r \<in> set (rs_scan rs (txin_filter L po)) \<longleftrightarrow>
    (\<exists>th\<in>T. \<exists>i\<in>set (tx_input (fst th)). op_txid (previous_output i) \<noteq> null_hash \<and>
       hp (op_txid (previous_output i)) = hp (op_txid po) \<and> op_vout (previous_output i) = op_vout po \<and>
       r = \<lparr>row_key = txin_filter L po @ hp (lib_txid L (fst th)), row_value = []\<rparr>)" for r
    using txin_filter_iff [OF assms len] txin_row_eq by metis
  then show ?thesis unfolding in_prefixes_def by blast
qed

lemma txin_row_decode:
  assumes "length (op_txid po) = 32" "length q = 8"
  shows "and_then (txin_from_row L \<lparr>row_key = txin_filter L po @ q, row_value = []\<rparr>) (\<lambda>r. Inr (tir_txid_prefix r)) = Inr q"
proof -
  let ?r = "\<lparr>tir_key = \<lparr>tik_code = code_byte (CHR ''I''), tik_prev_hash_prefix = hp (op_txid po),
      tik_prev_index = encode_varint L (ucast (op_vout po))\<rparr>, tir_txid_prefix = q\<rparr>"
  have "txin_from_row L (txin_to_row L ?r) = Inr ?r"
    using assms by (intro txin_roundtrip) (simp_all add: length_hp encode_varint_def varint_vec_len)
  moreover have "txin_to_row L ?r = \<lparr>row_key = txin_filter L po @ q, row_value = []\<rparr>"
    by (simp add: txin_to_row_def txin_filter_def ser_array)
  ultimately show ?thesis by simp
qed

lemma txids_by_funding_output_exact:
  assumes "length (op_txid po) = 32"
  shows "\<exists>ps. txids_by_funding_output L rs po = Inr ps \<and> distinct ps \<and> set ps = in_prefixes po"
proof -
  let ?S = "rs_scan rs (txin_filter L po)" and ?row = "\<lambda>q. \<lparr>row_key = txin_filter L po @ q, row_value = []\<rparr>"
  let ?q = "\<lambda>r. drop (length (txin_filter L po)) (row_key r)"
  have len: "length q = 8" if "q \<in> in_prefixes po" for q
    using that by (auto simp: in_prefixes_def length_hp txid_len)
  have row: "r = ?row (?q r)" "?q r \<in> in_prefixes po" if "r \<in> set ?S" for r
    using that scan_in_rows [OF assms] by auto
  have dec: "and_then (txin_from_row L r) (\<lambda>r. Inr (tir_txid_prefix r)) = Inr (?q r)" if "r \<in> set ?S" for r
    using txin_row_decode [OF assms len [OF row(2) [OF that]]] row(1) [OF that] by metis
  have "txids_by_funding_output L rs po = Inr (map ?q ?S)"
    unfolding txids_by_funding_output_def using dec by (rule mapM_map_eq)
  moreover have "distinct (map ?q ?S)"
    unfolding distinct_map
    by (intro conjI rows_distinct inj_on_inverseI [where g = ?row]) (rule row(1) [symmetric])
  moreover have "set (map ?q ?S) = in_prefixes po"
    unfolding set_map scan_in_rows [OF assms] by (simp add: image_image)
  ultimately show ?thesis by blast
qed

lemma in_prefixes_clear:
  assumes "prevout_clear T po"
  shows "in_prefixes po = (\<lambda>th. hp (lib_txid L (fst th))) ` {th \<in> T. spends (fst th) po}"
  using assms unfolding in_prefixes_def prevout_clear_def spends_def by fastforce

lemma spending_loop_finds:
  assumes "set ths \<subseteq> T" "th \<in> set ths" "spends (fst th) (fo_funding_output funding)"
    and "\<forall>th'\<in>T. spends (fst th') (fo_funding_output funding) \<longrightarrow> th' = th"
    and "serves L txget T" "no_timeout tmo"
  shows "spending_loop L funding mempool tmo
      (map (\<lambda>th. Inr (snd th, txget (lib_txid L (fst th)) None (Some (snd th)))) ths) =
    Inr (Some (spending_of funding mempool (lib_txid L (fst th)) (snd th)))"
  using assms(1,2)
proof (induction ths)
  case (Cons t ths)
  have get: "txget (lib_txid L (fst t)) None (Some (snd t)) = Inr (fst t)"
    using assms(5) Cons.prems(1) by (auto simp: serves_def)
  have "list_ex (\<lambda>i. previous_output i = fo_funding_output funding) (tx_input (fst t)) \<longleftrightarrow>
      spends (fst t) (fo_funding_output funding)"
    by (simp add: spends_def list_ex_iff image_iff) metis
  also have "\<dots> \<longleftrightarrow> t = th" using assms(3,4) Cons.prems(1) by auto
  finally have ex: "list_ex (\<lambda>i. previous_output i = fo_funding_output funding) (tx_input (fst t)) \<longleftrightarrow> t = th" .
  show ?case
  proof (cases "t = th")
    case True
    then show ?thesis using get ex by simp
  next
    case False
    moreover have "tmo c = Inr ()" for c using assms(6) by (simp add: no_timeout_def)
    ultimately show ?thesis using get ex Cons.IH Cons.prems by simp
  qed
qed simp

lemma load_txns_map:
  assumes "txrows_by_prefix L rs q = Inr rows" "set rows \<subseteq> txrow_of ` T"
  shows "\<exists>ths. set ths \<subseteq> T \<and> rows = map txrow_of ths \<and> load_txns_by_prefix L rs [q] txget =
    map (\<lambda>th. Inr (snd th, txget (lib_txid L (fst th)) None (Some (snd th)))) ths"
proof -
  obtain ths where ths: "set ths \<subseteq> T" "rows = map txrow_of ths"
    using list_in_image [OF assms(2)] by blast
  then show ?thesis
    using assms(1) by (intro exI [of _ ths]) (simp add: load_txns_by_prefix_def)
qed

lemma txids_by_funding_output_clear:
  assumes "prevout_clear T po"
  shows "\<exists>ps. txids_by_funding_output L rs po = Inr ps \<and> distinct ps \<and>
    set ps = (\<lambda>th. hp (lib_txid L (fst th))) ` {th \<in> T. spends (fst th) po}"
proof -
  have "length (op_txid po) = 32" using assms by (simp only: prevout_clear_def)
  from txids_by_funding_output_exact [OF this] show ?thesis unfolding in_prefixes_clear [OF assms] .
qed

lemma find_spending_none:
  assumes "prevout_clear T (fo_funding_output funding)" "\<forall>th\<in>T. \<not> spends (fst th) (fo_funding_output funding)"
  shows "find_spending_input L rs funding mempool txget tmo = Inr None"
proof -
  obtain ps where ps: "txids_by_funding_output L rs (fo_funding_output funding) = Inr ps"
    "set ps = (\<lambda>th. hp (lib_txid L (fst th))) ` {th \<in> T. spends (fst th) (fo_funding_output funding)}"
    using txids_by_funding_output_clear [OF assms(1)] by blast
  have "set ps = {}" unfolding ps(2) using assms(2) by blast
  then show ?thesis using ps(1) by (simp add: find_spending_input_def)
qed

lemma find_spending_some:
  assumes clear: "prevout_clear T (fo_funding_output funding)"
    and th: "th \<in> T" "spends (fst th) (fo_funding_output funding)"
    and one: "\<forall>th'\<in>T. spends (fst th') (fo_funding_output funding) \<longrightarrow> th' = th"
    and env: "serves L txget T" "no_timeout tmo"
  shows "find_spending_input L rs funding mempool txget tmo =
    Inr (Some (spending_of funding mempool (lib_txid L (fst th)) (snd th)))"
proof -
  let ?po = "fo_funding_output funding"
  obtain ps where ps: "txids_by_funding_output L rs ?po = Inr ps" "distinct ps"
    "set ps = (\<lambda>th. hp (lib_txid L (fst th))) ` {th \<in> T. spends (fst th) ?po}"
    using txids_by_funding_output_clear [OF clear] by blast
  have "{th \<in> T. spends (fst th) ?po} = {th}" using one th by blast
  with ps(3) have "set ps = {hp (lib_txid L (fst th))}" by simp
  then have one_p: "ps = [hp (lib_txid L (fst th))]" using distinct_set_singleton [OF _ ps(2)] by blast
  have q: "length (hp (lib_txid L (fst th))) = 8" by (rule length_hp) (rule txid_len)
  obtain rows where rows: "txrows_by_prefix L rs (hp (lib_txid L (fst th))) = Inr rows"
    "set rows = txrow_of ` {th' \<in> T. hp (lib_txid L (fst th')) = hp (lib_txid L (fst th))}"
    using txrows_by_prefix_exact [OF q] by blast
  have th_row: "txrow_of th \<in> set rows" unfolding rows(2) using th(1) by blast
  show ?thesis
  proof (cases "length rows = 1")
    case True
    then have "rows = [txrow_of th]" using th_row by (cases rows) auto
    then show ?thesis by (simp add: find_spending_input_def ps(1) one_p rows(1))
  next
    case False
    have sub: "set rows \<subseteq> txrow_of ` T" unfolding rows(2) by blast
    obtain ths where ths: "set ths \<subseteq> T" "rows = map txrow_of ths"
      "load_txns_by_prefix L rs ps txget = map (\<lambda>th. Inr (snd th, txget (lib_txid L (fst th)) None (Some (snd th)))) ths"
      using load_txns_map [OF rows(1) sub] unfolding one_p by blast
    have "\<exists>th'\<in>set ths. txrow_of th = txrow_of th'" using th_row unfolding ths(2) by (simp add: image_iff)
    then have mem: "th \<in> set ths" using ths(1) txrow_of_inj [OF th(1)] by blast
    have "spending_loop L funding mempool tmo (load_txns_by_prefix L rs ps txget) =
        Inr (Some (spending_of funding mempool (lib_txid L (fst th)) (snd th)))"
      unfolding ths(3) by (rule spending_loop_finds [OF ths(1) mem th(2) one env])
    then show ?thesis using False by (simp add: find_spending_input_def ps(1) one_p rows(1))
  qed
qed

definition outrow_of :: "(Transaction \<times> u32) \<times> nat \<Rightarrow> TxOutRow" where
  "outrow_of f = txout_new L (lib_txid L (fst (fst f))) (tx_output (fst (fst f)) ! snd f) (of_nat (snd f))"

lemma outrow_of_roundtrip: "txout_from_row L (txout_to_row L (outrow_of f)) = Inr (outrow_of f)"
  unfolding outrow_of_def by (rule txout_new_roundtrip) (rule txid_len)

lemma set_txout_rows:
  "set (txout_rows L tx) = (\<lambda>n. txout_to_row L (outrow_of ((tx, h), n))) ` {..<length (tx_output tx)}"
  by (auto simp: txout_rows_def outrow_of_def in_set_enumerate_eq image_iff)

lemma txoutrows_exact:
  assumes "script_clear L T sh"
  shows "\<exists>rows. txoutrows_by_script_hash L rs sh = Inr rows \<and> distinct rows \<and> set rows = outrow_of ` funded L T sh"
proof -
  have len: "length sh = 32" using assms by (simp only: script_clear_def)
  let ?S = "rs_scan rs (0x4F # hp sh)" and ?dec = "\<lambda>r. projr (txout_from_row L r)"
  have key: "prefix (0x4F # hp sh) (row_key (txout_to_row L (outrow_of (th, n)))) \<longleftrightarrow>
      compute_script_hash L (script_pubkey (tx_output (fst th) ! n)) = sh"
    if "th \<in> T" "n < length (tx_output (fst th))" for th n
    unfolding outrow_of_def txout_filter_iff [OF len]
    using assms that unfolding script_clear_def by (auto dest: nth_mem)
  have "set ?S = (\<lambda>f. txout_to_row L (outrow_of f)) ` funded L T sh" (is "_ = ?R")
  proof (intro set_eqI iffI)
    fix r assume "r \<in> set ?S"
    then obtain th where th: "prefix (0x4F # hp sh) (row_key r)" "th \<in> T" "r \<in> set (txout_rows L (fst th))"
      unfolding scan_O [OF refl] by blast
    then obtain n where "n < length (tx_output (fst th))" "r = txout_to_row L (outrow_of (th, n))"
      unfolding set_txout_rows [of "fst th" "snd th"] by auto
    with th key [of th n] show "r \<in> ?R" unfolding funded_def by blast
  next
    fix r assume "r \<in> ?R"
    then obtain th n where f: "th \<in> T" "n < length (tx_output (fst th))"
      "compute_script_hash L (script_pubkey (tx_output (fst th) ! n)) = sh" "r = txout_to_row L (outrow_of (th, n))"
      unfolding funded_def by blast
    then have "r \<in> set (txout_rows L (fst th))"
      unfolding set_txout_rows [of "fst th" "snd th"] by auto
    then show "r \<in> set ?S" unfolding scan_O [OF refl] using key [OF f(1,2)] f by blast
  qed
  then have dec: "txout_from_row L r = Inr (?dec r)" "txout_to_row L (?dec r) = r" if "r \<in> set ?S" for r
    using that by (auto simp: outrow_of_roundtrip)
  have "txoutrows_by_script_hash L rs sh = Inr (map ?dec ?S)"
    unfolding txoutrows_by_script_hash_def txout_filter_eq [OF len] and_then_Inr using dec(1) by (rule mapM_map_eq)
  moreover have "distinct (map ?dec ?S)"
    unfolding distinct_map by (intro conjI rows_distinct inj_on_inverseI [where g = "txout_to_row L"]) (rule dec(2))
  moreover have "set (map ?dec ?S) = outrow_of ` funded L T sh"
    unfolding set_map \<open>set ?S = ?R\<close> by (simp add: image_image outrow_of_roundtrip)
  ultimately show ?thesis by blast
qed

lemma ucast_index: "n < 4294967296 \<Longrightarrow> (ucast (of_nat n :: u64) :: u32) = of_nat n"
proof -
  assume n: "n < 4294967296"
  then have "unat (of_nat n :: u64) = n" "unat (of_nat n :: u32) = n" by (simp_all add: unat_of_nat)
  then show ?thesis using unat_ucast_u64_u32 [of "of_nat n"] n by (simp add: word_unat_eq_iff)
qed

lemma funding_row:
  assumes "script_clear L T sh" "f \<in> funded L T sh"
  shows "txoutrow_to_fundingoutput L rs (outrow_of f) mempool txget tmo = Inr (funding_of L mempool f)"
proof -
  obtain th n where f: "f = (th, n)" "th \<in> T" "n < length (tx_output (fst th))"
    "compute_script_hash L (script_pubkey (tx_output (fst th) ! n)) = sh"
    using assms(2) unfolding funded_def by blast
  have q: "length (hp (lib_txid L (fst th))) = 8" by (rule length_hp) (rule txid_len)
  obtain rows where rows: "txrows_by_prefix L rs (hp (lib_txid L (fst th))) = Inr rows" "distinct rows"
    "set rows = txrow_of ` {th' \<in> T. hp (lib_txid L (fst th')) = hp (lib_txid L (fst th))}"
    using txrows_by_prefix_exact [OF q] by blast
  have "{th' \<in> T. hp (lib_txid L (fst th')) = hp (lib_txid L (fst th))} = {th}"
    using assms(1) f nth_mem [OF f(3)] unfolding script_clear_def by blast
  with rows(3) have "set rows = {txrow_of th}" by simp
  then have one: "rows = [txrow_of th]" using rows(2) by (rule distinct_set_singleton)
  have "tor_txid_prefix (outrow_of f) = hp (lib_txid L (fst th))" by (simp add: outrow_of_def txout_new_def f(1))
  then have "lookup_tx_by_outrow L rs (outrow_of f) txget tmo = Inr (txrow_of th)"
    by (simp add: lookup_tx_by_outrow_def rows(1) one)
  moreover have "get_output_index L (outrow_of f) = Inr (of_nat n)"
    using f(3) wf [OF f(2)] ucast_index [of n] by (simp add: outrow_of_def txout_new_fields f(1))
  moreover have "get_output_value L (outrow_of f) = Inr (out_value (tx_output (fst th) ! n))"
    by (simp add: outrow_of_def txout_new_fields f(1))
  ultimately show ?thesis by (simp add: txoutrow_to_fundingoutput_def funding_of_def f(1) Let_def)
qed

lemma funding_outpoint_inj:
  assumes "f \<in> funded L T sh" "g \<in> funded L T sh'"
    "fo_funding_output (funding_of L m f) = fo_funding_output (funding_of L m' g)"
  shows "f = g"
proof -
  obtain th n where f: "f = (th, n)" "th \<in> T" "n < length (tx_output (fst th))"
    using assms(1) unfolding funded_def by blast
  obtain th' n' where g: "g = (th', n')" "th' \<in> T" "n' < length (tx_output (fst th'))"
    using assms(2) unfolding funded_def by blast
  have "lib_txid L (fst th) = lib_txid L (fst th')" and n: "(of_nat n :: u32) = of_nat n'"
    using assms(3) by (simp_all add: funding_of_def f(1) g(1))
  then have "th = th'" using txids_unique f(2) g(2) by blast
  moreover have small: "unat (of_nat k :: u32) = k" if "k < 4294967296" for k using that by (simp add: unat_of_nat)
  have "n < 4294967296" "n' < 4294967296" using wf [OF f(2)] wf [OF g(2)] f(3) g(3) by linarith+
  then have "n = n'" using arg_cong [OF n, of unat] small by metis
  ultimately show ?thesis by (simp add: f(1) g(1))
qed

text \<open>The rows of a script hash, read back: every output to it once.\<close>

lemma funding_exact:
  assumes "script_clear L T sh"
  shows "\<exists>rows fs. txoutrows_by_script_hash L rs sh = Inr rows \<and>
    mapM (\<lambda>row. txoutrow_to_fundingoutput L rs row mempool txget tmo) rows = Inr (map (funding_of L mempool) fs) \<and>
    set fs = funded L T sh \<and> distinct (map (\<lambda>f. fo_funding_output (funding_of L mempool f)) fs)"
proof -
  obtain rows where rows: "txoutrows_by_script_hash L rs sh = Inr rows" "distinct rows"
    "set rows = outrow_of ` funded L T sh"
    using txoutrows_exact [OF assms] by blast
  then obtain fs where fs: "set fs \<subseteq> funded L T sh" "rows = map outrow_of fs"
    using list_in_image [of rows outrow_of "funded L T sh"] by blast
  note row = funding_row [OF assms, of _ mempool txget tmo]
  have "f \<in> set fs" if f: "f \<in> funded L T sh" for f
  proof -
    have "outrow_of f \<in> outrow_of ` set fs" using rows(3) f unfolding fs(2) set_map by blast
    then obtain g where g: "g \<in> set fs" "outrow_of f = outrow_of g" by blast
    then have "funding_of L mempool f = funding_of L mempool g"
      using row [OF f] row [of g] fs(1) by (metis subsetD sum.inject(2))
    then show ?thesis using funding_outpoint_inj [OF f, of g sh mempool mempool] g(1) fs(1) by auto
  qed
  then have set_fs: "set fs = funded L T sh" using fs(1) by blast
  have "distinct fs" using rows(2) unfolding fs(2) distinct_map by blast
  moreover have "inj_on (\<lambda>f. fo_funding_output (funding_of L mempool f)) (set fs)"
    unfolding set_fs by (rule inj_onI) (rule funding_outpoint_inj)
  ultimately have "distinct (map (\<lambda>f. fo_funding_output (funding_of L mempool f)) fs)"
    unfolding distinct_map by blast
  moreover have "mapM (\<lambda>row. txoutrow_to_fundingoutput L rs row mempool txget tmo) rows =
      mapM (\<lambda>f. txoutrow_to_fundingoutput L rs (outrow_of f) mempool txget tmo) fs"
    unfolding fs(2) by (induction fs) simp_all
  moreover have "\<dots> = Inr (map (funding_of L mempool) fs)"
    by (rule mapM_map_eq) (use row fs(1) in blast)
  ultimately show ?thesis using rows(1) set_fs by metis
qed

end

end
