(* ===== verification/Indexed.thy ===== *)
theory Indexed
  imports QueryUtil Index
begin

text \<open>
  The two stores of the server provide the contract \<open>tx_store\<close> the lookups rely on: the database,
  whose contents grow by the rows of each indexed block, and the store of the mempool tracker.
\<close>

section \<open>The database\<close>

text \<open>\<open>m\<close> is the contents of the database and \<open>T\<close> the indexed transactions with their heights.\<close>

definition indexed :: "libs \<Rightarrow> (Bytes \<rightharpoonup> Bytes) \<Rightarrow> (Transaction \<times> u32) set \<Rightarrow> bool" where
  "indexed L m T \<longleftrightarrow>
     (\<forall>r. m (row_key r) = Some (row_value r) \<longrightarrow> other_row r \<or> (\<exists>th\<in>T. r \<in> tx_rows L th)) \<and>
     (\<forall>th\<in>T. \<forall>r\<in>tx_rows L th. m (row_key r) = Some (row_value r)) \<and>
     (\<forall>th\<in>T. \<forall>th'\<in>T. lib_txid L (fst th) = lib_txid L (fst th') \<longrightarrow> th = th') \<and>
     (\<forall>th\<in>T. wf_tx (fst th) \<and> length (tx_output (fst th)) < 4294967296)"

definition other_rows :: "(Bytes \<rightharpoonup> Bytes) \<Rightarrow> Row set" where
  "other_rows m = {r. m (row_key r) = Some (row_value r) \<and> other_row r}"

context read_store
begin

lemma indexed_tx_store:
  assumes "codec_laws L" "invar s" "indexed L (contents s) T"
  shows "tx_store L (rs s) T (other_rows (contents s))"
proof (intro tx_store.intro tx_store_axioms.intro assms(1), goal_cases)
  case (1 r p)
  show ?case unfolding scan_mem [OF assms(2)] other_rows_def
    using assms(3) unfolding indexed_def by blast
next
  case (2 p)
  show ?case using assms(2) by (rule scan_distinct)
next
  case (3 k v)
  have "contents s k = Some v \<longleftrightarrow> (\<exists>r :: Row. contents s (row_key r) = Some (row_value r) \<and> row_key r = k \<and> row_value r = v)"
    by (intro iffI exI [of _ "\<lparr>row_key = k, row_value = v\<rparr>"]) auto
  then show ?case unfolding get_contents [OF assms(2)] scan_mem [OF assms(2)] by auto
qed (use assms(3) in \<open>unfold indexed_def other_rows_def, blast+\<close>)

end

lemma indexed_empty: "\<forall>r. m (row_key r) = Some (row_value r) \<longrightarrow> other_row r \<Longrightarrow> indexed L m {}"
  by (simp add: indexed_def)

text \<open>Writing rows whose values are fixed by their keys.\<close>

lemma map_of_rows:
  assumes "\<And>r q. r \<in> set rows \<Longrightarrow> q \<in> set rows \<Longrightarrow> row_key r = row_key q \<Longrightarrow> row_value r = row_value q"
  shows "map_of (rev (map into_pair rows)) k = Some v \<longleftrightarrow> mk_row (k, v) \<in> set rows"
proof
  have dom: "mk_row (k, w) \<in> set rows" if "map_of (rev (map into_pair rows)) k = Some w" for w
    using map_of_SomeD [OF that] by (metis imageE mk_row_into_pair set_map set_rev)
  then show "map_of (rev (map into_pair rows)) k = Some v \<Longrightarrow> mk_row (k, v) \<in> set rows" .
  assume r: "mk_row (k, v) \<in> set rows"
  then have "(k, v) \<in> set (rev (map into_pair rows))" by (metis image_eqI into_pair_mk_row set_map set_rev)
  then obtain w where w: "map_of (rev (map into_pair rows)) k = Some w"
    by (metis map_of_eq_None_iff fst_conv image_eqI option.exhaust)
  have "row_value (mk_row (k, v)) = row_value (mk_row (k, w))"
    using r dom [OF w] by (rule assms) (simp add: mk_row_def)
  with w show "map_of (rev (map into_pair rows)) k = Some v" by (simp add: mk_row_def)
qed

lemma mapM_mem: "mapM f xs = Inr ys \<Longrightarrow> x \<in> set xs \<Longrightarrow> \<exists>y\<in>set ys. f x = Inr y"
  by (induction xs arbitrary: ys) (auto simp: result_simps)

definition block_txs :: "Block \<Rightarrow> nat \<Rightarrow> (Transaction \<times> u32) set" where
  "block_txs blk h = (\<lambda>tx. (tx, of_nat h)) ` set (txdata blk)"

context codec_laws
begin

lemma tx_rows_value:
  assumes "r \<in> tx_rows L th" "q \<in> tx_rows L th'" "row_key r = row_key q"
    and "lib_txid L (fst th) = lib_txid L (fst th') \<longrightarrow> th = th'"
  shows "row_value r = row_value q"
proof -
  have kind: "hd (row_key r) = 0x54 \<and> r = txrow_to_row L (txrow_new (lib_txid L (fst th)) (snd th)) \<or>
      hd (row_key r) \<noteq> 0x54 \<and> row_value r = []" if "r \<in> tx_rows L th" for r th
    using that by (auto simp: tx_rows_def txin_rows_def txout_rows_def row_defs ser_u8)
  show ?thesis
  proof (cases "hd (row_key r) = 0x54")
    case True
    with kind [OF assms(1)] kind [OF assms(2)] assms(3)
    have r: "r = txrow_to_row L (txrow_new (lib_txid L (fst th)) (snd th))"
      and q: "q = txrow_to_row L (txrow_new (lib_txid L (fst th')) (snd th'))" by auto
    then have "lib_txid L (fst th) = lib_txid L (fst th')" using assms(3) by (simp add: row_defs ser_u8 ser_array)
    then show ?thesis using assms(4) r q by simp
  qed (use kind [OF assms(1)] kind [OF assms(2)] assms(3) in auto)
qed

lemma tx_rows_not_other: "r \<in> tx_rows L th \<Longrightarrow> \<not> other_row r"
  by (auto simp: tx_rows_def txin_rows_def txout_rows_def row_defs ser_u8 other_row_def)

lemma index_block_rows:
  assumes "index_block L blk h ca = Inr rows" "r \<in> set rows"
  shows "r = block_row L blk \<or> row_key r \<noteq> [] \<and> hd (row_key r) = 0x43 \<and> row_value r = [] \<or>
    (\<exists>th\<in>block_txs blk h. r \<in> tx_rows L th)"
proof -
  obtain rss where rss: "mapM (\<lambda>txn. index_transaction L txn h (Some ca)) (txdata blk) = Inr rss"
    "rows = concat rss @ [block_row L blk]"
    using assms(1) by (auto simp: index_block_def result_simps)
  have "row_key r \<noteq> [] \<and> hd (row_key r) = 0x43 \<and> row_value r = [] \<or> r \<in> tx_rows L (tx, of_nat h)"
    if i: "index_transaction L tx h (Some ca) = Inr rs" "r \<in> set rs" for tx rs
  proof -
    have "row_key r \<noteq> [] \<and> hd (row_key r) = 0x43 \<and> row_value r = []"
      if "index_cashaccount L ca tx (of_nat h) = Inr (Some r)"
      using that by (auto simp: index_cashaccount_def result_simps row_defs ser_u8 split: if_splits option.splits)
    then show ?thesis
      using i by (auto simp: index_transaction_def result_simps tx_rows_def split: option.splits)
  qed
  then show ?thesis
    using assms(2) mapM_set [OF rss(1)] unfolding rss(2) block_txs_def by fastforce
qed

lemma index_block_all_rows:
  assumes "index_block L blk h ca = Inr rows" "th \<in> block_txs blk h" "r \<in> tx_rows L th"
  shows "r \<in> set rows"
proof -
  obtain rss where rss: "mapM (\<lambda>txn. index_transaction L txn h (Some ca)) (txdata blk) = Inr rss"
    "rows = concat rss @ [block_row L blk]"
    using assms(1) by (auto simp: index_block_def result_simps)
  obtain tx where tx: "tx \<in> set (txdata blk)" "th = (tx, of_nat h)" using assms(2) by (auto simp: block_txs_def)
  obtain rs where rs: "rs \<in> set rss" "index_transaction L tx h (Some ca) = Inr rs"
    using mapM_mem [OF rss(1) tx(1)] by blast
  then have "r \<in> set rs"
    using assms(3) tx(2) by (auto simp: index_transaction_def result_simps tx_rows_def)
  then show ?thesis using rs(1) unfolding rss(2) by auto
qed

text \<open>Indexing a block of new transactions extends the indexed set by them.\<close>

lemma indexed_block:
  assumes m: "indexed L m T" and rows: "index_block L blk h ca = Inr rows"
    and new: "\<forall>th\<in>block_txs blk h. \<forall>th'\<in>T \<union> block_txs blk h. lib_txid L (fst th) = lib_txid L (fst th') \<longrightarrow> th = th'"
    and wf: "\<forall>tx\<in>set (txdata blk). wf_tx tx \<and> length (tx_output tx) < 4294967296"
  shows "indexed L (m ++ map_of (rev (map into_pair rows))) (T \<union> block_txs blk h)"
proof -
  let ?T = "T \<union> block_txs blk h" and ?m = "m ++ map_of (rev (map into_pair rows))"
  have uniq: "lib_txid L (fst th) = lib_txid L (fst th') \<longrightarrow> th = th'" if "th \<in> ?T" "th' \<in> ?T" for th th'
    using that m new unfolding indexed_def by (metis UnE)
  have blk: "hd (row_key (block_row L blk)) = 0x42" "other_row (block_row L blk)"
    by (simp_all add: row_defs ser_u8 other_row_def)
  note parts = index_block_rows [OF rows]
  have kind: "other_row r \<or> (\<exists>th\<in>block_txs blk h. r \<in> tx_rows L th)" if "r \<in> set rows" for r
    using parts [OF that] blk by (auto simp: other_row_def)
  have other_fixed: "row_value r = row_value q"
    if "r \<in> set rows" "q \<in> set rows" "row_key r = row_key q" "other_row r" for r q
  proof -
    have "other_row q" using that(3,4) by (simp add: other_row_def)
    then show ?thesis
      using parts [OF that(1)] parts [OF that(2)] that(3,4) blk(1) tx_rows_not_other by auto
  qed
  have fixed: "row_value r = row_value q" if "r \<in> set rows" "q \<in> set rows" "row_key r = row_key q" for r q
  proof (cases "other_row r")
    case False
    then have "\<not> other_row q" using that(3) by (simp add: other_row_def)
    then show ?thesis using False kind [OF that(1)] kind [OF that(2)] tx_rows_value [OF _ _ that(3)] uniq by blast
  qed (use that other_fixed in blast)
  have mem: "map_of (rev (map into_pair rows)) (row_key r) = Some (row_value r) \<longleftrightarrow> r \<in> set rows" for r
    using map_of_rows [of rows, OF fixed] by (metis into_pair_def mk_row_into_pair)
  have old: "?m (row_key r) = Some (row_value r)" if "th \<in> T" "r \<in> tx_rows L th" for r th
  proof (cases "map_of (rev (map into_pair rows)) (row_key r)")
    case None
    then show ?thesis using m that unfolding indexed_def by (simp add: map_add_def)
  next
    case (Some v)
    then have q: "mk_row (row_key r, v) \<in> set rows" using map_of_rows [of rows, OF fixed] by blast
    have "\<not> other_row (mk_row (row_key r, v))" using tx_rows_not_other [OF that(2)] by (simp add: other_row_def)
    then obtain th' where "th' \<in> block_txs blk h" "mk_row (row_key r, v) \<in> tx_rows L th'" using kind [OF q] by blast
    then have "row_value r = row_value (mk_row (row_key r, v))"
      using tx_rows_value [OF that(2), of _ th'] uniq [of th th'] that(1) by simp
    then show ?thesis using Some by (simp add: mk_row_def map_add_def)
  qed
  have "other_row r \<or> (\<exists>th\<in>?T. r \<in> tx_rows L th)" if "?m (row_key r) = Some (row_value r)" for r
    using that mem [of r] kind [of r] m unfolding indexed_def by (fastforce simp: map_add_Some_iff)
  moreover have "?m (row_key r) = Some (row_value r)" if "th \<in> ?T" "r \<in> tx_rows L th" for r th
    using that old mem [of r] index_block_all_rows [OF rows] by (metis UnE map_add_find_right)
  moreover have "wf_tx (fst th) \<and> length (tx_output (fst th)) < 4294967296" if "th \<in> ?T" for th
    using that m wf unfolding indexed_def block_txs_def by fastforce
  ultimately show ?thesis unfolding indexed_def [of L ?m] using uniq by blast
qed

end

section \<open>The mempool\<close>

definition tracked_txs :: "'f Tracker \<Rightarrow> (Transaction \<times> u32) set" where
  "tracked_txs t = (\<lambda>p. (it_tx (snd p), MEMPOOL_HEIGHT)) ` set (tk_items t)"

definition tracked_wf :: "'f Tracker \<Rightarrow> bool" where
  "tracked_wf t \<longleftrightarrow> (\<forall>th\<in>tracked_txs t. wf_tx (fst th) \<and> length (tx_output (fst th)) < 4294967296)"

locale tracked_mempool = codec_laws L for L :: libs +
  fixes t :: "'f Tracker"
  assumes tracker_ok: "tracker_ok L t" and tracker_wf: "tracked_wf t"

sublocale tracked_mempool \<subseteq> mp: tx_store L "tracker_index t" "tracked_txs t" "{}"
proof (unfold_locales, goal_cases)
  case (1 r p)
  have d: "distinct (map fst (tk_items t))" using tracker_ok by (simp only: tracker_ok_def)
  have rows: "tx_rows L (tx, MEMPOOL_HEIGHT) = set (mp_rows L tx)" for tx
    by (simp add: tx_rows_def mp_rows_def Un_assoc)
  have "(\<exists>txid it. map_of (tk_items t) txid = Some it \<and> r \<in> set (mp_rows L (it_tx it))) \<longleftrightarrow>
      (\<exists>th\<in>tracked_txs t. r \<in> tx_rows L th)"
    using d by (auto simp: tracked_txs_def rows; force | blast)
  then show ?case unfolding tracker_index_rows [OF tracker_ok] by simp
next
  case (2 p)
  have "mempool_invar (tk_index t)" using tracker_ok mp_repr_invar by (auto simp: tracker_ok_def)
  then show ?case unfolding tracker_index_def by (rule mps.scan_distinct)
next
  case (3 k v)
  have inv: "mempool_invar (tk_index t)" using tracker_ok mp_repr_invar by (auto simp: tracker_ok_def)
  have "mempool_contents (tk_index t) k = Some v \<longleftrightarrow>
      (\<exists>r :: Row. mempool_contents (tk_index t) (row_key r) = Some (row_value r) \<and> row_key r = k \<and> row_value r = v)"
    by (intro iffI exI [of _ "\<lparr>row_key = k, row_value = v\<rparr>"]) auto
  then show ?case unfolding tracker_index_def mps.get_contents [OF inv] mps.scan_mem [OF inv] by auto
next
  case (5 th th')
  then obtain p p' where "p \<in> set (tk_items t)" "p' \<in> set (tk_items t)"
    "th = (it_tx (snd p), MEMPOOL_HEIGHT)" "th' = (it_tx (snd p'), MEMPOOL_HEIGHT)" by (auto simp: tracked_txs_def)
  moreover from this 5(3) have "fst p = fst p'" using tracker_ok by (auto simp: tracker_ok_def)
  moreover have "distinct (map fst (tk_items t))" using tracker_ok by (simp only: tracker_ok_def)
  ultimately show ?case by (metis eq_key_imp_eq_value prod.collapse)
qed (use tracker_wf in \<open>auto simp: tracked_wf_def\<close>)

context tracked_mempool
begin

lemmas mp_tx_store = mp.tx_store_axioms

end

interpretation fresh_mp: tracked_mempool std_libs "tracker_new :: unit Tracker"
proof (unfold_locales, goal_cases)
  case 1
  show ?case by (rule tracker_new_ok)
qed (simp add: tracked_wf_def tracked_txs_def tracker_new_def)

end
