(* ===== verification/StatusQuery.thy ===== *)
theory StatusQuery
  imports Indexed
begin

text \<open>
  \<^verbatim>\<open>Query::status\<close> and \<^verbatim>\<open>Query::status_mempool\<close> (\<^verbatim>\<open>src/src/query/mod.rs\<close>): the status of a script hash
  composed from the database, the mempool and the transaction lookups, and its meaning in terms of
  the indexed and tracked transactions.
\<close>

section \<open>The code\<close>

definition status_mempool :: "libs \<Rightarrow> ReadStore \<Rightarrow> 'f Tracker \<Rightarrow> FullHash \<Rightarrow> tx_getter \<Rightarrow> timeout \<Rightarrow> Status result" where
  "status_mempool L store tracker scripthash txget tmo =
     and_then (chain_err (Msg ''failed to get confirmed funding status'')
       (confirmed_get_funding L store scripthash txget tmo)) (\<lambda>confirmed_funding.
     and_then (chain_err (Msg ''failed to get unconfirmed spending status'')
       (unconfirmed_get_funding L tracker scripthash txget tmo)) (\<lambda>unconfirmed_funding.
     and_then (chain_err (Msg ''failed to get unconfirmed spending status'')
       (unconfirmed_get_spending L tracker confirmed_funding unconfirmed_funding txget tmo)) (\<lambda>unconfirmed_spending.
     Inr \<lparr>st_confirmed = ([], []), st_mempool = (unconfirmed_funding, unconfirmed_spending),
          st_txn_fees = get_tx_fees tracker unconfirmed_funding unconfirmed_spending\<rparr>)))"

definition status :: "libs \<Rightarrow> ReadStore \<Rightarrow> 'f Tracker \<Rightarrow> FullHash \<Rightarrow> tx_getter \<Rightarrow> timeout \<Rightarrow> Status result" where
  "status L store tracker scripthash txget tmo =
     and_then (chain_err (Msg ''failed to get confirmed funding status'')
       (confirmed_get_funding L store scripthash txget tmo)) (\<lambda>confirmed_funding.
     and_then (chain_err (Msg ''failed to get confirmed spending status'')
       (confirmed_get_spending L store confirmed_funding txget tmo)) (\<lambda>confirmed_spending.
     and_then (chain_err (Msg ''failed to get unconfirmed spending status'')
       (unconfirmed_get_funding L tracker scripthash txget tmo)) (\<lambda>unconfirmed_funding.
     and_then (chain_err (Msg ''failed to get unconfirmed spending status'')
       (unconfirmed_get_spending L tracker confirmed_funding unconfirmed_funding txget tmo)) (\<lambda>unconfirmed_spending.
     Inr \<lparr>st_confirmed = (confirmed_funding, confirmed_spending),
          st_mempool = (unconfirmed_funding, unconfirmed_spending),
          st_txn_fees = get_tx_fees tracker unconfirmed_funding unconfirmed_spending\<rparr>))))"

section \<open>Spending queries over a list of outputs\<close>

definition spent_in :: "(Transaction \<times> u32) set \<Rightarrow> OutPoint \<Rightarrow> bool" where
  "spent_in T po \<longleftrightarrow> (\<exists>th\<in>T. spends (fst th) po)"

abbreviation out_val :: "FundingOutput \<Rightarrow> OutPoint \<times> u64" where
  "out_val f \<equiv> (fo_funding_output f, fo_value f)"

abbreviation in_val :: "SpendingInput \<Rightarrow> OutPoint \<times> u64" where
  "in_val s \<equiv> (si_funding_output s, si_value s)"

definition spent_once :: "(Transaction \<times> u32) set \<Rightarrow> bool" where
  "spent_once T \<longleftrightarrow> (\<forall>po. \<forall>th\<in>T. \<forall>th'\<in>T. spends (fst th) po \<and> spends (fst th') po \<longrightarrow> th = th')"

context tx_store
begin

lemma find_spending_result:
  assumes "prevout_clear T (fo_funding_output f)" "spent_once T" "serves L txget T" "no_timeout tmo"
  shows "\<exists>x. find_spending_input L rs f mempool txget tmo = Inr x \<and>
    (case x of Some s \<Rightarrow> spent_in T (fo_funding_output f) \<and> in_val s = out_val f
     | None \<Rightarrow> \<not> spent_in T (fo_funding_output f))"
proof (cases "spent_in T (fo_funding_output f)")
  case True
  then obtain th where th: "th \<in> T" "spends (fst th) (fo_funding_output f)" by (auto simp: spent_in_def)
  then have "\<forall>th'\<in>T. spends (fst th') (fo_funding_output f) \<longrightarrow> th' = th"
    using assms(2) unfolding spent_once_def by blast
  with assms th have "find_spending_input L rs f mempool txget tmo =
      Inr (Some (spending_of f mempool (lib_txid L (fst th)) (snd th)))"
    by (intro find_spending_some)
  then show ?thesis using True
    by (intro exI [of _ "Some (spending_of f mempool (lib_txid L (fst th)) (snd th))"]) (simp add: spending_of_def)
next
  case False
  then have "\<forall>th\<in>T. \<not> spends (fst th) (fo_funding_output f)" by (auto simp: spent_in_def)
  with assms(1) have "find_spending_input L rs f mempool txget tmo = Inr None" by (rule find_spending_none)
  then show ?thesis using False by (intro exI [of _ None]) simp
qed

lemma spending_list:
  assumes "\<forall>f\<in>set fs. prevout_clear T (fo_funding_output f)" "spent_once T" "serves L txget T" "no_timeout tmo"
  shows "\<exists>xs. mapM (\<lambda>f. find_spending_input L rs f mempool txget tmo) fs = Inr xs \<and>
    map in_val (List.map_filter id xs) = map out_val (filter (\<lambda>f. spent_in T (fo_funding_output f)) fs)"
  using assms(1)
proof (induction fs)
  case (Cons f fs)
  have rest: "\<forall>f\<in>set fs. prevout_clear T (fo_funding_output f)" using Cons.prems by simp
  obtain xs where xs: "mapM (\<lambda>f. find_spending_input L rs f mempool txget tmo) fs = Inr xs"
    "map in_val (List.map_filter id xs) = map out_val (filter (\<lambda>f. spent_in T (fo_funding_output f)) fs)"
    using Cons.IH [OF rest] by blast
  have clear: "prevout_clear T (fo_funding_output f)" using Cons.prems by simp
  obtain x where x: "find_spending_input L rs f mempool txget tmo = Inr x"
    "case x of Some s \<Rightarrow> spent_in T (fo_funding_output f) \<and> in_val s = out_val f
     | None \<Rightarrow> \<not> spent_in T (fo_funding_output f)"
    using find_spending_result [OF clear assms(2-4), of mempool] by blast
  then show ?case
    using xs by (intro exI [of _ "x # xs"]) (cases x; simp add: map_filter_simps id_def)
qed (simp add: map_filter_simps)

end

lemma confirmed_spending_mapM:
  "no_timeout tmo \<Longrightarrow> confirmed_get_spending L store fs txget tmo =
    and_then (mapM (\<lambda>f. find_spending_input L store f (None :: unit Tracker option) txget tmo) fs)
      (\<lambda>xs. Inr (List.map_filter id xs))"
  by (simp add: confirmed_get_spending_def no_timeout_def)

lemma unconfirmed_loop_mapM:
  "no_timeout tmo \<Longrightarrow> unconfirmed_spending_loop L t txget tmo fs acc =
    and_then (mapM (\<lambda>f. find_spending_input L (tracker_index t) f (Some t) txget tmo) fs)
      (\<lambda>xs. Inr (acc @ List.map_filter id xs))"
proof (induction fs arbitrary: acc)
  case (Cons f fs)
  have "tmo c = Inr ()" for c using Cons.prems by (simp add: no_timeout_def)
  then show ?case
    using Cons by (cases "find_spending_input L (tracker_index t) f (Some t) txget tmo")
      (auto simp: and_then_def map_filter_simps split: sum.splits option.splits)
qed (simp add: map_filter_simps)

lemma confirmed_funding_mapM:
  "no_timeout tmo \<Longrightarrow> confirmed_get_funding L store sh txget tmo =
    and_then (txoutrows_by_script_hash L store sh)
      (mapM (\<lambda>row. txoutrow_to_fundingoutput L store row (None :: unit Tracker option) txget tmo))"
  by (simp add: confirmed_get_funding_def no_timeout_def)

section \<open>The status of a script hash\<close>

abbreviation outpoint_of :: "libs \<Rightarrow> (Transaction \<times> u32) \<times> nat \<Rightarrow> OutPoint" where
  "outpoint_of L f \<equiv> \<lparr>op_txid = lib_txid L (fst (fst f)), op_vout = of_nat (snd f)\<rparr>"

abbreviation value_of :: "(Transaction \<times> u32) \<times> nat \<Rightarrow> u64" where
  "value_of f \<equiv> out_value (tx_output (fst (fst f)) ! snd f)"

lemma funding_of_fields:
  "fo_funding_output (funding_of L m f) = outpoint_of L f" "fo_value (funding_of L m f) = value_of f"
  by (simp_all add: funding_of_def case_prod_beta)

text \<open>
  What a chain \<open>T\<close> and a mempool \<open>M\<close> have to be for a script hash: no output is spent twice, the two
  share no transaction, a confirmed transaction does not spend an unconfirmed output, the first
  eight bytes tell the hashes apart, and the total is below \<open>2 ^ 63\<close> satoshi.
\<close>

definition sound_world :: "libs \<Rightarrow> (Transaction \<times> u32) set \<Rightarrow> (Transaction \<times> u32) set \<Rightarrow> FullHash \<Rightarrow> bool" where
  "sound_world L T M sh \<longleftrightarrow> spent_once (T \<union> M) \<and>
     (\<forall>th\<in>T. \<forall>th'\<in>M. lib_txid L (fst th) \<noteq> lib_txid L (fst th')) \<and>
     script_clear L T sh \<and> script_clear L M sh \<and>
     (\<forall>f\<in>funded L T sh. prevout_clear T (outpoint_of L f) \<and> prevout_clear M (outpoint_of L f)) \<and>
     (\<forall>f\<in>funded L M sh. prevout_clear M (outpoint_of L f) \<and> \<not> spent_in T (outpoint_of L f)) \<and>
     (\<Sum>f\<in>funded L T sh. unat (value_of f)) + (\<Sum>f\<in>funded L M sh. unat (value_of f)) < 2 ^ 63"

text \<open>A status built from lists of outputs and of what is spent of them.\<close>

lemma consistent_lists:
  assumes cs: "map in_val cs = map out_val (filter (\<lambda>f. P (fo_funding_output f)) cf)"
    and us: "map in_val us = map out_val (filter (\<lambda>f. Q (fo_funding_output f)) (cf @ uf))"
    and d: "distinct (map fo_funding_output (cf @ uf))"
    and disj: "\<forall>f\<in>set (cf @ uf). \<not> (P (fo_funding_output f) \<and> Q (fo_funding_output f))"
    and uf: "\<forall>f\<in>set uf. \<not> P (fo_funding_output f)"
    and total: "(\<Sum>f\<leftarrow>cf @ uf. unat (fo_value f)) < 2 ^ 63"
    and st: "st_confirmed st = (cf, cs)" "st_mempool st = (uf, us)"
  shows "consistent st"
    and "si_funding_output ` set (st_spending st) =
      {po \<in> fo_funding_output ` set (cf @ uf). P po \<or> Q po}"
proof -
  let ?S = "filter (\<lambda>f. P (fo_funding_output f)) cf @ filter (\<lambda>f. Q (fo_funding_output f)) (cf @ uf)"
  have sp: "map in_val (st_spending st) = map out_val ?S"
    unfolding st_spending_def st map_append fst_conv snd_conv cs us ..
  have fu: "st_funding st = cf @ uf" by (simp add: st_funding_def st)
  have ops: "map si_funding_output (st_spending st) = map fo_funding_output ?S"
    using arg_cong [OF sp, of "map fst"] by (simp del: filter_append map_append add: comp_def)
  have inj: "inj_on fo_funding_output (set (cf @ uf))" and dcu: "distinct (cf @ uf)"
    using d unfolding distinct_map by blast+
  have "distinct ?S" using dcu disj by (auto simp: distinct_filter)
  moreover have "set ?S \<subseteq> set (cf @ uf)" by auto
  ultimately have dist: "distinct (map si_funding_output (st_spending st))"
    unfolding ops distinct_map using inj inj_on_subset by blast
  have "\<exists>f\<in>set (cf @ uf). fo_funding_output f = si_funding_output s \<and> fo_value f = si_value s"
    if "s \<in> set (st_spending st)" for s
  proof -
    have "in_val s \<in> out_val ` set ?S" using that arg_cong [OF sp, of set] unfolding set_map by blast
    then show ?thesis by auto
  qed
  then show "consistent st" unfolding consistent_def fu using d dist total by blast
  have "si_funding_output ` set (st_spending st) = fo_funding_output ` set ?S"
    using arg_cong [OF ops, of set] unfolding set_map .
  also have "\<dots> = {po \<in> fo_funding_output ` set (cf @ uf). P po \<or> Q po}" using uf by auto
  finally show "si_funding_output ` set (st_spending st) = {po \<in> fo_funding_output ` set (cf @ uf). P po \<or> Q po}" .
qed

lemma sum_funded:
  assumes "distinct (map (\<lambda>f. fo_funding_output (funding_of L m f)) fs)"
  shows "(\<Sum>f\<leftarrow>map (funding_of L m) fs. unat (fo_value f)) = (\<Sum>f\<in>set fs. unat (value_of f))"
proof -
  have "distinct fs" using assms unfolding distinct_map by blast
  then have "(\<Sum>f\<leftarrow>fs. unat (value_of f)) = (\<Sum>f\<in>set fs. unat (value_of f))"
    by (rule sum_list_distinct_conv_sum_set)
  then show ?thesis by (simp add: comp_def funding_of_fields)
qed

lemma status_lists:
  assumes db: "tx_store L store T X" and mp: "tx_store L (tracker_index t) M Y"
    and w: "sound_world L T M sh" and env: "serves L txget T" "serves L txget M" "no_timeout tmo"
  shows "\<exists>fs gs cs us. status L store t sh txget tmo =
      Inr \<lparr>st_confirmed = (map (funding_of L (None :: unit Tracker option)) fs, cs),
           st_mempool = (map (funding_of L (Some t)) gs, us),
           st_txn_fees = get_tx_fees t (map (funding_of L (Some t)) gs) us\<rparr> \<and>
    set fs = funded L T sh \<and> distinct (map (\<lambda>f. fo_funding_output (funding_of L (None :: unit Tracker option) f)) fs) \<and>
    set gs = funded L M sh \<and> distinct (map (\<lambda>f. fo_funding_output (funding_of L (Some t) f)) gs) \<and>
    map in_val cs = map out_val (filter (\<lambda>f. spent_in T (fo_funding_output f)) (map (funding_of L (None :: unit Tracker option)) fs)) \<and>
    map in_val us = map out_val (filter (\<lambda>f. spent_in M (fo_funding_output f))
      (map (funding_of L (None :: unit Tracker option)) fs @ map (funding_of L (Some t)) gs))"
proof -
  let ?n = "None :: unit Tracker option"
  have once: "spent_once T" "spent_once M" using w unfolding sound_world_def spent_once_def by blast+
  have clear: "script_clear L T sh" "script_clear L M sh" using w unfolding sound_world_def by blast+
  obtain fs where fs: "confirmed_get_funding L store sh txget tmo = Inr (map (funding_of L ?n) fs)"
    "set fs = funded L T sh" "distinct (map (\<lambda>f. fo_funding_output (funding_of L ?n f)) fs)"
    using tx_store.funding_exact [OF db clear(1), of ?n txget tmo] confirmed_funding_mapM [OF env(3), of L store sh txget]
    by auto
  obtain gs where gs: "unconfirmed_get_funding L t sh txget tmo = Inr (map (funding_of L (Some t)) gs)"
    "set gs = funded L M sh" "distinct (map (\<lambda>f. fo_funding_output (funding_of L (Some t) f)) gs)"
    using tx_store.funding_exact [OF mp clear(2), of "Some t" txget tmo] unfolding unconfirmed_get_funding_def
    by auto
  let ?F = "map (funding_of L ?n) fs" and ?G = "map (funding_of L (Some t)) gs"
  have cT: "\<forall>f\<in>set ?F. prevout_clear T (fo_funding_output f)"
    and cM: "\<forall>f\<in>set (?F @ ?G). prevout_clear M (fo_funding_output f)"
    using w fs(2) gs(2) unfolding sound_world_def by (auto simp: funding_of_fields)
  obtain xs where xs: "mapM (\<lambda>f. find_spending_input L store f ?n txget tmo) ?F = Inr xs"
    "map in_val (List.map_filter id xs) = map out_val (filter (\<lambda>f. spent_in T (fo_funding_output f)) ?F)"
    using tx_store.spending_list [OF db cT once(1) env(1,3), of ?n] by blast
  obtain ys where ys: "mapM (\<lambda>f. find_spending_input L (tracker_index t) f (Some t) txget tmo) (?F @ ?G) = Inr ys"
    "map in_val (List.map_filter id ys) = map out_val (filter (\<lambda>f. spent_in M (fo_funding_output f)) (?F @ ?G))"
    using tx_store.spending_list [OF mp cM once(2) env(2,3), of "Some t"] by blast
  have cs: "confirmed_get_spending L store ?F txget tmo = Inr (List.map_filter id xs)"
    unfolding confirmed_spending_mapM [OF env(3)] xs(1) and_then_Inr ..
  have us: "unconfirmed_get_spending L t ?F ?G txget tmo = Inr (List.map_filter id ys)"
    unfolding unconfirmed_get_spending_def unconfirmed_loop_mapM [OF env(3)] ys(1) and_then_Inr append_Nil ..
  show ?thesis
    by (intro exI [of _ fs] exI [of _ gs] exI [of _ "List.map_filter id xs"] exI [of _ "List.map_filter id ys"] conjI fs gs xs ys)
      (simp only: status_def fs(1) gs(1) cs us chain_err.simps and_then_Inr)
qed

lemma world_not_both:
  assumes "sound_world L T M sh"
  shows "\<not> (spent_in T po \<and> spent_in M po)"
proof
  assume "spent_in T po \<and> spent_in M po"
  then obtain th th' where th: "th \<in> T" "spends (fst th) po" "th' \<in> M" "spends (fst th') po"
    unfolding spent_in_def by blast
  have "spent_once (T \<union> M)" using assms unfolding sound_world_def by blast
  with th have "th = th'" unfolding spent_once_def by blast
  moreover have "lib_txid L (fst th) \<noteq> lib_txid L (fst th')" using assms th(1,3) unfolding sound_world_def by blast
  ultimately show False by blast
qed

lemma world_outpoints:
  assumes "sound_world L T M sh" "f \<in> funded L T sh" "g \<in> funded L M sh"
  shows "outpoint_of L f \<noteq> outpoint_of L g"
proof -
  have "fst f \<in> T" "fst g \<in> M" using assms(2,3) by (auto simp: funded_def)
  then have "lib_txid L (fst (fst f)) \<noteq> lib_txid L (fst (fst g))" using assms(1) unfolding sound_world_def by blast
  then show ?thesis by simp
qed

lemma status_exact:
  assumes db: "tx_store L store T X" and mp: "tx_store L (tracker_index t) M Y"
    and w: "sound_world L T M sh" and env: "serves L txget T" "serves L txget M" "no_timeout tmo"
  shows "\<exists>st. status L store t sh txget tmo = Inr st \<and> consistent st \<and>
    {f \<in> set (st_funding st). fo_funding_output f \<notin> si_funding_output ` set (st_spending st)} =
      funding_of L (None :: unit Tracker option) ` {f \<in> funded L T sh. \<not> spent_in (T \<union> M) (outpoint_of L f)} \<union>
      funding_of L (Some t) ` {f \<in> funded L M sh. \<not> spent_in (T \<union> M) (outpoint_of L f)}"
proof -
  let ?n = "None :: unit Tracker option"
  from status_lists [OF assms] obtain fs gs cs us where st:
    "status L store t sh txget tmo =
      Inr \<lparr>st_confirmed = (map (funding_of L ?n) fs, cs), st_mempool = (map (funding_of L (Some t)) gs, us),
           st_txn_fees = get_tx_fees t (map (funding_of L (Some t)) gs) us\<rparr>" (is "_ = Inr ?st")
    and fs: "set fs = funded L T sh" "distinct (map (\<lambda>f. fo_funding_output (funding_of L ?n f)) fs)"
    and gs: "set gs = funded L M sh" "distinct (map (\<lambda>f. fo_funding_output (funding_of L (Some t) f)) gs)"
    and cs: "map in_val cs = map out_val (filter (\<lambda>f. spent_in T (fo_funding_output f)) (map (funding_of L ?n) fs))"
    and us: "map in_val us = map out_val (filter (\<lambda>f. spent_in M (fo_funding_output f))
      (map (funding_of L ?n) fs @ map (funding_of L (Some t)) gs))"
    by blast
  let ?F = "map (funding_of L ?n) fs" and ?G = "map (funding_of L (Some t)) gs"
  have "fo_funding_output ` set ?F \<inter> fo_funding_output ` set ?G = {}"
    using world_outpoints [OF w] fs(1) gs(1) by (auto simp: funding_of_fields)
  then have d: "distinct (map fo_funding_output (?F @ ?G))"
    using fs(2) gs(2) by (simp add: comp_def image_image)
  have disj: "\<forall>f\<in>set (?F @ ?G). \<not> (spent_in T (fo_funding_output f) \<and> spent_in M (fo_funding_output f))"
    using world_not_both [OF w] by blast
  have uf: "\<forall>f\<in>set ?G. \<not> spent_in T (fo_funding_output f)"
    using w gs(1) unfolding sound_world_def by (auto simp: funding_of_fields)
  have "(\<Sum>f\<leftarrow>?F @ ?G. unat (fo_value f)) = (\<Sum>f\<in>funded L T sh. unat (value_of f)) + (\<Sum>f\<in>funded L M sh. unat (value_of f))"
    unfolding map_append sum_list_append sum_funded [OF fs(2)] sum_funded [OF gs(2)] fs(1) gs(1) ..
  then have total: "(\<Sum>f\<leftarrow>?F @ ?G. unat (fo_value f)) < 2 ^ 63" using w unfolding sound_world_def by linarith
  have c: "st_confirmed ?st = (?F, cs)" "st_mempool ?st = (?G, us)" by simp_all
  note lists = consistent_lists [OF cs us d disj uf total c]
  have fu: "st_funding ?st = ?F @ ?G" by (simp add: st_funding_def)
  have "{f \<in> set (st_funding ?st). fo_funding_output f \<notin> si_funding_output ` set (st_spending ?st)} =
      {f \<in> set (?F @ ?G). \<not> spent_in (T \<union> M) (fo_funding_output f)}"
    unfolding lists(2) fu by (auto simp: spent_in_def)
  also have "\<dots> = funding_of L ?n ` {f \<in> funded L T sh. \<not> spent_in (T \<union> M) (outpoint_of L f)} \<union>
      funding_of L (Some t) ` {f \<in> funded L M sh. \<not> spent_in (T \<union> M) (outpoint_of L f)}"
    unfolding set_append set_map fs(1) gs(1) by (auto simp: funding_of_fields)
  finally show ?thesis using st lists(1) by blast
qed

section \<open>Properties\<close>


text \<open>A database with one indexed block and an empty mempool.\<close>

definition demo_rows :: "Row list" where
  "demo_rows = projr (index_block std_libs demo_genesis 0 (CashAccountParser_new (Some 0)))"

definition demo_db :: "(Bytes \<times> Bytes) list DbStore" where
  "demo_db = dbstore_write btree_db demo_store demo_rows False"

definition demo_coinbase :: Transaction where
  "demo_coinbase = hd (txdata demo_genesis)"

definition demo_script_hash :: FullHash where
  "demo_script_hash = compute_script_hash std_libs [0x51]"

lemma demo_rows_eq: "index_block std_libs demo_genesis 0 (CashAccountParser_new (Some 0)) = Inr demo_rows"
  using demo_block_rows unfolding demo_rows_def by auto

lemma demo_block_txs: "block_txs demo_genesis 0 = {(demo_coinbase, 0)}"
  by (simp add: block_txs_def demo_coinbase_def demo_genesis_def)

lemma demo_coinbase_eq: "demo_coinbase = \<lparr>tx_version = 1, tx_lock_time = 0,
       tx_input = [\<lparr>previous_output = \<lparr>op_txid = null_hash, op_vout = - 1\<rparr>, script_sig = [], sequence = 0\<rparr>],
       tx_output = [\<lparr>out_value = 50, script_pubkey = [0x51]\<rparr>]\<rparr>"
  by (simp add: demo_coinbase_def demo_genesis_def)

lemma demo_db_indexed: "indexed std_libs (map_of (ds_db demo_db)) {(demo_coinbase, 0)}"
proof -
  have inv: "bt_ok (ds_db demo_store)" by (simp add: demo_store_def bt_ok_def)
  have empty: "map_of (ds_db demo_store) = Map.empty" by (simp add: demo_store_def)
  have "indexed std_libs (map_of (ds_db demo_store)) {}" by (rule indexed_empty) (simp add: empty)
  then have "indexed std_libs (map_of (ds_db demo_store) ++ map_of (rev (map into_pair demo_rows)))
      ({} \<union> block_txs demo_genesis 0)"
    by (rule std.indexed_block [OF _ demo_rows_eq])
      (simp_all add: demo_block_txs, simp add: demo_genesis_def wf_tx_def)
  then show ?thesis
    unfolding demo_db_def refdb.dbs.write_contents [OF inv] by (simp add: demo_block_txs)
qed

lemma demo_txid_not_null: "lib_txid std_libs demo_coinbase \<noteq> null_hash"
proof
  assume "lib_txid std_libs demo_coinbase = null_hash"
  then have "last (lib_txid std_libs demo_coinbase) = 0" by (simp add: null_hash_def)
  moreover have "le_bytes 4 0 = [0, 0, 0, 0]" "le_bytes 4 1 = [1, 0, 0, 0]" by code_simp+
  ultimately have "hd (drop 4 (lib_txid std_libs demo_coinbase)) = 1"
    by (simp add: std_libs_def demo_coinbase_eq tx_bytes_def fold32_def)
  then show False using \<open>lib_txid std_libs demo_coinbase = null_hash\<close> by (simp add: null_hash_def)
qed

lemma demo_world: "sound_world std_libs {(demo_coinbase, 0)} {} demo_script_hash"
proof -
  have len: "length demo_script_hash = 32" by (simp add: demo_script_hash_def std.length_script_hash)
  have f: "funded std_libs {(demo_coinbase, 0)} demo_script_hash = {((demo_coinbase, 0), 0)}"
    by (auto simp: funded_def demo_script_hash_def demo_coinbase_eq)
  have c: "script_clear std_libs {(demo_coinbase, 0)} demo_script_hash" "script_clear std_libs {} demo_script_hash"
    using len by (simp_all add: script_clear_def) (simp add: demo_script_hash_def demo_coinbase_eq)
  have p: "prevout_clear {(demo_coinbase, 0)} \<lparr>op_txid = lib_txid std_libs demo_coinbase, op_vout = 0\<rparr>"
    "prevout_clear {} \<lparr>op_txid = lib_txid std_libs demo_coinbase, op_vout = 0\<rparr>"
    using demo_txid_not_null by (simp_all add: prevout_clear_def std.txid_len) (simp add: demo_coinbase_eq)
  have o: "funded std_libs {} demo_script_hash = {}" "spent_once ({(demo_coinbase, 0)} \<union> {})"
    by (auto simp: funded_def spent_once_def)
  show ?thesis unfolding sound_world_def f o(1) using c p o(2) by (simp add: demo_coinbase_eq)
qed


text \<open>C3: Writing the rows of a block of new transactions to a database that indexes \<open>T\<close> gives a database that
  indexes \<open>T\<close> and the transactions of the block at its height, whatever rows they share.\<close>

theorem index_block_extends:
  assumes "codec_laws L" "rocksdb_store D dinv dmap" "dinv (ds_db s)" "indexed L (dmap (ds_db s)) T"
    and "index_block L blk h ca = Inr rows"
    and "\<forall>th\<in>block_txs blk h. \<forall>th'\<in>T \<union> block_txs blk h. lib_txid L (fst th) = lib_txid L (fst th') \<longrightarrow> th = th'"
    and "\<forall>tx\<in>set (txdata blk). wf_tx tx \<and> length (tx_output tx) < 4294967296"
  shows "indexed L (dmap (ds_db (dbstore_write D s rows sync))) (T \<union> block_txs blk h)"
  using codec_laws.indexed_block [OF assms(1,4-7)]
    write_store.write_contents [OF rocksdb_store.dbs_write_store [OF assms(2)] assms(3), of rows sync] by simp

theorem index_block_extends_witness:
  "indexed std_libs (map_of (ds_db (dbstore_write btree_db demo_store demo_rows True))) (block_txs demo_genesis 0)"
proof -
  have "indexed std_libs (map_of (ds_db demo_store)) {}" by (rule indexed_empty) (simp add: demo_store_def)
  from index_block_extends [OF std.codec_laws_axioms refdb.rocksdb_store_axioms _ this demo_rows_eq, of True]
  show ?thesis
    by (simp add: demo_block_txs demo_store_def bt_ok_def) (simp add: demo_genesis_def wf_tx_def)
qed

end
