(* ===== verification/Json.thy ===== *)
theory Json
  imports Scripthash DosLimit
begin

text \<open>
  JSON values as \<^verbatim>\<open>serde_json\<close> has them, with the accessors the server uses, and the argument parsers
  of the RPC handlers (\<^verbatim>\<open>src/src/rpc/parseutil.rs\<close>).  A number is an integer or the bit pattern of
  an \<^verbatim>\<open>f64\<close>; an object is the list of its entries.
\<close>

section \<open>Values\<close>

type_synonym f64 = "64 word"

datatype Value =
    VNull
  | VBool bool
  | VInt int
  | VFloat f64
  | VString string
  | VArray "Value list"
  | VObject "(string \<times> Value) list"

text \<open>Reading and printing of values are the crate's.\<close>

record json_crate =
  js_from_str :: "string \<Rightarrow> Value option"
  js_to_string :: "Value \<Rightarrow> string"

fun as_str :: "Value \<Rightarrow> string option" where
  "as_str (VString s) = Some s"
| "as_str _ = None"

fun as_bool :: "Value \<Rightarrow> bool option" where
  "as_bool (VBool b) = Some b"
| "as_bool _ = None"

fun as_u64 :: "Value \<Rightarrow> u64 option" where
  "as_u64 (VInt n) = (if 0 \<le> n \<and> n < 2 ^ 64 then Some (of_int n) else None)"
| "as_u64 _ = None"

fun as_i64 :: "Value \<Rightarrow> int option" where
  "as_i64 (VInt n) = (if - (2 ^ 63) \<le> n \<and> n < 2 ^ 63 then Some n else None)"
| "as_i64 _ = None"

fun as_array :: "Value \<Rightarrow> Value list option" where
  "as_array (VArray vs) = Some vs"
| "as_array _ = None"

fun as_object :: "Value \<Rightarrow> (string \<times> Value) list option" where
  "as_object (VObject kvs) = Some kvs"
| "as_object _ = None"

text \<open>\<^verbatim>\<open>Value::get\<close> with a string key, and \<^verbatim>\<open>slice::get\<close>.\<close>

definition value_get :: "Value \<Rightarrow> string \<Rightarrow> Value option" where
  "value_get v key = (case as_object v of Some kvs \<Rightarrow> map_of kvs key | None \<Rightarrow> None)"

definition slice_get :: "'a list \<Rightarrow> nat \<Rightarrow> 'a option" where
  "slice_get xs n = (if n < length xs then Some (xs ! n) else None)"

text \<open>\<^verbatim>\<open>json!\<close> of an option.\<close>

definition json_opt :: "('a \<Rightarrow> Value) \<Rightarrow> 'a option \<Rightarrow> Value" where
  "json_opt f x = (case x of Some v \<Rightarrow> f v | None \<Rightarrow> VNull)"

lemma slice_get_simps [simp]:
  "slice_get [] n = None" "slice_get (x # xs) 0 = Some x" "slice_get (x # xs) (Suc n) = slice_get xs n"
  by (simp_all add: slice_get_def)

lemma slice_get_1 [simp]: "slice_get (x # xs) 1 = slice_get xs 0"
  by (simp add: slice_get_def)

section \<open>Arguments of a call\<close>

definition rpc_arg_error :: "string \<Rightarrow> ErrorKind" where
  "rpc_arg_error what = RpcError InvalidParams what"

definition bool_from_value :: "Value option \<Rightarrow> string \<Rightarrow> bool result" where
  "bool_from_value val name =
     and_then (ok_or (rpc_arg_error (''missing '' @ name)) val) (\<lambda>v.
     ok_or (rpc_arg_error (''not a bool '' @ name)) (as_bool v))"

definition bool_from_value_or :: "Value option \<Rightarrow> string \<Rightarrow> bool \<Rightarrow> bool result" where
  "bool_from_value_or val name dflt = (if val = None then Inr dflt else bool_from_value val name)"

definition hash_from_value :: "(string \<Rightarrow> Bytes option) \<Rightarrow> Value option \<Rightarrow> Bytes result" where
  "hash_from_value from_hex val =
     and_then (ok_or (rpc_arg_error ''missing hash'') val) (\<lambda>v.
     and_then (ok_or (rpc_arg_error ''expected hash argument to be a string'') (as_str v)) (\<lambda>hash.
     ok_or (rpc_arg_error ''expected hash argument to be a hex string'') (from_hex hash)))"

definition scripthash_from_value :: "hex_crate \<Rightarrow> Value option \<Rightarrow> FullHash result" where
  "scripthash_from_value X val =
     and_then (ok_or (rpc_arg_error ''missing scripthash'') val) (\<lambda>v.
     and_then (ok_or (rpc_arg_error ''non-string scripthash'') (as_str v)) (\<lambda>script_hash.
     chain_err (rpc_arg_error ''invalid scripthash'') (decode_scripthash X script_hash)))"

definition str_from_value :: "Value option \<Rightarrow> string \<Rightarrow> string result" where
  "str_from_value val name =
     and_then (ok_or (rpc_arg_error (''missing '' @ name)) val) (\<lambda>v.
     ok_or (rpc_arg_error (name @ '' is not a string'')) (as_str v))"

text \<open>\<^verbatim>\<open>usize\<close> has 64 bits.\<close>

definition usize_from_value :: "Value option \<Rightarrow> string \<Rightarrow> nat result" where
  "usize_from_value val name =
     and_then (ok_or (rpc_arg_error (''missing '' @ name)) val) (\<lambda>v.
     and_then (ok_or (rpc_arg_error (''non-integer '' @ name)) (as_u64 v)) (\<lambda>n. Inr (unat n)))"

definition usize_from_value_or :: "Value option \<Rightarrow> string \<Rightarrow> nat \<Rightarrow> nat result" where
  "usize_from_value_or val name dflt = (if val = None then Inr dflt else usize_from_value val name)"

text \<open>A rejected argument is an error with the code \<open>InvalidParams\<close>, never a panic.\<close>

definition arg_rejection :: "'a result \<Rightarrow> bool" where
  "arg_rejection r \<longleftrightarrow> (\<forall>e. r = Inl e \<longrightarrow> (\<exists>what cs. e = Error (RpcError InvalidParams what) cs))"

lemma arg_rejection_ok_or: "arg_rejection (ok_or (rpc_arg_error w) x)"
  by (cases x) (auto simp: arg_rejection_def rpc_arg_error_def)

lemma arg_rejection_and_then:
  "arg_rejection r \<Longrightarrow> (\<And>x. r = Inr x \<Longrightarrow> arg_rejection (f x)) \<Longrightarrow> arg_rejection (and_then r f)"
  by (cases r) (auto simp: arg_rejection_def)

lemma arg_rejection_chain: "\<not> is_panic r \<Longrightarrow> arg_rejection (chain_err (rpc_arg_error w) r)"
proof (cases r)
  case (Inl e)
  then show "\<not> is_panic r \<Longrightarrow> ?thesis"
    by (cases e) (auto simp: arg_rejection_def rpc_arg_error_def)
qed (simp add: arg_rejection_def)

lemma arg_rejection_Inr: "arg_rejection (Inr x)"
  by (simp add: arg_rejection_def)

lemma decode_scripthash_no_panic: "\<not> is_panic (decode_scripthash X s)"
  by (cases "hex_decode X s") (auto simp: decode_scripthash_def full_hash_def HASH_LEN_def)

lemmas arg_rejection_rules = arg_rejection_ok_or arg_rejection_and_then arg_rejection_chain
  arg_rejection_Inr decode_scripthash_no_panic

lemma usize_from_value_rejection: "arg_rejection (usize_from_value v n)"
  unfolding usize_from_value_def by (intro arg_rejection_rules)

lemma str_from_value_rejection: "arg_rejection (str_from_value v n)"
  unfolding str_from_value_def by (intro arg_rejection_rules)

lemma hash_from_value_rejection: "arg_rejection (hash_from_value h v)"
  unfolding hash_from_value_def by (intro arg_rejection_rules)

lemma scripthash_from_value_rejection: "arg_rejection (scripthash_from_value X v)"
  unfolding scripthash_from_value_def by (intro arg_rejection_rules)

lemma bool_from_value_rejection: "arg_rejection (bool_from_value v n)"
  unfolding bool_from_value_def by (intro arg_rejection_rules)

lemma from_value_or_rejection:
  "arg_rejection (usize_from_value_or v n d)" "arg_rejection (bool_from_value_or v n b)"
  by (simp_all add: usize_from_value_or_def bool_from_value_or_def usize_from_value_rejection
      bool_from_value_rejection arg_rejection_Inr)

lemmas from_value_rejections = usize_from_value_rejection str_from_value_rejection hash_from_value_rejection
  scripthash_from_value_rejection bool_from_value_rejection from_value_or_rejection

end
