(* ===== verification/TxQuery.thy ===== *)
theory TxQuery
  imports Json StatusQuery RndCache
begin

text \<open>
  Headers and transactions by id (\<^verbatim>\<open>src/src/query/header.rs\<close>, \<^verbatim>\<open>src/src/query/tx.rs\<close>).  The lookup of a
  transaction goes through the transaction cache, whose state is threaded; an outer \<open>None\<close> would
  mean that the eviction loop of the cache does not return.  The daemon's raw call, the transaction
  codec and the address functions of the \<^verbatim>\<open>bitcoincash\<close> crates are parameters.
\<close>

section \<open>Headers\<close>

definition get_by_txid :: "libs \<Rightarrow> (Txid \<Rightarrow> string) \<Rightarrow> ReadStore \<Rightarrow> Index \<Rightarrow> Txid \<Rightarrow> u32 option \<Rightarrow> HeaderEntry option result" where
  "get_by_txid L to_hex store ix txid blockheight =
     (let load = (\<lambda>height.
        and_then (get_header ix (unat height)) (\<lambda>header.
        and_then (ok_or (Msg (''missing header at height '' @ show_nat (unat height))) header) (\<lambda>h. Inr (Some h))))
      in case blockheight of
        Some height \<Rightarrow> if height = MEMPOOL_HEIGHT then Inr None else load height
      | None \<Rightarrow>
          and_then (txrow_by_txid L store txid) (\<lambda>row.
          and_then (ok_or (Msg (''not indexed tx '' @ to_hex txid)) row) (\<lambda>r. load (txr_height r))))"

definition header_best :: "Index \<Rightarrow> HeaderEntry option" where
  "header_best ix = best_header ix"

definition header_at_height :: "Index \<Rightarrow> nat \<Rightarrow> HeaderEntry option result" where
  "header_at_height ix height = get_header ix height"

definition get_confirmed_height_for_tx :: "libs \<Rightarrow> ReadStore \<Rightarrow> Txid \<Rightarrow> u32 option result" where
  "get_confirmed_height_for_tx L store txid =
     and_then (txrow_by_txid L store txid) (\<lambda>row. Inr (map_option txr_height row))"

section \<open>Transactions\<close>

record tx_codec =
  tx_serialize :: "Transaction \<Rightarrow> Bytes"
  tx_deserialize :: "Bytes \<Rightarrow> Transaction option"

type_synonym raw_call = "Txid \<Rightarrow> BlockHash option \<Rightarrow> bool \<Rightarrow> Value result"

definition load_txn_from_bitcoind :: "tx_codec \<Rightarrow> hex_crate \<Rightarrow> (Txid, u32 \<times> Bytes, 'm) indexmap \<Rightarrow>
    ('r \<Rightarrow> nat \<Rightarrow> nat \<times> 'r) \<Rightarrow> raw_call \<Rightarrow> ('m, 'r) RndCache \<Rightarrow> Txid \<Rightarrow> BlockHash option \<Rightarrow>
    (('m, 'r) RndCache \<times> Transaction) result option" where
  "load_txn_from_bitcoind C X I gen_range raw c txid blockhash =
     (case and_then (raw txid blockhash False) (\<lambda>v.
           and_then (ok_or (Msg ''non-string tx'') (as_str v)) (\<lambda>value_hex.
           and_then (ok_or (Msg ''non-hex tx'') (hex_decode X value_hex)) (\<lambda>serialized_tx.
           and_then (ok_or (Msg ''failed to parse serialized tx'') (tx_deserialize C serialized_tx)) (\<lambda>tx.
           Inr (serialized_tx, tx))))) of
        Inl e \<Rightarrow> Some (Inl e)
      | Inr (serialized_tx, tx) \<Rightarrow>
          map_option (\<lambda>r. and_then r (\<lambda>c'. Inr (c', tx))) (txcache_put I gen_range c txid serialized_tx))"

definition txquery_get :: "libs \<Rightarrow> (Txid \<Rightarrow> string) \<Rightarrow> tx_codec \<Rightarrow> hex_crate \<Rightarrow> (Txid, u32 \<times> Bytes, 'm) indexmap \<Rightarrow>
    ('r \<Rightarrow> nat \<Rightarrow> nat \<times> 'r) \<Rightarrow> raw_call \<Rightarrow> ReadStore \<Rightarrow> Index \<Rightarrow> ('m, 'r) RndCache \<Rightarrow>
    Txid \<Rightarrow> BlockHash option \<Rightarrow> u32 option \<Rightarrow> (('m, 'r) RndCache \<times> Transaction) result option" where
  "txquery_get L to_hex C X I gen_range raw store ix c txid blockhash blockheight =
     (case txcache_get (tx_deserialize C) I c txid of
        Some tx \<Rightarrow> Some (Inr (c, tx))
      | None \<Rightarrow>
          (case (case blockhash of
                   Some hash \<Rightarrow> Inr (Some hash)
                 | None \<Rightarrow>
                     (case get_by_txid L to_hex store ix txid blockheight of
                        Inr header \<Rightarrow> Inr (map_option he_hash header)
                      | Inl (Panic m) \<Rightarrow> Inl (Panic m)
                      | Inl (Error k ks) \<Rightarrow> Inr None)) of
             Inl e \<Rightarrow> Some (Inl e)
           | Inr hash \<Rightarrow> load_txn_from_bitcoind C X I gen_range raw c txid hash))"

definition get_unconfirmed :: "tx_codec \<Rightarrow> hex_crate \<Rightarrow> (Txid, u32 \<times> Bytes, 'm) indexmap \<Rightarrow>
    ('r \<Rightarrow> nat \<Rightarrow> nat \<times> 'r) \<Rightarrow> raw_call \<Rightarrow> ('m, 'r) RndCache \<Rightarrow> Txid \<Rightarrow>
    (('m, 'r) RndCache \<times> Transaction) result option" where
  "get_unconfirmed C X I gen_range raw c txid =
     (case txcache_get (tx_deserialize C) I c txid of
        Some tx \<Rightarrow> Some (Inr (c, tx))
      | None \<Rightarrow> load_txn_from_bitcoind C X I gen_range raw c txid None)"

definition get_confirmation_height :: "libs \<Rightarrow> ReadStore \<Rightarrow> 'f Tracker \<Rightarrow> Txid \<Rightarrow> int option result" where
  "get_confirmation_height L store mempool txid =
     (case tx_confirmation_state mempool txid None of
        InMempool \<Rightarrow> Inr (Some 0)
      | UnconfirmedParent \<Rightarrow> Inr (Some (-1))
      | _ \<Rightarrow> and_then (get_confirmed_height_for_tx L store txid) (\<lambda>h.
               Inr (map_option (\<lambda>height. int (unat height)) h)))"

section \<open>Verbose transactions\<close>

datatype Network = Bitcoin | Testnet | Regtest | Testnet4 | Scalenet

datatype CashAddrNetwork = Main | Test | RegtestAddr

datatype AddressType = P2pkh | P2sh | OtherType

datatype Payload = PubkeyHash Bytes | ScriptHashPayload Bytes | OtherPayload

text \<open>The address functions: the payload, type and standardness of the address of a script, and the encoder.\<close>

record script_crate =
  sc_is_op_return :: "Bytes \<Rightarrow> bool"
  sc_from_script :: "Bytes \<Rightarrow> Network \<Rightarrow> Payload option"
  sc_address_type :: "Payload \<Rightarrow> AddressType option"
  sc_is_standard :: "Payload \<Rightarrow> bool"
  sc_encode :: "Bytes \<Rightarrow> HashType \<Rightarrow> CashAddrNetwork \<Rightarrow> string option"
  sc_asm :: "Bytes \<Rightarrow> string"

definition get_address_type :: "script_crate \<Rightarrow> Bytes \<Rightarrow> Network \<Rightarrow> string option" where
  "get_address_type S script network =
     (if sc_is_op_return S script then Some ''nulldata''
      else case sc_from_script S script network of
        None \<Rightarrow> None
      | Some address \<Rightarrow>
          (case sc_address_type S address of
             Some P2pkh \<Rightarrow> Some ''pubkeyhash''
           | Some P2sh \<Rightarrow> Some ''scripthash''
           | _ \<Rightarrow> if \<not> sc_is_standard S address then Some ''nonstandard'' else None))"

fun cashaddr_network :: "Network \<Rightarrow> CashAddrNetwork" where
  "cashaddr_network Bitcoin = Main"
| "cashaddr_network Testnet = Test"
| "cashaddr_network Regtest = RegtestAddr"
| "cashaddr_network Testnet4 = Test"
| "cashaddr_network Scalenet = Test"

definition get_addresses :: "script_crate \<Rightarrow> Bytes \<Rightarrow> Network \<Rightarrow> string list" where
  "get_addresses S script network =
     (case sc_from_script S script network of
        None \<Rightarrow> []
      | Some (PubkeyHash hash) \<Rightarrow>
          (case sc_encode S hash KeyHash (cashaddr_network network) of Some addr \<Rightarrow> [addr] | None \<Rightarrow> [])
      | Some (ScriptHashPayload hash) \<Rightarrow>
          (case sc_encode S hash ScriptHash (cashaddr_network network) of Some addr \<Rightarrow> [addr] | None \<Rightarrow> [])
      | Some OtherPayload \<Rightarrow> [])"

text \<open>
  \<^verbatim>\<open>value_from_amount\<close>: \<open>coin_div\<close> is the quotient by \<^verbatim>\<open>COIN\<close> that \<^verbatim>\<open>rust_decimal\<close> computes from the
  amount read as an \<^verbatim>\<open>i64\<close>, as the \<^verbatim>\<open>f64\<close> its serialisation gives.
\<close>

definition value_from_amount :: "(int \<Rightarrow> int \<Rightarrow> f64) \<Rightarrow> u64 \<Rightarrow> Value" where
  "value_from_amount decimal_div amount =
     (if amount = 0 then VFloat 0 else VFloat (decimal_div (sint amount) 100000000))"

definition is_coin_base :: "Transaction \<Rightarrow> bool" where
  "is_coin_base tx \<longleftrightarrow> length (tx_input tx) = 1 \<and> is_null_outpoint (previous_output (hd (tx_input tx)))"

definition vin_json :: "script_crate \<Rightarrow> hex_crate \<Rightarrow> (Txid \<Rightarrow> string) \<Rightarrow> Transaction \<Rightarrow> TxIn \<Rightarrow> Value" where
  "vin_json S X to_hex tx txin = VObject [
     (''coinbase'', if is_coin_base tx then VString (hex_encode X (script_sig txin)) else VNull),
     (''sequence'', VInt (uint (sequence txin))),
     (''txid'', VString (to_hex (op_txid (previous_output txin)))),
     (''vout'', VInt (uint (op_vout (previous_output txin)))),
     (''scriptSig'', VObject [
        (''asm'', VString (sc_asm S (script_sig txin))),
        (''hex'', VString (hex_encode X (script_sig txin)))])]"

definition vout_json :: "script_crate \<Rightarrow> hex_crate \<Rightarrow> (int \<Rightarrow> int \<Rightarrow> f64) \<Rightarrow> Network \<Rightarrow> nat \<times> TxOut \<Rightarrow> Value" where
  "vout_json S X decimal_div network = (\<lambda>(n, txout). VObject [
     (''value_satoshi'', VInt (uint (out_value txout))),
     (''value_coin'', value_from_amount decimal_div (out_value txout)),
     (''n'', VInt (int n)),
     (''scriptPubKey'', VObject [
        (''asm'', VString (sc_asm S (script_pubkey txout))),
        (''hex'', VString (hex_encode X (script_pubkey txout))),
        (''type'', VString (case get_address_type S (script_pubkey txout) network of Some t \<Rightarrow> t | None \<Rightarrow> [])),
        (''addresses'', VArray (map VString (get_addresses S (script_pubkey txout) network)))])])"

text \<open>
  \<^verbatim>\<open>get_verbose\<close>: \<^verbatim>\<open>unwrap_or_default\<close> turns a failed header lookup into no header; \<open>txget\<close> is the
  lookup of the transaction.  \<^verbatim>\<open>1 + best.height() - header.height()\<close> is computed on \<^verbatim>\<open>usize\<close>.
\<close>

definition get_verbose :: "libs \<Rightarrow> tx_codec \<Rightarrow> hex_crate \<Rightarrow> script_crate \<Rightarrow> (Txid \<Rightarrow> string) \<Rightarrow> (int \<Rightarrow> int \<Rightarrow> f64) \<Rightarrow>
    Network \<Rightarrow> ReadStore \<Rightarrow> Index \<Rightarrow> tx_getter \<Rightarrow> Txid \<Rightarrow> Value result" where
  "get_verbose L C X S to_hex decimal_div network store ix txget txid =
     and_then (case get_by_txid L to_hex store ix txid None of
         Inl (Panic m) \<Rightarrow> Inl (Panic m) | Inl (Error k ks) \<Rightarrow> Inr None | Inr h \<Rightarrow> Inr h) (\<lambda>header.
     let blocktime = map_option (\<lambda>h. bh_time (he_header h)) header;
         height = map_option he_height header;
         confirmations = (case header of
           Some h \<Rightarrow> map_option (\<lambda>best. (1 + int (he_height best) - int (he_height h)) mod 2 ^ 64) (header_best ix)
         | None \<Rightarrow> None)
     in and_then (txget txid (map_option he_hash header) None) (\<lambda>tx.
     let tx_serialized = tx_serialize C tx in
     Inr (VObject [
       (''blockhash'', json_opt (\<lambda>h. VString (to_hex (he_hash h))) header),
       (''blocktime'', json_opt (\<lambda>t. VInt (uint t)) blocktime),
       (''height'', json_opt (\<lambda>n. VInt (int n)) height),
       (''confirmations'', json_opt VInt confirmations),
       (''hash'', VString (to_hex (lib_txid L tx))),
       (''txid'', VString (to_hex (lib_txid L tx))),
       (''size'', VInt (int (length tx_serialized))),
       (''hex'', VString (hex_encode X tx_serialized)),
       (''locktime'', VInt (uint (tx_lock_time tx))),
       (''time'', json_opt (\<lambda>t. VInt (uint t)) blocktime),
       (''version'', VInt (sint (tx_version tx))),
       (''vin'', VArray (map (vin_json S X to_hex tx) (tx_input tx))),
       (''vout'', VArray (map (vout_json S X decimal_div network) (enumerate 0 (tx_output tx))))])))"

section \<open>Lemmas\<close>

context tx_store
begin

lemma txrow_by_txid_exact:
  assumes "length txid = 32"
  shows "th \<in> T \<Longrightarrow> lib_txid L (fst th) = txid \<Longrightarrow> txrow_by_txid L rs txid = Inr (Some (txrow_of th))"
    and "\<forall>th\<in>T. lib_txid L (fst th) \<noteq> txid \<Longrightarrow> txrow_by_txid L rs txid = Inr None"
proof -
  have f: "txrow_filter_full txid = 0x54 # txid" by (simp add: row_defs)
  have key: "row_key (txrow_to_row L (txrow_of th)) = 0x54 # lib_txid L (fst th)" for th
    by (simp add: txrow_of_def row_defs ser_u8 ser_array)
  have get: "rs_get rs (txrow_filter_full txid) = Some v \<longleftrightarrow>
      (\<exists>th\<in>T. lib_txid L (fst th) = txid \<and> row_value (txrow_to_row L (txrow_of th)) = v)" for v
  proof -
    have "rs_get rs (txrow_filter_full txid) = Some v \<longleftrightarrow>
      (\<exists>th\<in>T. row_key (txrow_to_row L (txrow_of th)) = 0x54 # txid \<and> row_value (txrow_to_row L (txrow_of th)) = v)"
      unfolding get_row f scan_T [OF refl] by force
    then show ?thesis unfolding key by simp
  qed
  show "txrow_by_txid L rs txid = Inr (Some (txrow_of th))" if "th \<in> T" "lib_txid L (fst th) = txid"
  proof -
    let ?r = "txrow_to_row L (txrow_of th)"
    have "rs_get rs (txrow_filter_full txid) = Some (row_value ?r)" using get that by blast
    moreover have "\<lparr>row_key = txrow_filter_full txid, row_value = row_value ?r\<rparr> = ?r"
      using key [of th] that(2) f by (intro Row.equality) simp_all
    ultimately show ?thesis by (simp add: txrow_by_txid_def Let_def txrow_of_roundtrip)
  qed
  show "txrow_by_txid L rs txid = Inr None" if "\<forall>th\<in>T. lib_txid L (fst th) \<noteq> txid"
  proof -
    have "rs_get rs (txrow_filter_full txid) = None"
      using get that by (cases "rs_get rs (txrow_filter_full txid)") auto
    then show ?thesis by (simp add: txrow_by_txid_def Let_def)
  qed
qed

lemma block_of_tx:
  assumes wf: "wf_headers H (ix_headers ix)" and len: "length txid = 32"
    and th: "th \<in> T" "lib_txid L (fst th) = txid" "unat (snd th) < headers_len (ix_headers ix)"
  shows "\<exists>e. get_by_txid L to_hex rs ix txid None = Inr (Some e) \<and> e \<in> set (hl_headers (ix_headers ix)) \<and>
    he_height e = unat (snd th)"
proof -
  have "get_header ix (unat (snd th)) = Inr (Some (hl_headers (ix_headers ix) ! unat (snd th)))"
    using header_by_height_eq [OF wf] th(3) by (simp add: get_header_def headers_len_def)
  moreover have "he_height (hl_headers (ix_headers ix) ! unat (snd th)) = unat (snd th)"
    using chained_nth(1) [OF wf_headers_chained [OF wf]] th(3) by (simp add: headers_len_def)
  ultimately show ?thesis
    using txrow_by_txid_exact(1) [OF len th(1,2)] th(3) by (auto simp: get_by_txid_def Let_def headers_len_def)
qed

lemma block_of_missing:
  assumes "length txid = 32" "\<forall>th\<in>T. lib_txid L (fst th) \<noteq> txid"
  shows "get_by_txid L to_hex rs ix txid None = Inl (Error (Msg (''not indexed tx '' @ to_hex txid)) [])"
  using txrow_by_txid_exact(2) [OF assms] by (simp add: get_by_txid_def Let_def)

end

text \<open>The cache only holds transactions under their own ids, and so does the daemon answer.\<close>

definition tx_coherent :: "libs \<Rightarrow> tx_codec \<Rightarrow> (Txid, u32 \<times> Bytes, 'm) indexmap \<Rightarrow> ('m, 'r) RndCache \<Rightarrow> bool" where
  "tx_coherent L C I c \<longleftrightarrow> (\<forall>txid b tx. rnd_get I c txid = Some b \<and> tx_deserialize C b = Some tx \<longrightarrow> lib_txid L tx = txid)"

definition honest_daemon :: "libs \<Rightarrow> tx_codec \<Rightarrow> hex_crate \<Rightarrow> raw_call \<Rightarrow> bool" where
  "honest_daemon L C X raw \<longleftrightarrow> (\<forall>txid bh s b tx. raw txid bh False = Inr (VString s) \<and> hex_decode X s = Some b \<and>
     tx_deserialize C b = Some tx \<longrightarrow> lib_txid L tx = txid)"

lemma as_str_Some: "as_str v = Some s \<longleftrightarrow> v = VString s"
  by (cases v) auto

lemma load_txn_sound:
  assumes I: "index_map I gen_range entries mok" and c: "cache_ok entries mok c" "tx_coherent L C I c"
    and d: "honest_daemon L C X raw"
  shows "\<exists>r. load_txn_from_bitcoind C X I gen_range raw c txid bh = Some r \<and>
    (\<forall>c' tx. r = Inr (c', tx) \<longrightarrow> lib_txid L tx = txid \<and> cache_ok entries mok c' \<and> tx_coherent L C I c')"
proof -
  let ?parse = "and_then (raw txid bh False) (\<lambda>v.
           and_then (ok_or (Msg ''non-string tx'') (as_str v)) (\<lambda>value_hex.
           and_then (ok_or (Msg ''non-hex tx'') (hex_decode X value_hex)) (\<lambda>serialized_tx.
           and_then (ok_or (Msg ''failed to parse serialized tx'') (tx_deserialize C serialized_tx)) (\<lambda>tx.
           Inr (serialized_tx, tx)))))"
  show ?thesis
  proof (cases ?parse)
    case (Inl e)
    then show ?thesis by (simp add: load_txn_from_bitcoind_def)
  next
    case (Inr p)
    obtain b tx where p: "p = (b, tx)" by (cases p)
    obtain s where s: "raw txid bh False = Inr (VString s)" "hex_decode X s = Some b" "tx_deserialize C b = Some tx"
      using Inr unfolding p by (auto simp: result_simps as_str_Some)
    then have id: "lib_txid L tx = txid" using d unfolding honest_daemon_def by blast
    have bc: "bounded_cache (rnd_get I) (rnd_put I gen_range) (cache_ok entries mok)"
      using I by (rule index_map.rc_bounded_cache)
    obtain c' where c': "rnd_put I gen_range c txid b (of_nat (length b)) = Some (Inr c')" "cache_ok entries mok c'"
      using bounded_cache.store_returns [OF bc c(1)] by blast
    have "tx_coherent L C I c'"
      unfolding tx_coherent_def
      using bounded_cache.lookup_store [OF bc c(1) c'(1)] c(2) id s(3) unfolding tx_coherent_def by fastforce
    moreover have "load_txn_from_bitcoind C X I gen_range raw c txid bh = Some (Inr (c', tx))"
      unfolding load_txn_from_bitcoind_def Inr p using c'(1) by (simp add: txcache_put_def)
    ultimately show ?thesis using c'(2) id by simp
  qed
qed

section \<open>Properties\<close>

text \<open>C36: A transaction lookup always returns (through the cache, its eviction loop included), and when it
  succeeds the transaction has the id that was asked for, provided that the daemon answers with it;
  the cache keeps its invariant and never holds a transaction under another id.\<close>

theorem txquery_get_sound:
  assumes "index_map I gen_range entries mok" "cache_ok entries mok c" "tx_coherent L C I c"
    and "honest_daemon L C X raw"
  shows "\<exists>r. txquery_get L to_hex C X I gen_range raw store ix c txid blockhash blockheight = Some r \<and>
    (\<forall>c' tx. r = Inr (c', tx) \<longrightarrow> lib_txid L tx = txid \<and> cache_ok entries mok c' \<and> tx_coherent L C I c')"
proof (cases "txcache_get (tx_deserialize C) I c txid")
  case (Some tx)
  then have "lib_txid L tx = txid"
    using assms(3) by (auto simp: txcache_get_def tx_coherent_def split: option.splits)
  then show ?thesis using Some assms(2,3) by (simp add: txquery_get_def)
next
  case None
  show ?thesis
    using load_txn_sound [OF assms, of txid] None
    by (auto simp: txquery_get_def split: option.splits sum.splits error.splits)
qed

definition demo_codec :: tx_codec where
  "demo_codec = \<lparr>tx_serialize = (\<lambda>_. [1]), tx_deserialize = (\<lambda>b. if b = [1] then Some demo_coinbase else None)\<rparr>"

definition demo_raw :: raw_call where
  "demo_raw txid blockhash verbose = (if txid = lib_txid std_libs demo_coinbase \<and> \<not> verbose
     then Inr (VString ''01'') else bail ''No such mempool or blockchain transaction'')"

definition demo_tx_cache :: "((Txid \<times> (u32 \<times> Bytes)) list, nat) RndCache" where
  "demo_tx_cache = rndcache_new list_im 0 50"

lemma demo_honest: "honest_daemon std_libs demo_codec std_hex demo_raw"
  by (auto simp: honest_daemon_def demo_raw_def demo_codec_def bail_def split: if_splits)

lemma demo_tx_cache_ok: "cache_ok (\<lambda>m. m) (\<lambda>m. distinct (map fst m)) demo_tx_cache"
  "tx_coherent std_libs demo_codec list_im demo_tx_cache"
  by (simp_all add: cache_ok_def tx_coherent_def rnd_get_def demo_tx_cache_def rndcache_new_def list_im_def)

theorem txquery_get_sound_witness:
  "\<exists>r. txquery_get std_libs (hex_encode std_hex) demo_codec std_hex list_im mod_range demo_raw
      (dbstore_read btree_db demo_db) demo_index demo_tx_cache (lib_txid std_libs demo_coinbase) None None = Some r"
  using txquery_get_sound [OF refim.index_map_axioms demo_tx_cache_ok demo_honest] by blast

text \<open>The block of a transaction: for an indexed transaction whose height the header chain has, the query
  returns the header at that height; for a transaction that is not indexed it is an error.\<close>

lemma get_by_txid_correct:
  assumes "codec_laws L" "rocksdb_store D dinv dmap" "dinv (ds_db s)" "indexed L (dmap (ds_db s)) T"
    and "wf_headers H (ix_headers ix)" "length txid = 32"
  shows "(\<forall>th\<in>T. lib_txid L (fst th) = txid \<and> unat (snd th) < headers_len (ix_headers ix) \<longrightarrow>
      (\<exists>e. get_by_txid L to_hex (dbstore_read D s) ix txid None = Inr (Some e) \<and>
        e \<in> set (hl_headers (ix_headers ix)) \<and> he_height e = unat (snd th))) \<and>
    ((\<forall>th\<in>T. lib_txid L (fst th) \<noteq> txid) \<longrightarrow>
      get_by_txid L to_hex (dbstore_read D s) ix txid None = Inl (Error (Msg (''not indexed tx '' @ to_hex txid)) []))"
proof -
  have st: "tx_store L (dbstore_read D s) T (other_rows (dmap (ds_db s)))"
    using read_store.indexed_tx_store [OF write_store.axioms(1) [OF rocksdb_store.dbs_write_store [OF assms(2)]] assms(1)]
      assms(3,4) by blast
  show ?thesis
    using tx_store.block_of_tx [OF st assms(5,6)] tx_store.block_of_missing [OF st assms(6)] by blast
qed

end
