(* ===== verification/Query.thy ===== *)
theory Query
  imports TxQuery Merkle
begin

text \<open>
  The query interface the RPC handlers use (\<^verbatim>\<open>src/src/query/mod.rs\<close>, lines 56--67 and 202--591, and the
  application of \<^verbatim>\<open>src/src/app.rs\<close> behind it): headers and Merkle proofs, transaction ids by position,
  fee estimates, cash accounts, the first use of a script and the spender of an output.

  A \<open>Query\<close> is a snapshot of what the handlers read: the store, the index, the mempool tracker, the
  calls to the daemon, and the lookup of transactions.  The crates are collected in a record.
\<close>

section \<open>The code\<close>

record crates =
  cr_libs :: libs
  cr_hex :: hex_crate
  cr_rt :: runtime
  cr_addr :: address_crate
  cr_script :: script_crate
  cr_tx :: tx_codec
  cr_sha256d :: "Bytes \<Rightarrow> Bytes"
  cr_hash_from_hex :: "string \<Rightarrow> Bytes option"
  cr_ser_header :: "BlockHeader \<Rightarrow> Bytes"
  cr_decimal_div :: "int \<Rightarrow> int \<Rightarrow> f64"

text \<open>
  \<open>cr_hash_hex\<close> prints the hashes of the \<^verbatim>\<open>bitcoincash\<close> crate, which are shown in reverse byte order.
\<close>

abbreviation cr_hash_hex :: "crates \<Rightarrow> Bytes \<Rightarrow> string" where
  "cr_hash_hex K \<equiv> txid_hex (cr_rt K)"

record query_daemon =
  qd_getblocktxids :: "BlockHash \<Rightarrow> Txid list result"
  qd_broadcast :: "Transaction \<Rightarrow> Txid result"
  qd_get_relayfee :: "f64 result"
  qd_get_subversion :: "string result"

record 'f Query =
  q_store :: ReadStore
  q_index :: Index
  q_daemon :: query_daemon
  q_banner :: string
  q_tracker :: "'f Tracker"
  q_tx :: tx_getter

definition historyitem_to_json :: "crates \<Rightarrow> HistoryItem \<Rightarrow> Value" where
  "historyitem_to_json K item = VObject ([
     (''height'', VInt (sint (hi_height item))),
     (''tx_hash'', VString (cr_hash_hex K (hi_tx_hash item)))] @
     (case hi_fee item of Some f \<Rightarrow> [(''fee'', VInt (uint f))] | None \<Rightarrow> []))"

definition get_confirmed_blockhash :: "crates \<Rightarrow> 'f Query \<Rightarrow> Txid \<Rightarrow> Value result" where
  "get_confirmed_blockhash K q tx_hash =
     and_then (get_by_txid (cr_libs K) (cr_hash_hex K) (q_store q) (q_index q) tx_hash None) (\<lambda>header.
     case header of
       None \<Rightarrow> bail (''tx '' @ cr_hash_hex K tx_hash @ '' is unconfirmed or does not exist'')
     | Some h \<Rightarrow> Inr (VObject [
         (''block_hash'', VString (cr_hash_hex K (he_hash h))),
         (''block_height'', VInt (int (he_height h)))]))"

definition get_headers :: "'f Query \<Rightarrow> nat list \<Rightarrow> HeaderEntry list result" where
  "get_headers q heights =
     and_then (mapM (get_header (q_index q)) heights) (\<lambda>hs. Inr (List.map_filter (\<lambda>h. h) hs))"

definition get_best_header :: "'f Query \<Rightarrow> HeaderEntry result" where
  "get_best_header q = ok_or (Msg ''no headers indexed'') (best_header (q_index q))"

definition getblocktxids :: "'f Query \<Rightarrow> BlockHash \<Rightarrow> Txid list result" where
  "getblocktxids q blockhash = qd_getblocktxids (q_daemon q) blockhash"

fun position :: "('a \<Rightarrow> bool) \<Rightarrow> 'a list \<Rightarrow> nat option" where
  "position P [] = None"
| "position P (x # xs) = (if P x then Some 0 else map_option Suc (position P xs))"

definition get_merkle_proof :: "crates \<Rightarrow> 'f Query \<Rightarrow> Txid \<Rightarrow> nat \<Rightarrow> (Bytes list \<times> nat) result" where
  "get_merkle_proof K q tx_hash height =
     and_then (get_header (q_index q) height) (\<lambda>header.
     and_then (ok_or (Msg (''missing block #'' @ show_nat height)) header) (\<lambda>header_entry.
     and_then (getblocktxids q (he_hash header_entry)) (\<lambda>txids.
     and_then (ok_or (Msg (''missing txid '' @ cr_hash_hex K tx_hash)) (position (\<lambda>txid. txid = tx_hash) txids)) (\<lambda>pos.
     and_then (create_merkle_branch_and_root (cr_sha256d K) txids pos) (\<lambda>(branch, _).
     Inr (branch, pos))))))"

definition get_header_merkle_proof :: "crates \<Rightarrow> 'f Query \<Rightarrow> nat \<Rightarrow> nat \<Rightarrow> (Bytes list \<times> Bytes) result" where
  "get_header_merkle_proof K q height cp_height =
     (if cp_height < height
      then bail (''cp_height #'' @ show_nat cp_height @ '' < height #'' @ show_nat height)
      else and_then (get_best_header q) (\<lambda>best.
        let best_height = he_height best in
        if best_height < cp_height
        then bail (''cp_height #'' @ show_nat cp_height @ '' above best block height #'' @ show_nat best_height)
        else let heights = [0..<Suc cp_height] in
          and_then (get_headers q heights) (\<lambda>headers.
          let header_hashes = map he_hash headers in
          and_then (require ''assertion failed'' (length header_hashes = length heights)) (\<lambda>_.
          create_merkle_branch_and_root (cr_sha256d K) header_hashes height))))"

definition get_id_from_pos :: "crates \<Rightarrow> 'f Query \<Rightarrow> nat \<Rightarrow> nat \<Rightarrow> bool \<Rightarrow> (Txid \<times> Bytes list) result" where
  "get_id_from_pos K q height tx_pos want_merkle =
     and_then (get_header (q_index q) height) (\<lambda>header.
     and_then (ok_or (Msg (''missing block #'' @ show_nat height)) header) (\<lambda>header_entry.
     and_then (getblocktxids q (he_hash header_entry)) (\<lambda>txids.
     and_then (ok_or (Msg (''No tx in position #'' @ show_nat tx_pos @ '' in block #'' @ show_nat height))
         (slice_get txids tx_pos)) (\<lambda>txid.
     and_then (if want_merkle
               then and_then (create_merkle_branch_and_root (cr_sha256d K) txids tx_pos) (\<lambda>r. Inr (fst r))
               else Inr []) (\<lambda>branch.
     Inr (txid, branch))))))"

definition query_broadcast :: "'f Query \<Rightarrow> Transaction \<Rightarrow> Txid result" where
  "query_broadcast q txn = qd_broadcast (q_daemon q) txn"

definition update_mempool :: "crates \<Rightarrow> 'f f32_ops \<Rightarrow> ('f MempoolEntry list \<Rightarrow> 'f MempoolEntry list) \<Rightarrow>
    'f mempool_api \<Rightarrow> 'f Query \<Rightarrow> ('f Query \<times> Txid list) result" where
  "update_mempool K F sort_entries M q =
     and_then (tracker_update (cr_libs K) F sort_entries M (q_tracker q)) (\<lambda>(t, changed).
     Inr (q\<lparr>q_tracker := t\<rparr>, changed))"

definition get_fee_histogram :: "'f Query \<Rightarrow> ('f \<times> u32) list" where
  "get_fee_histogram q = tk_histogram (q_tracker q)"

text \<open>
  \<^verbatim>\<open>estimate_fee\<close>: \<open>per_kb\<close> is the conversion of an \<^verbatim>\<open>f32\<close> to an \<^verbatim>\<open>f64\<close> and its product with
  \<^verbatim>\<open>1e-5\<close>.  The product on \<^verbatim>\<open>usize\<close>, its cast and the sum are at their widths.
\<close>

fun estimate_loop :: "u32 \<Rightarrow> ('f \<times> u32) list \<Rightarrow> u32 \<Rightarrow> 'f \<Rightarrow> 'f" where
  "estimate_loop blocks_in_vbytes [] total_vsize last_fee_rate = last_fee_rate"
| "estimate_loop blocks_in_vbytes ((fee_rate, vsize) # bins) total_vsize last_fee_rate =
     (if total_vsize + vsize \<ge> blocks_in_vbytes then fee_rate
      else estimate_loop blocks_in_vbytes bins (total_vsize + vsize) fee_rate)"

definition estimate_fee :: "'f f32_ops \<Rightarrow> ('f \<Rightarrow> f64) \<Rightarrow> 'f Query \<Rightarrow> nat \<Rightarrow> f64" where
  "estimate_fee F per_kb q blocks =
     per_kb (estimate_loop (ucast (of_nat blocks * 1000000 :: u64)) (get_fee_histogram q) 0 (f_zero F))"

definition query_get_banner :: "'f Query \<Rightarrow> string result" where
  "query_get_banner q =
     and_then (qd_get_subversion (q_daemon q)) (\<lambda>v. Inr (q_banner q @ [CHR 0x0A] @ v))"

fun cashaccount_loop :: "crates \<Rightarrow> Bytes \<Rightarrow> u32 \<Rightarrow> string \<Rightarrow> (u32 \<times> Transaction result) result list \<Rightarrow>
    Value list \<Rightarrow> Value list result" where
  "cashaccount_loop K name height blockhash [] result = Inr result"
| "cashaccount_loop K name height blockhash (item # items) result =
     and_then item (\<lambda>(_, tx).
     and_then tx (\<lambda>tx.
     and_then (has_cashaccount (cr_libs K) tx name) (\<lambda>has.
       if \<not> has then cashaccount_loop K name height blockhash items result
       else cashaccount_loop K name height blockhash items (result @ [VObject [
         (''tx'', VString (hex_encode (cr_hex K) (tx_serialize (cr_tx K) tx))),
         (''height'', VInt (uint height)),
         (''blockhash'', VString blockhash)]]))))"

definition get_cashaccount_txs :: "crates \<Rightarrow> 'f Query \<Rightarrow> Bytes \<Rightarrow> u32 \<Rightarrow> Value result" where
  "get_cashaccount_txs K q name height =
     and_then (txids_by_cashaccount (cr_libs K) (q_store q) name height) (\<lambda>prefixes.
     let cashaccount_txs = load_txns_by_prefix (cr_libs K) (q_store q) prefixes (q_tx q) in
     and_then (header_at_height (q_index q) (unat height)) (\<lambda>header.
     and_then (ok_or (Msg (''missing header at height '' @ show_nat (unat height))) header) (\<lambda>header.
     and_then (cashaccount_loop K name height (cr_hash_hex K (he_hash header)) cashaccount_txs []) (\<lambda>result.
     Inr (VArray result)))))"

text \<open>
  \<^verbatim>\<open>scripthash_first_use\<close>: \<open>sort_rows\<close> is \<^verbatim>\<open>sort_unstable_by\<close> on the heights, which leaves the order
  of rows with the same height open.
\<close>

fun first_use_loop :: "libs \<Rightarrow> FullHash \<Rightarrow> tx_getter \<Rightarrow> TxRow list \<Rightarrow> (u32 \<times> Txid) result" where
  "first_use_loop L scripthash txget [] = Inr (0, null_hash)"
| "first_use_loop L scripthash txget (txrow # txs) =
     and_then (txget (get_txid txrow) None (Some (txr_height txrow))) (\<lambda>tx.
       if list_ex (\<lambda>o1. compute_script_hash L (script_pubkey o1) = scripthash) (tx_output tx)
       then Inr (txr_height txrow, get_txid txrow)
       else first_use_loop L scripthash txget txs)"

definition first_use_in :: "libs \<Rightarrow> (TxRow list \<Rightarrow> TxRow list) \<Rightarrow> FullHash \<Rightarrow> tx_getter \<Rightarrow> ReadStore \<Rightarrow>
    (u32 \<times> Txid) result" where
  "first_use_in L sort_rows scripthash txget store =
     and_then (txoutrows_by_script_hash L store scripthash) (\<lambda>rows.
     and_then (mapM (\<lambda>p. txrows_by_prefix L store (tor_txid_prefix p)) rows) (\<lambda>txs.
     first_use_loop L scripthash txget (sort_rows (concat txs))))"

definition scripthash_first_use :: "crates \<Rightarrow> (TxRow list \<Rightarrow> TxRow list) \<Rightarrow> 'f Query \<Rightarrow> FullHash \<Rightarrow>
    (u32 \<times> Txid) result" where
  "scripthash_first_use K sort_rows q scripthash =
     and_then (first_use_in (cr_libs K) sort_rows scripthash (q_tx q) (q_store q)) (\<lambda>tx.
       if fst tx \<noteq> 0 then Inr tx
       else first_use_in (cr_libs K) sort_rows scripthash (q_tx q) (tracker_index (q_tracker q)))"

definition get_relayfee :: "'f Query \<Rightarrow> f64 result" where
  "get_relayfee q = qd_get_relayfee (q_daemon q)"

definition query_tx_spending_prevout :: "crates \<Rightarrow> 'f Query \<Rightarrow> OutPoint \<Rightarrow> timeout \<Rightarrow>
    (Transaction \<times> u32 \<times> u32) option result" where
  "query_tx_spending_prevout K q prevout tmo =
     and_then (get_tx_spending_prevout (cr_libs K) (tracker_index (q_tracker q)) (q_tx q) tmo prevout) (\<lambda>spent.
       if spent \<noteq> None then Inr spent
       else get_tx_spending_prevout (cr_libs K) (q_store q) (q_tx q) tmo prevout)"

section \<open>The spender of an output\<close>

lemma input_position_None: "input_position po is n = None \<longleftrightarrow> po \<notin> previous_output ` set is"
  by (induction "is" arbitrary: n) auto

lemma input_position_Some:
  "input_position po is n = Some m \<Longrightarrow> n \<le> m \<and> m - n < length is \<and> previous_output (is ! (m - n)) = po"
proof (induction "is" arbitrary: n)
  case (Cons i "is")
  show ?case
  proof (cases "previous_output i = po")
    case False
    then have "Suc n \<le> m \<and> m - Suc n < length is \<and> previous_output (is ! (m - Suc n)) = po"
      using Cons.prems Cons.IH [of "Suc n"] by simp
    moreover from this have "m - n = Suc (m - Suc n)" by linarith
    ultimately show ?thesis by simp
  qed (use Cons.prems in simp)
qed simp

text \<open>What is reported of a spending transaction: the first input that spends the output, and height 0 for the mempool.\<close>

definition spend_report :: "OutPoint \<Rightarrow> Transaction \<times> u32 \<Rightarrow> Transaction \<times> u32 \<times> u32" where
  "spend_report po th = (fst th, of_nat (the (input_position po (tx_input (fst th)) 0)),
     if snd th = MEMPOOL_HEIGHT then 0 else snd th)"

context tx_store
begin

lemma prevout_txrows_find:
  assumes "serves L txget T" "no_timeout tmo" "set ths \<subseteq> T"
  shows "prevout_txrows L po txget tmo (map (\<lambda>th. txrow_to_row L (txrow_of th)) ths) =
    Inr (map_option (spend_report po) (find (\<lambda>th. spends (fst th) po) ths))"
  using assms(3)
proof (induction ths)
  case (Cons th ths)
  have get: "txget (lib_txid L (fst th)) None (Some (snd th)) = Inr (fst th)"
    using assms(1) Cons.prems by (simp add: serves_def)
  have none: "input_position po (tx_input (fst th)) 0 = None \<longleftrightarrow> \<not> spends (fst th) po"
    by (simp add: input_position_None spends_def)
  show ?case
    using Cons assms(2) none
    by (cases "input_position po (tx_input (fst th)) 0")
      (auto simp: txrow_of_roundtrip get no_timeout_def spend_report_def)
qed simp

lemma scan_prefix_rows:
  assumes "length q = 8"
  shows "\<exists>ths. rs_scan rs (txrow_filter_prefix q) = map (\<lambda>th. txrow_to_row L (txrow_of th)) ths \<and>
    set ths = {th \<in> T. hp (lib_txid L (fst th)) = q}"
proof -
  have f: "txrow_filter_prefix q = 0x54 # q" by (simp add: row_defs)
  have key: "prefix (txrow_filter_prefix q) (row_key (txrow_to_row L (txrow_of th))) \<longleftrightarrow> hp (lib_txid L (fst th)) = q" for th
    using txrow_filter_prefix_iff [OF assms txid_len] by (auto simp: txrow_of_def)
  let ?row = "\<lambda>th. txrow_to_row L (txrow_of th)"
  have mem: "set (rs_scan rs (txrow_filter_prefix q)) = ?row ` {th \<in> T. hp (lib_txid L (fst th)) = q}"
    unfolding set_eq_iff scan_T [OF f] using key by blast
  then obtain ths where ths: "set ths \<subseteq> {th \<in> T. hp (lib_txid L (fst th)) = q}"
    "rs_scan rs (txrow_filter_prefix q) = map ?row ths"
    using list_in_image [of _ ?row] by blast
  have inj: "th = th'" if "th \<in> T" "th' \<in> T" "?row th = ?row th'" for th th'
    using txrow_of_inj [OF that(1,2)] txrow_of_roundtrip that(3) by (metis sum.inject(2))
  have "{th \<in> T. hp (lib_txid L (fst th)) = q} \<subseteq> set ths"
  proof
    fix th assume th: "th \<in> {th \<in> T. hp (lib_txid L (fst th)) = q}"
    then have "?row th \<in> ?row ` set ths" using mem ths(2) by auto
    then obtain th' where th': "th' \<in> set ths" "?row th = ?row th'" by blast
    then have "th = th'" using inj [of th th'] th ths(1) by blast
    with th' show "th \<in> set ths" by simp
  qed
  with ths show ?thesis by blast
qed

lemma prevout_inrows_spec:
  assumes g: "serves L txget T" "no_timeout tmo" and po: "length (op_txid po) = 32"
    and rows: "set rows \<subseteq> (\<lambda>q. \<lparr>row_key = txin_filter L po @ q, row_value = []\<rparr>) ` in_prefixes po"
  shows "\<exists>r. prevout_inrows L rs po txget tmo rows = Inr r \<and>
    (r = None \<longrightarrow> (\<forall>th\<in>T. \<lparr>row_key = txin_filter L po @ hp (lib_txid L (fst th)), row_value = []\<rparr> \<in> set rows \<longrightarrow>
      \<not> spends (fst th) po)) \<and>
    (\<forall>x. r = Some x \<longrightarrow> (\<exists>th\<in>T. spends (fst th) po \<and> x = spend_report po th))"
  using rows
proof (induction rows)
  case (Cons row rows)
  obtain q where q: "row = \<lparr>row_key = txin_filter L po @ q, row_value = []\<rparr>" "q \<in> in_prefixes po"
    using Cons.prems by auto
  have len: "length q = 8" using q(2) by (auto simp: in_prefixes_def length_hp txid_len)
  obtain inrow where inrow: "txin_from_row L row = Inr inrow" "tir_txid_prefix inrow = q"
    using txin_row_decode [OF po len] unfolding q(1) by (auto simp: and_then_def split: sum.splits)
  obtain ths where ths: "rs_scan rs (txrow_filter_prefix q) = map (\<lambda>th. txrow_to_row L (txrow_of th)) ths"
    "set ths = {th \<in> T. hp (lib_txid L (fst th)) = q}"
    using scan_prefix_rows [OF len] by blast
  have sub: "set ths \<subseteq> T" unfolding ths(2) by blast
  show ?case
  proof (cases "find (\<lambda>th. spends (fst th) po) ths")
    case None
    then have "\<forall>th\<in>T. hp (lib_txid L (fst th)) = q \<longrightarrow> \<not> spends (fst th) po"
      using ths(2) by (auto simp: find_None_iff)
    moreover have "prevout_inrows L rs po txget tmo (row # rows) = prevout_inrows L rs po txget tmo rows"
      by (simp add: inrow ths(1) prevout_txrows_find [OF g sub] None)
    ultimately show ?thesis using Cons unfolding q(1) by auto
  next
    case (Some th)
    then have "th \<in> T" "spends (fst th) po" using sub by (auto simp: find_Some_iff dest: nth_mem)
    moreover have "prevout_inrows L rs po txget tmo (row # rows) = Inr (Some (spend_report po th))"
      by (simp add: inrow ths(1) prevout_txrows_find [OF g sub] Some)
    ultimately show ?thesis by blast
  qed
qed simp

lemma spending_prevout_exact:
  assumes g: "serves L txget T" "no_timeout tmo" and po: "length (op_txid po) = 32" "op_txid po \<noteq> null_hash"
  shows "\<exists>r. get_tx_spending_prevout L rs txget tmo po = Inr r \<and>
    (r = None \<longleftrightarrow> (\<forall>th\<in>T. \<not> spends (fst th) po)) \<and>
    (\<forall>x. r = Some x \<longrightarrow> (\<exists>th\<in>T. spends (fst th) po \<and> x = spend_report po th))"
proof -
  have "\<lparr>row_key = txin_filter L po @ hp (lib_txid L (fst th)), row_value = []\<rparr> \<in> set (rs_scan rs (txin_filter L po))"
    if "th \<in> T" "spends (fst th) po" for th
    using that po(2) unfolding scan_in_rows [OF po(1)] in_prefixes_def spends_def by blast
  moreover obtain r where "prevout_inrows L rs po txget tmo (rs_scan rs (txin_filter L po)) = Inr r"
    "r = None \<longrightarrow> (\<forall>th\<in>T. \<lparr>row_key = txin_filter L po @ hp (lib_txid L (fst th)), row_value = []\<rparr> \<in>
      set (rs_scan rs (txin_filter L po)) \<longrightarrow> \<not> spends (fst th) po)"
    "\<forall>x. r = Some x \<longrightarrow> (\<exists>th\<in>T. spends (fst th) po \<and> x = spend_report po th)"
    using prevout_inrows_spec [OF g po(1), of "rs_scan rs (txin_filter L po)"] scan_in_rows [OF po(1)] by blast
  ultimately show ?thesis unfolding get_tx_spending_prevout_def by (cases r) blast+
qed

end

section \<open>The first use of a script\<close>

definition pays :: "libs \<Rightarrow> FullHash \<Rightarrow> Transaction \<Rightarrow> bool" where
  "pays L sh tx \<longleftrightarrow> sh \<in> (\<lambda>out. compute_script_hash L (script_pubkey out)) ` set (tx_output tx)"

definition sorts_rows :: "(TxRow list \<Rightarrow> TxRow list) \<Rightarrow> bool" where
  "sorts_rows sort_rows \<longleftrightarrow> (\<forall>xs. mset (sort_rows xs) = mset xs \<and>
     sorted_wrt (\<lambda>a b. txr_height a \<le> txr_height b) (sort_rows xs))"

text \<open>The earliest transaction of a set that pays to a script hash, as the query reports it.\<close>

definition earliest :: "libs \<Rightarrow> (Transaction \<times> u32) set \<Rightarrow> FullHash \<Rightarrow> u32 \<times> Txid \<Rightarrow> bool" where
  "earliest L T sh r \<longleftrightarrow> (\<exists>th\<in>T. pays L sh (fst th) \<and> r = (snd th, lib_txid L (fst th)) \<and>
     (\<forall>th'\<in>T. pays L sh (fst th') \<longrightarrow> snd th \<le> snd th'))"

context tx_store
begin

lemma candidate_rows:
  assumes "length sh = 32"
  shows "\<exists>rows. txoutrows_by_script_hash L rs sh = Inr rows \<and>
    (\<forall>r\<in>set rows. length (tor_txid_prefix r) = 8) \<and>
    (\<forall>th\<in>T. pays L sh (fst th) \<longrightarrow> hp (lib_txid L (fst th)) \<in> tor_txid_prefix ` set rows)"
proof -
  let ?S = "rs_scan rs (0x4F # hp sh)" and ?dec = "\<lambda>r. projr (txout_from_row L r)"
  have pre: "tor_txid_prefix (?dec (txout_to_row L (outrow_of f))) = hp (lib_txid L (fst (fst f)))" for f
    by (simp only: outrow_of_roundtrip sum.sel) (simp add: outrow_of_def txout_new_def)
  have dec: "\<exists>f. r = txout_to_row L (outrow_of f)" if "r \<in> set ?S" for r
    using that unfolding scan_O [OF refl] using set_txout_rows by blast
  have "txout_from_row L r = Inr (?dec r)" if "r \<in> set ?S" for r
    using dec [OF that] by (auto simp: outrow_of_roundtrip)
  then have "txoutrows_by_script_hash L rs sh = Inr (map ?dec ?S)"
    unfolding txoutrows_by_script_hash_def txout_filter_eq [OF assms] and_then_Inr by (rule mapM_map_eq)
  moreover have "length (tor_txid_prefix (?dec r)) = 8" if "r \<in> set ?S" for r
    using dec [OF that] pre by (auto simp: length_hp txid_len)
  moreover have "hp (lib_txid L (fst th)) \<in> tor_txid_prefix ` set (map ?dec ?S)" if th: "th \<in> T" "pays L sh (fst th)" for th
  proof -
    obtain n where n: "n < length (tx_output (fst th))" "compute_script_hash L (script_pubkey (tx_output (fst th) ! n)) = sh"
      using th(2) by (auto simp: pays_def in_set_conv_nth)
    let ?r = "txout_to_row L (outrow_of (th, n))"
    have "?r \<in> set (txout_rows L (fst th))" unfolding set_txout_rows [of "fst th" "snd th"] using n(1) by auto
    moreover have "prefix (0x4F # hp sh) (row_key ?r)"
      unfolding outrow_of_def txout_filter_iff [OF assms] using n(2) by simp
    ultimately have "?r \<in> set ?S" unfolding scan_O [OF refl] using th(1) by blast
    moreover have "tor_txid_prefix (?dec ?r) = hp (lib_txid L (fst th))" using pre [of "(th, n)"] by simp
    ultimately show ?thesis unfolding set_map image_image by (intro image_eqI [of _ _ ?r]) simp_all
  qed
  ultimately show ?thesis by (intro exI [of _ "map ?dec ?S"]) simp
qed

lemma first_use_loop_spec:
  assumes "serves L txget T" "set ths \<subseteq> T"
  shows "first_use_loop L sh txget (map txrow_of ths) =
    Inr (case find (\<lambda>th. pays L sh (fst th)) ths of None \<Rightarrow> (0, null_hash) | Some th \<Rightarrow> (snd th, lib_txid L (fst th)))"
  using assms(2)
proof (induction ths)
  case (Cons th ths)
  have get: "txget (lib_txid L (fst th)) None (Some (snd th)) = Inr (fst th)"
    using assms(1) Cons.prems by (simp add: serves_def)
  show ?case using Cons by (auto simp: get list_ex_iff pays_def image_iff)
qed simp

lemma candidate_txrows:
  assumes "\<forall>q\<in>set qs. length q = 8"
  shows "\<exists>rowss. mapM (txrows_by_prefix L rs) qs = Inr rowss \<and>
    set (concat rowss) = txrow_of ` {th \<in> T. hp (lib_txid L (fst th)) \<in> set qs}"
  using assms
proof (induction qs)
  case (Cons q qs)
  obtain rows where "txrows_by_prefix L rs q = Inr rows" "set rows = txrow_of ` {th \<in> T. hp (lib_txid L (fst th)) = q}"
    using txrows_by_prefix_exact [of q] Cons.prems by fastforce
  moreover obtain rowss where "mapM (txrows_by_prefix L rs) qs = Inr rowss"
    "set (concat rowss) = txrow_of ` {th \<in> T. hp (lib_txid L (fst th)) \<in> set qs}"
    using Cons by auto
  moreover from calculation have "set (concat (rows # rowss)) = txrow_of ` {th \<in> T. hp (lib_txid L (fst th)) \<in> set (q # qs)}"
    by auto
  ultimately show ?case by (intro exI [of _ "rows # rowss"]) simp
qed simp

lemma mapM_map: "mapM f (map g xs) = mapM (\<lambda>x. f (g x)) xs"
  by (induction xs) simp_all

lemma first_use_exact:
  assumes g: "serves L txget T" and s: "sorts_rows sort_rows" and len: "length sh = 32"
  shows "\<exists>r. first_use_in L sort_rows sh txget rs = Inr r \<and>
    (if \<exists>th\<in>T. pays L sh (fst th) then earliest L T sh r else r = (0, null_hash))"
proof -
  obtain outs where outs: "txoutrows_by_script_hash L rs sh = Inr outs" "\<forall>r\<in>set outs. length (tor_txid_prefix r) = 8"
    "\<forall>th\<in>T. pays L sh (fst th) \<longrightarrow> hp (lib_txid L (fst th)) \<in> tor_txid_prefix ` set outs"
    using candidate_rows [OF len] by blast
  obtain rowss where rowss: "mapM (txrows_by_prefix L rs) (map tor_txid_prefix outs) = Inr rowss"
    "set (concat rowss) = txrow_of ` {th \<in> T. hp (lib_txid L (fst th)) \<in> set (map tor_txid_prefix outs)}"
    using candidate_txrows [of "map tor_txid_prefix outs"] outs(2) by auto
  have perm: "mset (sort_rows (concat rowss)) = mset (concat rowss)"
    "sorted_wrt (\<lambda>a b. txr_height a \<le> txr_height b) (sort_rows (concat rowss))"
    using s unfolding sorts_rows_def by blast+
  have set_eq: "set (sort_rows (concat rowss)) = txrow_of ` {th \<in> T. hp (lib_txid L (fst th)) \<in> set (map tor_txid_prefix outs)}"
    using mset_eq_setD [OF perm(1)] rowss(2) by simp
  obtain ths where ths: "set ths \<subseteq> {th \<in> T. hp (lib_txid L (fst th)) \<in> set (map tor_txid_prefix outs)}"
    "sort_rows (concat rowss) = map txrow_of ths"
    using list_in_image [OF equalityD1 [OF set_eq]] by blast
  have sub: "set ths \<subseteq> T" using ths(1) by blast
  have all: "th \<in> set ths" if "th \<in> T" "pays L sh (fst th)" for th
  proof -
    have "hp (lib_txid L (fst th)) \<in> set (map tor_txid_prefix outs)" using outs(3) that by simp
    then have "txrow_of th \<in> set (sort_rows (concat rowss))" unfolding set_eq using that(1) by simp
    then obtain th' where "th' \<in> set ths" "txrow_of th = txrow_of th'" unfolding ths(2) by auto
    then show ?thesis using txrow_of_inj [OF that(1), of th'] sub by auto
  qed
  have sorted: "sorted_wrt (\<lambda>a b. snd a \<le> snd b) ths"
    using perm(2) unfolding ths(2) sorted_wrt_map by simp
  have eq: "first_use_in L sort_rows sh txget rs = Inr (case find (\<lambda>th. pays L sh (fst th)) ths of
      None \<Rightarrow> (0, null_hash) | Some th \<Rightarrow> (snd th, lib_txid L (fst th)))"
    using rowss(1) unfolding first_use_in_def outs(1) mapM_map
    by (simp add: ths(2) first_use_loop_spec [OF g sub])
  show ?thesis
  proof (cases "find (\<lambda>th. pays L sh (fst th)) ths")
    case None
    then have "\<not> (\<exists>th\<in>T. pays L sh (fst th))" using all unfolding find_None_iff by blast
    then show ?thesis using eq None by simp
  next
    case (Some th)
    then obtain i where i: "i < length ths" "pays L sh (fst th)" "th = ths ! i" "\<forall>j<i. \<not> pays L sh (fst (ths ! j))"
      by (auto simp: find_Some_iff)
    have "snd th \<le> snd th'" if th': "th' \<in> T" "pays L sh (fst th')" for th'
    proof -
      obtain j where j: "j < length ths" "th' = ths ! j" using all [OF th'] by (auto simp: in_set_conv_nth)
      then have "i \<le> j" using i(4) th'(2) by (metis not_less)
      then show ?thesis using sorted i j by (cases "i = j") (auto simp: sorted_wrt_iff_nth_less)
    qed
    moreover have "th \<in> T" using i sub nth_mem by blast
    ultimately have "earliest L T sh (snd th, lib_txid L (fst th))" unfolding earliest_def using i(2) by blast
    then show ?thesis using eq Some i(2) \<open>th \<in> T\<close> by auto
  qed
qed

end

section \<open>Headers and Merkle proofs\<close>

lemma get_headers_eq:
  assumes "wf_headers H (ix_headers (q_index q))" "\<forall>h\<in>set heights. h < headers_len (ix_headers (q_index q))"
  shows "get_headers q heights = Inr (map (\<lambda>h. hl_headers (ix_headers (q_index q)) ! h) heights)"
proof -
  have "mapM (get_header (q_index q)) heights = Inr (map (\<lambda>h. Some (hl_headers (ix_headers (q_index q)) ! h)) heights)"
    using assms(2)
    by (induction heights) (simp_all add: get_header_def header_by_height_eq [OF assms(1)] headers_len_def)
  then show ?thesis by (simp add: get_headers_def map_filter_def comp_def)
qed

lemma wf_nth: "wf_headers H hl \<Longrightarrow> i < headers_len hl \<Longrightarrow> he_height (hl_headers hl ! i) = i"
  using chained_nth(1) [OF wf_headers_chained] by (simp add: headers_len_def)

lemma best_header_last:
  assumes "wf_headers H (ix_headers ix)" "0 < headers_len (ix_headers ix)"
  shows "best_header ix = Some (last (hl_headers (ix_headers ix)))"
  using assms header_by_blockhash_iff [OF assms(1), of "he_hash (last (hl_headers (ix_headers ix)))"]
  by (cases "hl_headers (ix_headers ix)") (auto simp: best_header_def tiphash_def headers_len_def)

lemma best_header_height:
  assumes "wf_headers H (ix_headers ix)" "0 < headers_len (ix_headers ix)"
  shows "\<exists>e. best_header ix = Some e \<and> he_height e = headers_len (ix_headers ix) - 1"
  using best_header_last [OF assms] wf_nth [OF assms(1), of "headers_len (ix_headers ix) - 1"] assms(2)
  by (simp add: last_conv_nth headers_len_def)

lemma merkle_branch:
  assumes "index < length hashes"
  shows "\<exists>branch. create_merkle_branch_and_root H hashes index = Inr (branch, mroot H (depth (length hashes)) hashes) \<and>
    length branch = depth (length hashes) \<and>
    merkle_fold H (hashes ! index) branch index = mroot H (depth (length hashes)) hashes"
  using merkle_loop_correct [OF assms, of H "[]"] by (simp add: create_merkle_branch_and_root_def)

lemma position_iff:
  "position P xs = Some n \<longleftrightarrow> n < length xs \<and> P (xs ! n) \<and> (\<forall>m<n. \<not> P (xs ! m))"
proof (induction xs arbitrary: n)
  case (Cons x xs)
  show ?case
    by (cases n) (auto simp: Cons.IH nth_Cons split: nat.splits)
qed simp

lemma position_None: "position P xs = None \<longleftrightarrow> (\<forall>x\<in>set xs. \<not> P x)"
  by (induction xs) auto

text \<open>A daemon whose transaction ids of a block hash up to the Merkle root in the header of the block.\<close>

definition honest_blocks :: "(Bytes \<Rightarrow> Bytes) \<Rightarrow> 'f Query \<Rightarrow> bool" where
  "honest_blocks D q \<longleftrightarrow> (\<forall>e\<in>set (hl_headers (ix_headers (q_index q))). \<forall>txids.
     getblocktxids q (he_hash e) = Inr txids \<longrightarrow> mroot D (depth (length txids)) txids = merkle_root (he_header e))"

lemma database_tx_store:
  assumes "codec_laws L" "rocksdb_store D dinv dmap" "dinv (ds_db s)" "indexed L (dmap (ds_db s)) T"
  shows "tx_store L (dbstore_read D s) T (other_rows (dmap (ds_db s)))"
  using read_store.indexed_tx_store [OF write_store.axioms(1) [OF rocksdb_store.dbs_write_store [OF assms(2)]], of L s T]
    assms(1,3,4) by simp

lemma mempool_tx_store:
  assumes "codec_laws L" "tracker_ok L t" "tracked_wf t"
  shows "tx_store L (tracker_index t) (tracked_txs t) {}"
  by (rule tracked_mempool.mp_tx_store) (simp add: tracked_mempool_def tracked_mempool_axioms_def assms)

lemma estimate_loop_bin:
  assumes "bins \<noteq> []" "unat acc + (\<Sum>b\<leftarrow>bins. unat (snd b)) < 2 ^ 32"
  shows "\<exists>k<length bins. estimate_loop target bins acc rate = fst (bins ! k) \<and>
    (\<forall>j\<le>k. unat acc + (\<Sum>b\<leftarrow>take j bins. unat (snd b)) < unat target \<or> j = 0) \<and>
    (unat target \<le> unat acc + (\<Sum>b\<leftarrow>take (Suc k) bins. unat (snd b)) \<or> Suc k = length bins)"
  using assms
proof (induction bins arbitrary: acc rate)
  case (Cons bin bins)
  obtain fee vsize where bin: "bin = (fee, vsize)" by (cases bin)
  have sum: "unat (acc + vsize) = unat acc + unat vsize"
    using Cons.prems(2) unfolding bin by (intro unat_add_lem [THEN iffD1]) simp
  show ?case
  proof (cases "target \<le> acc + vsize \<or> bins = []")
    case True
    then show ?thesis using sum by (intro exI [of _ 0]) (auto simp: bin word_le_nat_alt)
  next
    case False
    then have below: "unat acc + unat vsize < unat target" using sum by (simp add: word_le_nat_alt not_le)
    obtain k where k: "k < length bins" "estimate_loop target bins (acc + vsize) fee = fst (bins ! k)"
      "\<forall>j\<le>k. unat acc + unat vsize + (\<Sum>b\<leftarrow>take j bins. unat (snd b)) < unat target \<or> j = 0"
      "unat target \<le> unat acc + unat vsize + (\<Sum>b\<leftarrow>take (Suc k) bins. unat (snd b)) \<or> Suc k = length bins"
      using Cons.IH [of "acc + vsize" fee] False Cons.prems(2) by (auto simp: sum bin add.assoc)
    have "unat acc + (\<Sum>b\<leftarrow>take j (bin # bins). unat (snd b)) < unat target \<or> j = 0" if "j \<le> Suc k" for j
      using k(3) below that by (cases j) (fastforce simp: bin add.assoc)+
    then show ?thesis using k(1,2,4) False by (intro exI [of _ "Suc k"]) (auto simp: bin add.assoc)
  qed
qed simp

section \<open>A query over the demonstration database\<close>

definition demo_crates :: crates where
  "demo_crates = \<lparr>cr_libs = std_libs, cr_hex = std_hex, cr_rt = std_runtime,
     cr_addr = \<lparr>addr_decode = (\<lambda>s. if s = ''a'' then Inr (KeyHash, [1]) else Inl ''bad address''), into_script = (\<lambda>_. [0x51])\<rparr>,
     cr_script = \<lparr>sc_is_op_return = (\<lambda>_. False), sc_from_script = (\<lambda>_ _. None), sc_address_type = (\<lambda>_. None),
       sc_is_standard = (\<lambda>_. True), sc_encode = (\<lambda>_ _ _. None), sc_asm = (\<lambda>_. [])\<rparr>,
     cr_tx = demo_codec, cr_sha256d = rev, cr_hash_from_hex = (\<lambda>s. hex_dec s), cr_ser_header = header_bytes,
     cr_decimal_div = (\<lambda>_ _. 0)\<rparr>"

definition demo_block_ids :: "Txid list" where
  "demo_block_ids = [replicate 32 1, replicate 32 2]"

definition demo_root_header :: BlockHeader where
  "demo_root_header = (demo_header 1 null_hash)\<lparr>merkle_root := rev (replicate 32 1 @ replicate 32 2)\<rparr>"

definition demo_root_chain :: HeaderList where
  "demo_root_chain = \<lparr>hl_headers = [\<lparr>he_height = 0, he_hash = demo_hash demo_root_header, he_header = demo_root_header\<rparr>],
     hl_heights = [demo_hash demo_root_header \<mapsto> 0]\<rparr>"

definition demo_query :: "nat Query" where
  "demo_query = \<lparr>q_store = dbstore_read btree_db demo_db, q_index = demo_index\<lparr>ix_headers := demo_root_chain\<rparr>,
     q_daemon = \<lparr>qd_getblocktxids = (\<lambda>_. Inr demo_block_ids), qd_broadcast = (\<lambda>_. bail ''rejected''),
       qd_get_relayfee = Inr 1, qd_get_subversion = Inr ''/BCHUnlimited/''\<rparr>,
     q_banner = ''hello'', q_tracker = tracker_new\<lparr>tk_histogram := [(9, 150000), (4, 3000000)]\<rparr>,
     q_tx = (\<lambda>_ _ _. Inr demo_coinbase)\<rparr>"

lemma demo_query_fields:
  "cr_libs demo_crates = std_libs" "cr_sha256d demo_crates = rev" "q_store demo_query = dbstore_read btree_db demo_db"
  "hl_headers (ix_headers (q_index demo_query)) =
     [\<lparr>he_height = 0, he_hash = demo_hash demo_root_header, he_header = demo_root_header\<rparr>]"
  "headers_len (ix_headers (q_index demo_query)) = 1"
  "getblocktxids demo_query bh = Inr demo_block_ids"
  "get_fee_histogram demo_query = [(9, 150000), (4, 3000000)]"
  "q_tx demo_query x y z = Inr demo_coinbase"
  "tracked_txs (q_tracker demo_query) = {}"
  by (simp_all add: demo_crates_def demo_query_def demo_root_chain_def headers_len_def getblocktxids_def
      get_fee_histogram_def tracked_txs_def tracker_new_def)

lemma demo_query_headers: "wf_headers demo_hash (ix_headers (q_index demo_query))"
  by (simp add: demo_query_def demo_root_chain_def wf_headers_def demo_root_header_def demo_header_def demo_hash_def)

lemma demo_query_honest: "honest_blocks rev demo_query"
  by (simp add: honest_blocks_def demo_query_fields demo_block_ids_def demo_root_header_def depth.simps merklize_def)

lemma demo_query_tracker: "tracker_ok std_libs (q_tracker demo_query)" "tracked_wf (q_tracker demo_query)"
proof -
  show "tracker_ok std_libs (q_tracker demo_query)"
    using tracker_new_ok [of std_libs] by (simp add: tracker_ok_def demo_query_def tracker_new_def)
qed (simp add: tracked_wf_def demo_query_fields)

lemma demo_query_serves: "serves std_libs (q_tx demo_query) {(demo_coinbase, 0)}" "serves std_libs (q_tx demo_query) {}"
  by (simp_all add: serves_def demo_query_fields)

lemma demo_db_ok: "bt_ok (ds_db demo_db)"
  unfolding demo_db_def by (rule refdb.dbs.write_invar) (simp add: demo_store_def bt_ok_def)

definition demo_sort :: "TxRow list \<Rightarrow> TxRow list" where
  "demo_sort = sort_by (\<lambda>a b. txr_height a \<le> txr_height b)"

lemma demo_sorts: "sorts_rows demo_sort"
  unfolding sorts_rows_def demo_sort_def by (intro allI conjI mset_sort_by sorted_sort_by) auto

section \<open>Properties\<close>

text \<open>C35: A Merkle proof of a transaction checks against the header of its block: for a height of the indexed chain
  whose block contains the transaction, the call succeeds, and hashing the transaction id up the
  returned branch from the returned position gives the Merkle root in the header at that height.\<close>

theorem merkle_proof_checks:
  assumes "wf_headers H (ix_headers (q_index q))" "honest_blocks (cr_sha256d K) q"
    and "height < headers_len (ix_headers (q_index q))"
    and "getblocktxids q (he_hash (hl_headers (ix_headers (q_index q)) ! height)) = Inr ids" "tx_hash \<in> set ids"
  shows "\<exists>branch pos. get_merkle_proof K q tx_hash height = Inr (branch, pos) \<and>
    pos < length ids \<and> ids ! pos = tx_hash \<and> length branch = depth (length ids) \<and>
    merkle_fold (cr_sha256d K) tx_hash branch pos =
      merkle_root (he_header (hl_headers (ix_headers (q_index q)) ! height))"
proof -
  let ?e = "hl_headers (ix_headers (q_index q)) ! height"
  have e: "get_header (q_index q) height = Inr (Some ?e)" "?e \<in> set (hl_headers (ix_headers (q_index q)))"
    using assms(3) by (simp_all add: get_header_def header_by_height_eq [OF assms(1)] headers_len_def)
  obtain pos where pos: "position (\<lambda>txid. txid = tx_hash) ids = Some pos"
    using assms(5) position_None [of "\<lambda>txid. txid = tx_hash" ids] by (cases "position (\<lambda>txid. txid = tx_hash) ids") auto
  then have p: "pos < length ids" "ids ! pos = tx_hash" unfolding position_iff by blast+
  show ?thesis
    using merkle_branch [OF p(1), of "cr_sha256d K"] assms(2,4) p e pos
    unfolding get_merkle_proof_def honest_blocks_def by auto
qed

theorem merkle_proof_checks_witness:
  "\<exists>branch pos. get_merkle_proof demo_crates demo_query (replicate 32 2) 0 = Inr (branch, pos) \<and>
    merkle_fold rev (replicate 32 2) branch pos = rev (replicate 32 1 @ replicate 32 2)"
  using merkle_proof_checks [OF demo_query_headers, of demo_crates 0 demo_block_ids "replicate 32 2"] demo_query_honest
  by (auto simp: demo_query_fields demo_block_ids_def demo_root_header_def)

text \<open>The Merkle proof of a header is given exactly when the checkpoint is between the height and the tip;
  its root is the Merkle root of the hashes of all headers up to the checkpoint, the hash of the
  header at the height hashes up to it along the branch, and no assertion fails.\<close>

lemma header_merkle_proof_checks:
  assumes "wf_headers H (ix_headers (q_index q))" "0 < headers_len (ix_headers (q_index q))"
  shows "if height \<le> cp_height \<and> cp_height < headers_len (ix_headers (q_index q))
    then \<exists>branch root. get_header_merkle_proof K q height cp_height = Inr (branch, root) \<and>
      root = mroot (cr_sha256d K) (depth (Suc cp_height))
        (map he_hash (take (Suc cp_height) (hl_headers (ix_headers (q_index q))))) \<and>
      merkle_fold (cr_sha256d K) (he_hash (hl_headers (ix_headers (q_index q)) ! height)) branch height = root
    else \<exists>m. get_header_merkle_proof K q height cp_height = bail m"
proof -
  let ?hs = "hl_headers (ix_headers (q_index q))"
  obtain best where best: "get_best_header q = Inr best" "he_height best = length ?hs - 1"
    using best_header_height [OF assms] by (auto simp: get_best_header_def headers_len_def)
  show ?thesis
  proof (cases "height \<le> cp_height \<and> cp_height < length ?hs")
    case True
    have hs: "get_headers q [0..<Suc cp_height] = Inr (take (Suc cp_height) ?hs)"
      using get_headers_eq [OF assms(1), of "[0..<Suc cp_height]"] True
      by (simp add: headers_len_def list_eq_iff_nth_eq nth_append less_Suc_eq)
    define xs where "xs = map he_hash (take (Suc cp_height) ?hs)"
    have xs: "length xs = Suc cp_height" "height < length xs" "xs ! height = he_hash (?hs ! height)"
      using True by (simp_all add: xs_def)
    have "\<not> he_height best < cp_height" using True best(2) by linarith
    then have "get_header_merkle_proof K q height cp_height = create_merkle_branch_and_root (cr_sha256d K) xs height"
      unfolding get_header_merkle_proof_def Let_def hs best(1) and_then_Inr xs_def [symmetric]
      using True xs(1) by simp
    then show ?thesis
      using merkle_branch [OF xs(2), of "cr_sha256d K"] True unfolding xs(1,3) xs_def [symmetric]
      by (auto simp: headers_len_def)
  next
    case False
    have "cp_height < height \<or> he_height best < cp_height"
      using False best(2) assms(2) unfolding headers_len_def by linarith
    then have "\<exists>m. get_header_merkle_proof K q height cp_height = bail m"
      unfolding get_header_merkle_proof_def best(1) and_then_Inr Let_def by (auto simp: simp_thms)
    then show ?thesis using False unfolding headers_len_def by (simp only: if_False)
  qed
qed

text \<open>C34: The first use of a script hash: over a store that indexes the transactions \<open>T\<close> and a tracker, the query
  returns the height and id of an earliest transaction of \<open>T\<close> with an output to the script, even when
  other scripts or ids share its prefixes; if there is none, a tracked transaction; if there is none
  either, height 0.  (A payment in the genesis block, at height 0, is the excluded case.)\<close>

theorem first_use_correct:
  assumes "codec_laws (cr_libs K)" "rocksdb_store D dinv dmap" "dinv (ds_db s)"
    and "indexed (cr_libs K) (dmap (ds_db s)) T" "tracker_ok (cr_libs K) (q_tracker q)" "tracked_wf (q_tracker q)"
    and "q_store q = dbstore_read D s" "serves (cr_libs K) (q_tx q) T"
    and "serves (cr_libs K) (q_tx q) (tracked_txs (q_tracker q))"
    and "sorts_rows sort_rows" "length sh = 32" "\<forall>th\<in>T. pays (cr_libs K) sh (fst th) \<longrightarrow> snd th \<noteq> 0"
  shows "\<exists>r. scripthash_first_use K sort_rows q sh = Inr r \<and>
    (if \<exists>th\<in>T. pays (cr_libs K) sh (fst th) then earliest (cr_libs K) T sh r
     else if \<exists>th\<in>tracked_txs (q_tracker q). pays (cr_libs K) sh (fst th)
     then earliest (cr_libs K) (tracked_txs (q_tracker q)) sh r
     else r = (0, null_hash))"
proof -
  let ?L = "cr_libs K" and ?M = "tracked_txs (q_tracker q)"
  obtain r where r: "first_use_in ?L sort_rows sh (q_tx q) (q_store q) = Inr r"
    "if \<exists>th\<in>T. pays ?L sh (fst th) then earliest ?L T sh r else r = (0, null_hash)"
    using tx_store.first_use_exact [OF database_tx_store [OF assms(1-4)] assms(8,10,11)] unfolding assms(7) by blast
  obtain m where m: "first_use_in ?L sort_rows sh (q_tx q) (tracker_index (q_tracker q)) = Inr m"
    "if \<exists>th\<in>?M. pays ?L sh (fst th) then earliest ?L ?M sh m else m = (0, null_hash)"
    using tx_store.first_use_exact [OF mempool_tx_store [OF assms(1,5,6)] assms(9-11)] by blast
  have "earliest ?L T sh r \<Longrightarrow> fst r \<noteq> 0" using assms(12) unfolding earliest_def by auto
  then show ?thesis using r m by (cases "\<exists>th\<in>T. pays ?L sh (fst th)") (auto simp: scripthash_first_use_def)
qed

theorem first_use_correct_witness:
  "scripthash_first_use demo_crates demo_sort demo_query (replicate 32 9) = Inr (0, null_hash)"
proof -
  have "\<not> pays std_libs (replicate 32 9) demo_coinbase"
  proof
    assume "pays std_libs (replicate 32 9) demo_coinbase"
    then have "hd (replicate 32 9) = hd (lib_sha256 std_libs [0x51])"
      by (simp add: pays_def demo_coinbase_eq compute_script_hash_def)
    then show False by (simp add: std_libs_def hd_fold32)
  qed
  then show ?thesis
    using first_use_correct [of demo_crates, unfolded demo_query_fields, OF std.codec_laws_axioms refdb.rocksdb_store_axioms
        demo_db_ok demo_db_indexed demo_query_tracker demo_query_fields(3)] demo_query_serves demo_sorts
    by (simp add: demo_query_fields)
qed

text \<open>C33: The spender of an output: over such a store and tracker, the query finds one exactly if a tracked or an
  indexed transaction has an input that spends the output, whatever prefixes collide; what it returns
  is such a transaction with its height, where a tracked one is preferred and has height 0.\<close>

theorem spender_found:
  assumes "codec_laws (cr_libs K)" "rocksdb_store D dinv dmap" "dinv (ds_db s)"
    and "indexed (cr_libs K) (dmap (ds_db s)) T" "tracker_ok (cr_libs K) (q_tracker q)" "tracked_wf (q_tracker q)"
    and "q_store q = dbstore_read D s" "serves (cr_libs K) (q_tx q) T"
    and "serves (cr_libs K) (q_tx q) (tracked_txs (q_tracker q))" "no_timeout tmo"
    and "length (op_txid po) = 32" "op_txid po \<noteq> null_hash"
  shows "\<exists>r. query_tx_spending_prevout K q po tmo = Inr r \<and>
    (case r of
       None \<Rightarrow> \<forall>th\<in>T \<union> tracked_txs (q_tracker q). \<not> spends (fst th) po
     | Some (tx, n, h) \<Rightarrow> spends tx po \<and>
         (if \<exists>th\<in>tracked_txs (q_tracker q). spends (fst th) po
          then h = 0 \<and> (tx, MEMPOOL_HEIGHT) \<in> tracked_txs (q_tracker q)
          else \<exists>h'. (tx, h') \<in> T \<and> h = (if h' = MEMPOOL_HEIGHT then 0 else h')))"
proof -
  let ?L = "cr_libs K" and ?M = "tracked_txs (q_tracker q)"
  obtain r where r: "get_tx_spending_prevout ?L (q_store q) (q_tx q) tmo po = Inr r"
    "r = None \<longleftrightarrow> (\<forall>th\<in>T. \<not> spends (fst th) po)"
    "\<forall>x. r = Some x \<longrightarrow> (\<exists>th\<in>T. spends (fst th) po \<and> x = spend_report po th)"
    using tx_store.spending_prevout_exact [OF database_tx_store [OF assms(1-4)] assms(8,10-12)] unfolding assms(7) by blast
  obtain m where m: "get_tx_spending_prevout ?L (tracker_index (q_tracker q)) (q_tx q) tmo po = Inr m"
    "m = None \<longleftrightarrow> (\<forall>th\<in>?M. \<not> spends (fst th) po)"
    "\<forall>x. m = Some x \<longrightarrow> (\<exists>th\<in>?M. spends (fst th) po \<and> x = spend_report po th)"
    using tx_store.spending_prevout_exact [OF mempool_tx_store [OF assms(1,5,6)] assms(9-12)] by blast
  have mp: "snd th = MEMPOOL_HEIGHT" if "th \<in> ?M" for th using that by (auto simp: tracked_txs_def)
  show ?thesis
  proof (cases m)
    case None
    then have "query_tx_spending_prevout K q po tmo = Inr r" using m(1) r(1) by (simp add: query_tx_spending_prevout_def)
    then show ?thesis
      using None m(2) r(2,3) by (cases r) (auto simp: spend_report_def)
  next
    case (Some x)
    then obtain th where th: "th \<in> ?M" "spends (fst th) po" "x = spend_report po th" using m(3) by blast
    have "query_tx_spending_prevout K q po tmo = Inr (Some x)" using Some m(1) unfolding query_tx_spending_prevout_def by (cases x) simp
    moreover have "(fst th, MEMPOOL_HEIGHT) \<in> ?M" using th(1) mp [OF th(1)] by (metis prod.collapse)
    moreover have "\<exists>th\<in>?M. spends (fst th) po" using th by blast
    ultimately show ?thesis using th(2) mp [OF th(1)] by (auto simp: th(3) spend_report_def)
  qed
qed

theorem spender_found_witness:
  "query_tx_spending_prevout demo_crates demo_query \<lparr>op_txid = replicate 32 1, op_vout = 0\<rparr> (\<lambda>_. Inr ()) = Inr None"
proof -
  have "\<not> spends demo_coinbase \<lparr>op_txid = replicate 32 1, op_vout = 0\<rparr>" "replicate 32 (1 :: u8) \<noteq> null_hash"
    by (simp_all add: spends_def demo_coinbase_eq null_hash_def)
  then show ?thesis
    using spender_found [of demo_crates, unfolded demo_query_fields, OF std.codec_laws_axioms refdb.rocksdb_store_axioms
        demo_db_ok demo_db_indexed demo_query_tracker demo_query_fields(3), of "\<lambda>_. Inr ()"
        "\<lparr>op_txid = replicate 32 1, op_vout = 0\<rparr>"] demo_query_serves
    by (auto simp: demo_query_fields no_timeout_def split: option.splits) (metis option.exhaust prod_cases3)
qed

text \<open>The fee estimate: while the histogram and the target stay below $2^{32}$ bytes, it is the fee rate of the
  first bin at which the bins add up to the target, or of the last bin when they never do.\<close>

lemma estimate_fee_bin:
  assumes "get_fee_histogram q \<noteq> []" "blocks * 1000000 < 2 ^ 32"
    and "(\<Sum>b\<leftarrow>get_fee_histogram q. unat (snd b)) < 2 ^ 32"
  shows "\<exists>k<length (get_fee_histogram q).
    estimate_fee F per_kb q blocks = per_kb (fst (get_fee_histogram q ! k)) \<and>
    (\<forall>j\<le>k. (\<Sum>b\<leftarrow>take j (get_fee_histogram q). unat (snd b)) < blocks * 1000000 \<or> j = 0) \<and>
    (blocks * 1000000 \<le> (\<Sum>b\<leftarrow>take (Suc k) (get_fee_histogram q). unat (snd b)) \<or>
     Suc k = length (get_fee_histogram q))"
proof -
  have b: "unat (of_nat blocks * 1000000 :: u64) = blocks * 1000000"
  proof -
    have "(of_nat blocks * 1000000 :: u64) = of_nat (blocks * 1000000)" by simp
    then show ?thesis using assms(2) by (simp only: unat_of_nat) simp
  qed
  then have "unat (ucast (of_nat blocks * 1000000 :: u64) :: u32) = blocks * 1000000"
    using unat_ucast_u64_u32 [of "of_nat blocks * 1000000"] assms(2) by simp
  then show ?thesis
    using estimate_loop_bin [of "get_fee_histogram q" 0 "ucast (of_nat blocks * 1000000 :: u64)" "f_zero F"] assms(1,3)
    by (auto simp: estimate_fee_def)
qed

text \<open>Past that bound the target wraps: 4295 blocks ask for 32704 bytes, which a single bin fills.\<close>

lemma estimate_target_wraps: "(ucast (of_nat 4295 * 1000000 :: u64) :: u32) = 32704"
  by simp

end
