(* ===== verification/Blockchain.thy ===== *)
theory Blockchain
  imports Query
begin

text \<open>
  The handlers of the blockchain calls (\<^verbatim>\<open>src/src/rpc/scripthash.rs\<close>, \<^verbatim>\<open>src/src/rpc/blockchain.rs\<close>) with the
  state a connection keeps: its subscriptions with the status hash the client was last told, the last
  header it was told, and the bytes its address aliases take.  A handler that changes this state
  returns the new state with its result; the others only read the query.
\<close>

section \<open>Script hash calls\<close>

text \<open>
  The environment of the handlers: the crates, the unstable sort, and the floating-point operations
  of the fee calls.
\<close>

record 'f rpc_env =
  en_crates :: crates
  en_sort_rows :: "TxRow list \<Rightarrow> TxRow list"
  en_f32 :: "'f f32_ops"
  en_per_kb :: "'f \<Rightarrow> f64"
  en_f64_max :: "f64 \<Rightarrow> f64 \<Rightarrow> f64"
  en_f32_json :: "'f \<Rightarrow> Value"
  en_network :: Network

abbreviation en_libs :: "'f rpc_env \<Rightarrow> libs" where
  "en_libs E \<equiv> cr_libs (en_crates E)"

abbreviation en_hex :: "'f rpc_env \<Rightarrow> hex_crate" where
  "en_hex E \<equiv> cr_hex (en_crates E)"

abbreviation en_hash_hex :: "'f rpc_env \<Rightarrow> Bytes \<Rightarrow> string" where
  "en_hash_hex E \<equiv> cr_hash_hex (en_crates E)"

definition query_status :: "'f rpc_env \<Rightarrow> 'f Query \<Rightarrow> FullHash \<Rightarrow> timeout \<Rightarrow> Status result" where
  "query_status E q scripthash tmo = status (en_libs E) (q_store q) (q_tracker q) scripthash (q_tx q) tmo"

definition query_status_mempool :: "'f rpc_env \<Rightarrow> 'f Query \<Rightarrow> FullHash \<Rightarrow> timeout \<Rightarrow> Status result" where
  "query_status_mempool E q scripthash tmo =
     status_mempool (en_libs E) (q_store q) (q_tracker q) scripthash (q_tx q) tmo"

definition unspent_to_json :: "'f rpc_env \<Rightarrow> FundingOutput \<Rightarrow> Value" where
  "unspent_to_json E out = VObject [
     (''height'', VInt (if fo_height out = MEMPOOL_HEIGHT then 0 else uint (fo_height out))),
     (''tx_pos'', VInt (uint (op_vout (fo_funding_output out)))),
     (''tx_hash'', VString (en_hash_hex E (op_txid (fo_funding_output out)))),
     (''value'', VInt (uint (fo_value out)))]"

definition unspent_from_status :: "'f rpc_env \<Rightarrow> Status \<Rightarrow> Value" where
  "unspent_from_status E st = VArray (map (unspent_to_json E) (unspent (cr_rt (en_crates E)) st))"

definition get_balance :: "'f rpc_env \<Rightarrow> 'f Query \<Rightarrow> FullHash \<Rightarrow> timeout \<Rightarrow> Value result" where
  "get_balance E q scripthash tmo =
     and_then (query_status E q scripthash tmo) (\<lambda>st.
     Inr (VObject [
       (''confirmed'', VInt (sint (confirmed_balance st))),
       (''unconfirmed'', VInt (sint (mempool_balance st)))]))"

definition get_first_use :: "'f rpc_env \<Rightarrow> 'f Query \<Rightarrow> FullHash \<Rightarrow> Value result" where
  "get_first_use E q scripthash =
     and_then (scripthash_first_use (en_crates E) (en_sort_rows E) q scripthash) (\<lambda>firstuse.
     if fst firstuse = 0
     then bail_kind (RpcError NotFound (''scripthash '' @ [CHR 0x27] @ to_le_hex (en_hex E) scripthash @ [CHR 0x27] @ '' not found''))
     else and_then (if fst firstuse = MEMPOOL_HEIGHT then Inr null_hash
                    else and_then (get_headers q [unat (fst firstuse)]) (\<lambda>h.
                      Inr (case h of [] \<Rightarrow> null_hash | e # _ \<Rightarrow> he_hash e))) (\<lambda>blockhash.
       let height = (if fst firstuse = MEMPOOL_HEIGHT then 0 else fst firstuse) in
       Inr (VObject [
         (''block_hash'', VString (en_hash_hex E blockhash)),
         (''height'', VInt (uint height)),
         (''block_height'', VInt (uint height)),
         (''tx_hash'', VString (en_hash_hex E (snd firstuse)))])))"

definition get_history :: "'f rpc_env \<Rightarrow> 'f Query \<Rightarrow> FullHash \<Rightarrow> timeout \<Rightarrow> Value result" where
  "get_history E q scripthash tmo =
     and_then (query_status E q scripthash tmo) (\<lambda>st.
     Inr (VArray (map (historyitem_to_json (en_crates E)) (history (cr_rt (en_crates E)) st))))"

definition get_mempool :: "'f rpc_env \<Rightarrow> 'f Query \<Rightarrow> FullHash \<Rightarrow> timeout \<Rightarrow> Value result" where
  "get_mempool E q scripthash tmo =
     and_then (query_status_mempool E q scripthash tmo) (\<lambda>st.
     Inr (VArray (map (historyitem_to_json (en_crates E)) (history (cr_rt (en_crates E)) st))))"

definition listunspent :: "'f rpc_env \<Rightarrow> 'f Query \<Rightarrow> FullHash \<Rightarrow> timeout \<Rightarrow> Value result" where
  "listunspent E q scripthash tmo =
     and_then (query_status E q scripthash tmo) (\<lambda>st. Inr (unspent_from_status E st))"

section \<open>The state of a connection\<close>

record Subscription =
  sub_statushash :: "FullHash option"
  sub_alias :: "string option"

record BlockchainRpc =
  br_subscriptions :: "(FullHash \<times> Subscription) list"
  br_last_header_entry :: "HeaderEntry option"
  br_relayfee :: f64
  br_doslimits :: ConnectionLimits
  br_alias_bytes_used :: u64

definition blockchainrpc_new :: "f64 \<Rightarrow> ConnectionLimits \<Rightarrow> BlockchainRpc" where
  "blockchainrpc_new fee doslimits =
     \<lparr>br_subscriptions = [], br_last_header_entry = None, br_relayfee = fee, br_doslimits = doslimits,
      br_alias_bytes_used = 0\<rparr>"

definition get_num_subscriptions :: "BlockchainRpc \<Rightarrow> nat" where
  "get_num_subscriptions b = length (br_subscriptions b)"

definition remove_subscription :: "BlockchainRpc \<Rightarrow> FullHash \<Rightarrow> BlockchainRpc \<times> bool" where
  "remove_subscription b scripthash =
     (case map_of (br_subscriptions b) scripthash of
        None \<Rightarrow> (b, False)
      | Some subscription \<Rightarrow>
          (b\<lparr>br_subscriptions := AList.delete scripthash (br_subscriptions b),
             br_alias_bytes_used := (case sub_alias subscription of
               Some alias \<Rightarrow> br_alias_bytes_used b - of_nat (length alias)
             | None \<Rightarrow> br_alias_bytes_used b)\<rparr>, True))"

definition address_scripthash :: "'f rpc_env \<Rightarrow> Value list \<Rightarrow> (string \<times> FullHash) result" where
  "address_scripthash E params =
     and_then (str_from_value (slice_get params 0) ''address'') (\<lambda>addr.
     and_then (addr_to_scripthash (en_libs E) (cr_addr (en_crates E)) addr) (\<lambda>scripthash.
     Inr (addr, scripthash)))"

definition address_get_balance :: "'f rpc_env \<Rightarrow> 'f Query \<Rightarrow> Value list \<Rightarrow> timeout \<Rightarrow> Value result" where
  "address_get_balance E q params tmo =
     and_then (address_scripthash E params) (\<lambda>(_, scripthash). get_balance E q scripthash tmo)"

definition address_get_first_use :: "'f rpc_env \<Rightarrow> 'f Query \<Rightarrow> Value list \<Rightarrow> Value result" where
  "address_get_first_use E q params =
     and_then (address_scripthash E params) (\<lambda>(_, scripthash). get_first_use E q scripthash)"

definition address_get_history :: "'f rpc_env \<Rightarrow> 'f Query \<Rightarrow> Value list \<Rightarrow> timeout \<Rightarrow> Value result" where
  "address_get_history E q params tmo =
     and_then (address_scripthash E params) (\<lambda>(_, scripthash). get_history E q scripthash tmo)"

definition address_get_mempool :: "'f rpc_env \<Rightarrow> 'f Query \<Rightarrow> Value list \<Rightarrow> timeout \<Rightarrow> Value result" where
  "address_get_mempool E q params tmo =
     and_then (address_scripthash E params) (\<lambda>(_, scripthash). get_mempool E q scripthash tmo)"

definition address_get_scripthash :: "'f rpc_env \<Rightarrow> Value list \<Rightarrow> Value result" where
  "address_get_scripthash E params =
     and_then (address_scripthash E params) (\<lambda>(_, scripthash). Inr (VString (to_le_hex (en_hex E) scripthash)))"

definition address_listunspent :: "'f rpc_env \<Rightarrow> 'f Query \<Rightarrow> Value list \<Rightarrow> timeout \<Rightarrow> Value result" where
  "address_listunspent E q params tmo =
     and_then (address_scripthash E params) (\<lambda>(_, scripthash). listunspent E q scripthash tmo)"

text \<open>\<^verbatim>\<open>statushash.map_or(Value::Null, |h| json!(hex::encode(h)))\<close>.\<close>

definition statushash_json :: "'f rpc_env \<Rightarrow> FullHash option \<Rightarrow> Value" where
  "statushash_json E = json_opt (\<lambda>h. VString (hex_encode (en_hex E) h))"

text \<open>
  An existing subscription is removed before the limits are checked and the status is read, so a
  failure after that point has still removed it.
\<close>

definition address_subscribe :: "'f rpc_env \<Rightarrow> 'f Query \<Rightarrow> BlockchainRpc \<Rightarrow> Value list \<Rightarrow> timeout \<Rightarrow>
    BlockchainRpc \<times> Value result" where
  "address_subscribe E q b params tmo =
     (case address_scripthash E params of
        Inl e \<Rightarrow> (b, Inl e)
      | Inr (addr, scripthash) \<Rightarrow>
          let b = fst (remove_subscription b scripthash) in
          (case and_then (check_subscriptions (br_doslimits b) (of_nat (get_num_subscriptions b) + 1)) (\<lambda>_.
                and_then (check_alias_usage (br_doslimits b) (unat (br_alias_bytes_used b + of_nat (length addr)))) (\<lambda>_.
                query_status E q scripthash tmo)) of
             Inl e \<Rightarrow> (b, Inl e)
           | Inr st \<Rightarrow>
               let statushash = status_hash (en_libs E) (cr_rt (en_crates E)) st in
               (b\<lparr>br_alias_bytes_used := br_alias_bytes_used b + of_nat (length addr),
                  br_subscriptions := AList.update scripthash \<lparr>sub_statushash = statushash, sub_alias = Some addr\<rparr>
                    (br_subscriptions b)\<rparr>,
                Inr (statushash_json E statushash))))"

definition address_unsubscribe :: "'f rpc_env \<Rightarrow> BlockchainRpc \<Rightarrow> Value list \<Rightarrow> BlockchainRpc \<times> Value result" where
  "address_unsubscribe E b params =
     (case address_scripthash E params of
        Inl e \<Rightarrow> (b, Inl e)
      | Inr (_, scripthash) \<Rightarrow>
          let (b', removed) = remove_subscription b scripthash in (b', Inr (VBool removed)))"

definition header_hex :: "'f rpc_env \<Rightarrow> HeaderEntry \<Rightarrow> string" where
  "header_hex E entry = hex_encode (en_hex E) (cr_ser_header (en_crates E) (he_header entry))"

definition block_header :: "'f rpc_env \<Rightarrow> 'f Query \<Rightarrow> Value list \<Rightarrow> Value result" where
  "block_header E q params =
     and_then (usize_from_value (slice_get params 0) ''height'') (\<lambda>height.
     and_then (usize_from_value_or (slice_get params 1) ''cp_height'' 0) (\<lambda>cp_height.
     and_then (get_headers q [height]) (\<lambda>headers.
     let raw_header_hex = concat (map (header_hex E) headers) in
     if cp_height = 0 then Inr (VString raw_header_hex)
     else and_then (get_header_merkle_proof (en_crates E) q height cp_height) (\<lambda>(branch, root).
       Inr (VObject [
         (''header'', VString raw_header_hex),
         (''root'', VString (en_hash_hex E root)),
         (''branch'', VArray (map (\<lambda>h. VString (en_hash_hex E h)) branch))])))))"

text \<open>Both sums are on \<^verbatim>\<open>usize\<close>; a wrapped range is empty.\<close>

definition block_headers :: "'f rpc_env \<Rightarrow> 'f Query \<Rightarrow> Value list \<Rightarrow> Value result" where
  "block_headers E q params =
     and_then (usize_from_value (slice_get params 0) ''start_height'') (\<lambda>start_height.
     and_then (usize_from_value (slice_get params 1) ''count'') (\<lambda>count.
     and_then (usize_from_value_or (slice_get params 2) ''cp_height'' 0) (\<lambda>cp_height.
     let heights = [start_height..<(start_height + count) mod 2 ^ 64] in
     and_then (get_headers q heights) (\<lambda>entries.
     let headers = map (header_hex E) entries;
         common = [
           (''count'', VInt (int (length headers))),
           (''hex'', VString (concat headers)),
           (''max'', VInt 2016)]
     in if count = 0 \<or> cp_height = 0 then Inr (VObject common)
        else and_then (get_header_merkle_proof (en_crates E) q ((start_height + (count - 1)) mod 2 ^ 64) cp_height)
          (\<lambda>(branch, root). Inr (VObject (common @ [
            (''root'', VString (en_hash_hex E root)),
            (''branch'', VArray (map (\<lambda>h. VString (en_hash_hex E h)) branch))])))))))"

definition estimatefee :: "'f rpc_env \<Rightarrow> 'f Query \<Rightarrow> BlockchainRpc \<Rightarrow> Value list \<Rightarrow> Value result" where
  "estimatefee E q b params =
     and_then (usize_from_value (slice_get params 0) ''blocks_count'') (\<lambda>blocks_count.
     let fee_rate = estimate_fee (en_f32 E) (en_per_kb E) q blocks_count in
     Inr (VFloat (en_f64_max E fee_rate (br_relayfee b))))"

definition header_json :: "'f rpc_env \<Rightarrow> HeaderEntry \<Rightarrow> Value" where
  "header_json E entry = VObject [(''hex'', VString (header_hex E entry)), (''height'', VInt (int (he_height entry)))]"

definition headers_subscribe :: "'f rpc_env \<Rightarrow> 'f Query \<Rightarrow> BlockchainRpc \<Rightarrow> BlockchainRpc \<times> Value result" where
  "headers_subscribe E q b =
     (case get_best_header q of
        Inl e \<Rightarrow> (b, Inl e)
      | Inr entry \<Rightarrow> (b\<lparr>br_last_header_entry := Some entry\<rparr>, Inr (header_json E entry)))"

definition relayfee :: "BlockchainRpc \<Rightarrow> Value result" where
  "relayfee b = Inr (VFloat (br_relayfee b))"

definition scripthash_get_balance :: "'f rpc_env \<Rightarrow> 'f Query \<Rightarrow> Value list \<Rightarrow> timeout \<Rightarrow> Value result" where
  "scripthash_get_balance E q params tmo =
     and_then (scripthash_from_value (en_hex E) (slice_get params 0)) (\<lambda>scripthash. get_balance E q scripthash tmo)"

definition scripthash_get_first_use :: "'f rpc_env \<Rightarrow> 'f Query \<Rightarrow> Value list \<Rightarrow> Value result" where
  "scripthash_get_first_use E q params =
     and_then (scripthash_from_value (en_hex E) (slice_get params 0)) (\<lambda>scripthash. get_first_use E q scripthash)"

definition scripthash_get_history :: "'f rpc_env \<Rightarrow> 'f Query \<Rightarrow> Value list \<Rightarrow> timeout \<Rightarrow> Value result" where
  "scripthash_get_history E q params tmo =
     and_then (scripthash_from_value (en_hex E) (slice_get params 0)) (\<lambda>scripthash. get_history E q scripthash tmo)"

definition scripthash_get_mempool :: "'f rpc_env \<Rightarrow> 'f Query \<Rightarrow> Value list \<Rightarrow> timeout \<Rightarrow> Value result" where
  "scripthash_get_mempool E q params tmo =
     and_then (scripthash_from_value (en_hex E) (slice_get params 0)) (\<lambda>scripthash. get_mempool E q scripthash tmo)"

definition scripthash_listunspent :: "'f rpc_env \<Rightarrow> 'f Query \<Rightarrow> Value list \<Rightarrow> timeout \<Rightarrow> Value result" where
  "scripthash_listunspent E q params tmo =
     and_then (scripthash_from_value (en_hex E) (slice_get params 0)) (\<lambda>scripthash. listunspent E q scripthash tmo)"

definition scripthash_subscribe :: "'f rpc_env \<Rightarrow> 'f Query \<Rightarrow> BlockchainRpc \<Rightarrow> Value list \<Rightarrow> timeout \<Rightarrow>
    BlockchainRpc \<times> Value result" where
  "scripthash_subscribe E q b params tmo =
     (case scripthash_from_value (en_hex E) (slice_get params 0) of
        Inl e \<Rightarrow> (b, Inl e)
      | Inr scripthash \<Rightarrow>
          let b = fst (remove_subscription b scripthash) in
          (case and_then (check_subscriptions (br_doslimits b) (of_nat (get_num_subscriptions b) + 1)) (\<lambda>_.
                query_status E q scripthash tmo) of
             Inl e \<Rightarrow> (b, Inl e)
           | Inr st \<Rightarrow>
               let statushash = status_hash (en_libs E) (cr_rt (en_crates E)) st in
               (b\<lparr>br_subscriptions := AList.update scripthash \<lparr>sub_statushash = statushash, sub_alias = None\<rparr>
                    (br_subscriptions b)\<rparr>,
                Inr (statushash_json E statushash))))"

definition scripthash_unsubscribe :: "'f rpc_env \<Rightarrow> BlockchainRpc \<Rightarrow> Value list \<Rightarrow> BlockchainRpc \<times> Value result" where
  "scripthash_unsubscribe E b params =
     (case scripthash_from_value (en_hex E) (slice_get params 0) of
        Inl e \<Rightarrow> (b, Inl e)
      | Inr scripthash \<Rightarrow>
          let (b', removed) = remove_subscription b scripthash in (b', Inr (VBool removed)))"

definition transaction_broadcast :: "'f rpc_env \<Rightarrow> 'f Query \<Rightarrow> Value list \<Rightarrow> Value result" where
  "transaction_broadcast E q params =
     and_then (ok_or (rpc_arg_error ''missing tx'') (slice_get params 0)) (\<lambda>tx.
     and_then (ok_or (rpc_arg_error ''non-string tx'') (as_str tx)) (\<lambda>tx.
     and_then (ok_or (rpc_arg_error ''non-hex tx'') (hex_decode (en_hex E) tx)) (\<lambda>tx.
     and_then (ok_or (rpc_arg_error ''failed to parse tx'') (tx_deserialize (cr_tx (en_crates E)) tx)) (\<lambda>tx.
     and_then (chain_err (rpc_arg_error ''rejected by network'') (query_broadcast q tx)) (\<lambda>txid.
     Inr (VString (en_hash_hex E txid)))))))"

definition transaction_get :: "'f rpc_env \<Rightarrow> 'f Query \<Rightarrow> Value list \<Rightarrow> Value result" where
  "transaction_get E q params =
     and_then (hash_from_value (cr_hash_from_hex (en_crates E)) (slice_get params 0)) (\<lambda>tx_hash.
     and_then (case slice_get params 1 of
                 Some val \<Rightarrow> ok_or (Msg ''non-bool verbose value'') (as_bool val)
               | None \<Rightarrow> Inr False) (\<lambda>verbose.
       if \<not> verbose
       then and_then (q_tx q tx_hash None None) (\<lambda>tx.
         Inr (VString (hex_encode (en_hex E) (tx_serialize (cr_tx (en_crates E)) tx))))
       else get_verbose (en_libs E) (cr_tx (en_crates E)) (en_hex E) (cr_script (en_crates E)) (en_hash_hex E)
         (cr_decimal_div (en_crates E)) (en_network E) (q_store q) (q_index q) (q_tx q) tx_hash))"

definition transaction_get_confirmed_blockhash :: "'f rpc_env \<Rightarrow> 'f Query \<Rightarrow> Value list \<Rightarrow> Value result" where
  "transaction_get_confirmed_blockhash E q params =
     and_then (chain_err (Msg ''bad tx_hash'')
       (hash_from_value (cr_hash_from_hex (en_crates E)) (slice_get params 0))) (\<lambda>tx_hash.
     get_confirmed_blockhash (en_crates E) q tx_hash)"

definition transaction_get_merkle :: "'f rpc_env \<Rightarrow> 'f Query \<Rightarrow> Value list \<Rightarrow> Value result" where
  "transaction_get_merkle E q params =
     and_then (hash_from_value (cr_hash_from_hex (en_crates E)) (slice_get params 0)) (\<lambda>tx_hash.
     and_then (if slice_get params 1 \<noteq> None then usize_from_value (slice_get params 1) ''height''
               else and_then (get_by_txid (en_libs E) (en_hash_hex E) (q_store q) (q_index q) tx_hash None) (\<lambda>header.
                 case header of
                   Some header \<Rightarrow> Inr (he_height header)
                 | None \<Rightarrow> bail_kind (rpc_arg_error (''Transaction '' @ [CHR 0x27] @ en_hash_hex E tx_hash @
                     [CHR 0x27] @ '' is not confirmed in a block'')))) (\<lambda>height.
     and_then (chain_err (Msg ''cannot create merkle proof'') (get_merkle_proof (en_crates E) q tx_hash height))
       (\<lambda>(merkle, pos). Inr (VObject [
         (''block_height'', VInt (int height)),
         (''merkle'', VArray (map (\<lambda>h. VString (en_hash_hex E h)) merkle)),
         (''pos'', VInt (int pos))]))))"

definition transaction_id_from_pos :: "'f rpc_env \<Rightarrow> 'f Query \<Rightarrow> Value list \<Rightarrow> Value result" where
  "transaction_id_from_pos E q params =
     and_then (usize_from_value (slice_get params 0) ''height'') (\<lambda>height.
     and_then (usize_from_value (slice_get params 1) ''tx_pos'') (\<lambda>tx_pos.
     and_then (bool_from_value_or (slice_get params 2) ''merkle'' False) (\<lambda>want_merkle.
     and_then (get_id_from_pos (en_crates E) q height tx_pos want_merkle) (\<lambda>(txid, merkle).
       if \<not> want_merkle then Inr (VString (en_hash_hex E txid))
       else Inr (VObject [
         (''tx_hash'', VString (en_hash_hex E txid)),
         (''merkle'', VArray (map (\<lambda>h. VString (en_hash_hex E h)) merkle))])))))"

definition utxo_report :: "'f rpc_env \<Rightarrow> TxOut \<Rightarrow> (Transaction \<times> u32 \<times> u32) option \<Rightarrow> int option \<Rightarrow> Value" where
  "utxo_report E utxo spend utxo_confirmation_height = VObject [
     (''status'', VString (if spend \<noteq> None then ''spent'' else ''unspent'')),
     (''amount'', VInt (uint (out_value utxo))),
     (''scripthash'', VString (to_le_hex (en_hex E) (compute_script_hash (en_libs E) (script_pubkey utxo)))),
     (''height'', json_opt VInt utxo_confirmation_height),
     (''spent'', case spend of
        Some (tx, input_index, height) \<Rightarrow> VObject [
          (''tx_hash'', VString (en_hash_hex E (lib_txid (en_libs E) tx))),
          (''tx_pos'', VInt (uint input_index)),
          (''height'', VInt (uint height))]
      | None \<Rightarrow> VObject [(''tx_hash'', VNull), (''tx_pos'', VNull), (''height'', VNull)])]"

definition utxo_get :: "'f rpc_env \<Rightarrow> 'f Query \<Rightarrow> Value list \<Rightarrow> timeout \<Rightarrow> Value result" where
  "utxo_get E q params tmo =
     and_then (hash_from_value (cr_hash_from_hex (en_crates E)) (slice_get params 0)) (\<lambda>txid.
     and_then (usize_from_value (slice_get params 1) ''out_n'') (\<lambda>out_n.
     if out_n > 2 ^ 32 - 1
     then bail_kind (rpc_arg_error (''Too large value for out_n parameter ('' @ show_nat out_n @ '' > '' @
       show_nat (2 ^ 32 - 1) @ '')''))
     else and_then (q_tx q txid None None) (\<lambda>utxo_creation_tx.
       and_then (tmo (UtxoCheck txid)) (\<lambda>_.
       case slice_get (tx_output utxo_creation_tx) out_n of
         None \<Rightarrow> bail_kind (rpc_invalid_params (''out_n '' @ show_nat out_n @ '' does not exist on tx '' @
           en_hash_hex E txid @ '', the transaction has '' @ show_nat (length (tx_output utxo_creation_tx)) @ '' outputs''))
       | Some utxo \<Rightarrow>
           and_then (query_tx_spending_prevout (en_crates E) q \<lparr>op_txid = txid, op_vout = of_nat out_n\<rparr> tmo) (\<lambda>spend.
           and_then (get_confirmation_height (en_libs E) (q_store q) (q_tracker q) txid) (\<lambda>utxo_confirmation_height.
           Inr (utxo_report E utxo spend utxo_confirmation_height)))))))"

section \<open>Notifications\<close>

definition on_chaintip_change :: "'f rpc_env \<Rightarrow> BlockchainRpc \<Rightarrow> HeaderEntry \<Rightarrow> BlockchainRpc \<times> Value option result" where
  "on_chaintip_change E b chaintip =
     (if br_last_header_entry b = None then (b, Inr None)
      else if br_last_header_entry b = Some chaintip then (b, Inr None)
      else (b\<lparr>br_last_header_entry := Some chaintip\<rparr>, Inr (Some (VObject [
        (''jsonrpc'', VString ''2.0''),
        (''method'', VString ''blockchain.headers.subscribe''),
        (''params'', VArray [header_json E chaintip])]))))"

definition on_scripthash_change :: "'f rpc_env \<Rightarrow> 'f Query \<Rightarrow> BlockchainRpc \<Rightarrow> FullHash \<Rightarrow> timeout \<Rightarrow>
    BlockchainRpc \<times> Value option result" where
  "on_scripthash_change E q b scripthash tmo =
     (case map_of (br_subscriptions b) scripthash of
        None \<Rightarrow> (b, Inr None)
      | Some subscription \<Rightarrow>
          (case query_status E q scripthash tmo of
             Inl e \<Rightarrow> (b, Inl e)
           | Inr st \<Rightarrow>
               let new_statushash = status_hash (en_libs E) (cr_rt (en_crates E)) st;
                   (subscription_name, meth) = (case sub_alias subscription of
                     Some alias \<Rightarrow> (alias, ''blockchain.address.subscribe'')
                   | None \<Rightarrow> (to_le_hex (en_hex E) scripthash, ''blockchain.scripthash.subscribe''))
               in if new_statushash = sub_statushash subscription then (b, Inr None)
                  else (b\<lparr>br_subscriptions := AList.update scripthash (subscription\<lparr>sub_statushash := new_statushash\<rparr>)
                            (br_subscriptions b)\<rparr>,
                        Inr (Some (VObject [
                          (''jsonrpc'', VString ''2.0''),
                          (''method'', VString meth),
                          (''params'', VArray [VString subscription_name, statushash_json E new_statushash])])))))"

section \<open>The subscriptions of a connection over time\<close>

text \<open>One step of a connection: a call that changes its state, or a notification, at any state of the index.\<close>

definition short_strings :: "Value list \<Rightarrow> bool" where
  "short_strings params \<longleftrightarrow> (\<forall>s. slice_get params 0 = Some (VString s) \<longrightarrow> length s < 2 ^ 63)"

inductive rpc_step :: "'f rpc_env \<Rightarrow> BlockchainRpc \<Rightarrow> BlockchainRpc \<Rightarrow> bool" for E :: "'f rpc_env" where
  addr_sub: "short_strings params \<Longrightarrow> address_subscribe E q b params tmo = (b', r) \<Longrightarrow> rpc_step E b b'"
| addr_unsub: "address_unsubscribe E b params = (b', r) \<Longrightarrow> rpc_step E b b'"
| sh_sub: "scripthash_subscribe E q b params tmo = (b', r) \<Longrightarrow> rpc_step E b b'"
| sh_unsub: "scripthash_unsubscribe E b params = (b', r) \<Longrightarrow> rpc_step E b b'"
| hdr_sub: "headers_subscribe E q b = (b', r) \<Longrightarrow> rpc_step E b b'"
| chaintip: "on_chaintip_change E b tip_header = (b', n) \<Longrightarrow> rpc_step E b b'"
| changed: "on_scripthash_change E q b sh tmo = (b', n) \<Longrightarrow> rpc_step E b b'"

definition alias_len :: "FullHash \<times> Subscription \<Rightarrow> nat" where
  "alias_len p = (case sub_alias (snd p) of Some a \<Rightarrow> length a | None \<Rightarrow> 0)"

definition subs_ok :: "BlockchainRpc \<Rightarrow> bool" where
  "subs_ok b \<longleftrightarrow> distinct (map fst (br_subscriptions b)) \<and>
     unat (br_alias_bytes_used b) = (\<Sum>p\<leftarrow>br_subscriptions b. alias_len p) \<and>
     unat (br_alias_bytes_used b) \<le> unat (cl_max_alias_bytes (br_doslimits b)) \<and>
     length (br_subscriptions b) \<le> unat (cl_max_subscriptions (br_doslimits b))"

lemma sum_delete:
  assumes "distinct (map fst xs)" "map_of xs k = Some v"
  shows "(\<Sum>p\<leftarrow>xs. f p) = f (k, v) + (\<Sum>p\<leftarrow>AList.delete k xs. (f p :: nat))" "length xs = Suc (length (AList.delete k xs))"
  using assms
proof (induction xs)
  case (Cons x xs)
  have same: "AList.delete k xs = xs" if "fst x = k" "distinct (map fst (x # xs))"
    using that AList.delete_idem [of k xs] by simp
  {
    case 1
    with Cons.IH(1) same show ?case by (cases "fst x = k"; cases x) auto
  next
    case 2
    with Cons.IH(2) same show ?case by (cases "fst x = k"; cases x) auto
  }
qed simp_all

lemma update_new: "map_of xs k = None \<Longrightarrow> AList.update k v xs = xs @ [(k, v)]"
  by (induction xs) auto

lemma map_of_removed: "map_of (br_subscriptions (fst (remove_subscription b sh))) sh = None"
  by (auto simp: remove_subscription_def map_of_delete AList.delete_conv' split: option.splits)

lemma remove_keeps:
  "br_doslimits (fst (remove_subscription b sh)) = br_doslimits b"
  "br_last_header_entry (fst (remove_subscription b sh)) = br_last_header_entry b"
  by (auto simp: remove_subscription_def split: option.splits)

lemma remove_ok:
  assumes "subs_ok b"
  shows "subs_ok (fst (remove_subscription b sh))"
proof (cases "map_of (br_subscriptions b) sh")
  case None
  then show ?thesis using assms by (simp add: remove_subscription_def)
next
  case (Some sub)
  have d: "distinct (map fst (br_subscriptions b))" using assms by (simp only: subs_ok_def)
  let ?n = "alias_len (sh, sub)" and ?rest = "AList.delete sh (br_subscriptions b)"
  have total: "unat (br_alias_bytes_used b) = ?n + (\<Sum>p\<leftarrow>?rest. alias_len p)"
    using sum_delete(1) [OF d Some, of alias_len] assms unfolding subs_ok_def by linarith
  then have n: "of_nat ?n \<le> br_alias_bytes_used b" "unat (of_nat ?n :: u64) = ?n"
    using unsigned_less [of "br_alias_bytes_used b", where 'a = nat] by (simp_all add: word_le_nat_alt unat_of_nat)
  have used: "br_alias_bytes_used (fst (remove_subscription b sh)) = br_alias_bytes_used b - of_nat ?n"
    using Some by (auto simp: remove_subscription_def alias_len_def split: option.splits)
  have "unat (br_alias_bytes_used b - of_nat ?n) = (\<Sum>p\<leftarrow>?rest. alias_len p)"
    using unat_sub [OF n(1)] n(2) total by simp
  moreover have "br_subscriptions (fst (remove_subscription b sh)) = ?rest"
    using Some by (simp add: remove_subscription_def)
  moreover have "length (br_subscriptions b) = Suc (length ?rest)" by (rule sum_delete(2) [OF d Some])
  ultimately show ?thesis
    using assms total d distinct_delete [OF d, of sh] unfolding subs_ok_def used remove_keeps by simp
qed

lemma check_subscriptions_ok:
  assumes "check_subscriptions l (of_nat n + 1) = Inr ()" "n \<le> unat (cl_max_subscriptions l)"
    and "unat (cl_max_subscriptions l) < 2 ^ 32 - 1"
  shows "n + 1 \<le> unat (cl_max_subscriptions l)"
proof -
  have "(of_nat n + 1 :: u32) = of_nat (n + 1)" by simp
  then have "unat (of_nat n + 1 :: u32) = n + 1" using assms(2,3) by (simp only: unat_of_nat) simp
  moreover have "(of_nat n + 1 :: u32) \<le> cl_max_subscriptions l"
    using assms(1) by (auto simp: check_subscriptions_def bail_kind_def split: if_splits)
  ultimately show ?thesis by (simp add: word_le_nat_alt)
qed

lemma add_ok:
  assumes "subs_ok b" "map_of (br_subscriptions b) sh = None"
    and "length (br_subscriptions b) + 1 \<le> unat (cl_max_subscriptions (br_doslimits b))"
    and "unat used = unat (br_alias_bytes_used b) + alias_len (sh, sub)"
    and "unat used \<le> unat (cl_max_alias_bytes (br_doslimits b))"
  shows "subs_ok (b\<lparr>br_alias_bytes_used := used, br_subscriptions := AList.update sh sub (br_subscriptions b)\<rparr>)"
  using assms by (auto simp: subs_ok_def update_new map_of_eq_None_iff)

lemma address_subscribe_ok:
  assumes ok: "subs_ok b" and lim: "unat (cl_max_subscriptions (br_doslimits b)) < 2 ^ 32 - 1"
    and short: "short_strings params" and run: "address_subscribe E q b params tmo = (b', r)"
  shows "subs_ok b' \<and> br_doslimits b' = br_doslimits b"
proof (cases "address_scripthash E params")
  case (Inl e)
  then show ?thesis using ok run by (simp add: address_subscribe_def)
next
  case (Inr p)
  obtain addr sh where p: "p = (addr, sh)" by (cases p)
  define b1 where "b1 = fst (remove_subscription b sh)"
  have b1: "subs_ok b1" "br_doslimits b1 = br_doslimits b" "map_of (br_subscriptions b1) sh = None"
    unfolding b1_def using remove_ok [OF ok] remove_keeps map_of_removed by blast+
  let ?checks = "and_then (check_subscriptions (br_doslimits b1) (of_nat (get_num_subscriptions b1) + 1)) (\<lambda>_.
      and_then (check_alias_usage (br_doslimits b1) (unat (br_alias_bytes_used b1 + of_nat (length addr)))) (\<lambda>_.
      query_status E q sh tmo))"
  show ?thesis
  proof (cases ?checks)
    case (Inl e)
    then show ?thesis using run b1 unfolding address_subscribe_def Inr p b1_def [symmetric] by (simp add: b1_def [symmetric])
  next
    case st: (Inr st)
    have sub: "length (br_subscriptions b1) + 1 \<le> unat (cl_max_subscriptions (br_doslimits b1))"
      using st b1(1,2) lim check_subscriptions_ok [of "br_doslimits b1" "length (br_subscriptions b1)"]
      by (auto simp: result_simps get_num_subscriptions_def subs_ok_def and_then_def split: sum.splits)
    have use: "unat (br_alias_bytes_used b1 + of_nat (length addr)) \<le> unat (cl_max_alias_bytes (br_doslimits b1))"
      using st by (auto simp: check_alias_usage_def and_then_def bail_kind_def split: sum.splits if_splits)
    have "length addr < 2 ^ 63" using short Inr p
      by (auto simp: short_strings_def address_scripthash_def str_from_value_def result_simps as_str_Some)
    moreover have "unat (br_alias_bytes_used b1) < 2 ^ 32"
      using b1(1) unsigned_less [of "cl_max_alias_bytes (br_doslimits b1)", where 'a = nat] by (simp add: subs_ok_def)
    ultimately have "unat (br_alias_bytes_used b1 + of_nat (length addr)) = unat (br_alias_bytes_used b1) + length addr"
      by (simp add: unat_word_ariths unat_of_nat)
    then have "subs_ok (b1\<lparr>br_alias_bytes_used := br_alias_bytes_used b1 + of_nat (length addr), br_subscriptions :=
        AList.update sh \<lparr>sub_statushash = h, sub_alias = Some addr\<rparr> (br_subscriptions b1)\<rparr>)" for h
      by (intro add_ok b1 sub use) (simp add: alias_len_def)
    then show ?thesis using run b1(2) st unfolding address_subscribe_def Inr p by (auto simp: b1_def [symmetric] Let_def)
  qed
qed

lemma scripthash_subscribe_ok:
  assumes ok: "subs_ok b" and lim: "unat (cl_max_subscriptions (br_doslimits b)) < 2 ^ 32 - 1"
    and run: "scripthash_subscribe E q b params tmo = (b', r)"
  shows "subs_ok b' \<and> br_doslimits b' = br_doslimits b"
proof (cases "scripthash_from_value (en_hex E) (slice_get params 0)")
  case (Inl e)
  then show ?thesis using ok run by (simp add: scripthash_subscribe_def)
next
  case (Inr sh)
  define b1 where "b1 = fst (remove_subscription b sh)"
  have b1: "subs_ok b1" "br_doslimits b1 = br_doslimits b" "map_of (br_subscriptions b1) sh = None"
    unfolding b1_def using remove_ok [OF ok] remove_keeps map_of_removed by blast+
  let ?checks = "and_then (check_subscriptions (br_doslimits b1) (of_nat (get_num_subscriptions b1) + 1)) (\<lambda>_.
      query_status E q sh tmo)"
  show ?thesis
  proof (cases ?checks)
    case (Inl e)
    then show ?thesis using run b1 unfolding scripthash_subscribe_def Inr by (simp add: b1_def [symmetric])
  next
    case st: (Inr st)
    have sub: "length (br_subscriptions b1) + 1 \<le> unat (cl_max_subscriptions (br_doslimits b1))"
      using st b1(1,2) lim check_subscriptions_ok [of "br_doslimits b1" "length (br_subscriptions b1)"]
      by (auto simp: result_simps get_num_subscriptions_def subs_ok_def and_then_def split: sum.splits)
    have "subs_ok (b1\<lparr>br_alias_bytes_used := br_alias_bytes_used b1, br_subscriptions :=
        AList.update sh \<lparr>sub_statushash = h, sub_alias = None\<rparr> (br_subscriptions b1)\<rparr>)" for h
      by (intro add_ok b1 sub) (use b1(1) in \<open>simp_all add: alias_len_def subs_ok_def\<close>)
    then show ?thesis using run b1(2) st unfolding scripthash_subscribe_def Inr by (auto simp: b1_def [symmetric] Let_def)
  qed
qed

lemma update_existing:
  assumes "map_of xs k = Some v" "g (k, v') = (g (k, v) :: 'b)"
  shows "map fst (AList.update k v' xs) = map fst xs" "map g (AList.update k v' xs) = map g xs"
  using assms by (induction xs) auto

lemma change_ok:
  assumes "subs_ok b" "on_scripthash_change E q b sh tmo = (b', n)"
  shows "subs_ok b' \<and> br_doslimits b' = br_doslimits b"
proof (cases "map_of (br_subscriptions b) sh")
  case (Some sub)
  have eq: "map fst (AList.update sh (sub\<lparr>sub_statushash := h\<rparr>) (br_subscriptions b)) = map fst (br_subscriptions b)"
    "map alias_len (AList.update sh (sub\<lparr>sub_statushash := h\<rparr>) (br_subscriptions b)) = map alias_len (br_subscriptions b)" for h
    using update_existing [OF Some, of alias_len "sub\<lparr>sub_statushash := h\<rparr>"] by (simp_all add: alias_len_def)
  then have "length (AList.update sh (sub\<lparr>sub_statushash := h\<rparr>) (br_subscriptions b)) = length (br_subscriptions b)" for h
    by (metis length_map)
  with eq have "subs_ok (b\<lparr>br_subscriptions := AList.update sh (sub\<lparr>sub_statushash := h\<rparr>) (br_subscriptions b)\<rparr>)" for h
    using assms(1) unfolding subs_ok_def by simp
  then show ?thesis
    using assms Some by (auto simp: on_scripthash_change_def Let_def split: sum.splits if_splits option.splits)
qed (use assms in \<open>simp add: on_scripthash_change_def\<close>)

lemma rpc_step_ok:
  assumes "rpc_step E b b'" "subs_ok b" "unat (cl_max_subscriptions (br_doslimits b)) < 2 ^ 32 - 1"
  shows "subs_ok b' \<and> br_doslimits b' = br_doslimits b"
  using assms(1)
proof cases
  case addr_sub
  then show ?thesis using address_subscribe_ok [OF assms(2,3)] by blast
next
  case addr_unsub
  then show ?thesis using assms(2) remove_ok [OF assms(2)] remove_keeps(1)
    by (auto simp: address_unsubscribe_def Let_def split: sum.splits prod.splits) (metis fst_conv)+
next
  case sh_sub
  then show ?thesis using scripthash_subscribe_ok [OF assms(2,3)] by blast
next
  case sh_unsub
  then show ?thesis using assms(2) remove_ok [OF assms(2)] remove_keeps(1)
    by (auto simp: scripthash_unsubscribe_def Let_def split: sum.splits prod.splits) (metis fst_conv)+
next
  case hdr_sub
  then show ?thesis using assms(2) by (auto simp: headers_subscribe_def subs_ok_def split: sum.splits)
next
  case chaintip
  then show ?thesis using assms(2) by (auto simp: on_chaintip_change_def subs_ok_def split: if_splits)
next
  case changed
  then show ?thesis using change_ok [OF assms(2)] by blast
qed

lemma rpc_steps_ok:
  assumes "(rpc_step E)\<^sup>*\<^sup>* (blockchainrpc_new fee limits) b" "unat (cl_max_subscriptions limits) < 2 ^ 32 - 1"
  shows "subs_ok b \<and> br_doslimits b = limits"
  using assms(1)
proof (induction rule: rtranclp_induct)
  case base
  show ?case by (simp add: subs_ok_def blockchainrpc_new_def)
next
  case (step b b')
  then show ?case using rpc_step_ok [OF step(2)] assms(2) by simp
qed

section \<open>What the calls report\<close>

text \<open>A query whose store indexes the transactions \<open>T\<close>, with a sound tracker and a lookup that serves both.\<close>

definition synced :: "libs \<Rightarrow> 'f Query \<Rightarrow> (Transaction \<times> u32) set \<Rightarrow> bool" where
  "synced L q T \<longleftrightarrow> (\<exists>X. tx_store L (q_store q) T X) \<and>
     tx_store L (tracker_index (q_tracker q)) (tracked_txs (q_tracker q)) {} \<and>
     serves L (q_tx q) (T \<union> tracked_txs (q_tracker q))"

lemma synced_serves:
  "synced L q T \<Longrightarrow> serves L (q_tx q) T" "synced L q T \<Longrightarrow> serves L (q_tx q) (tracked_txs (q_tracker q))"
  by (auto simp: synced_def serves_def)

lemma synced_database:
  assumes "codec_laws L" "rocksdb_store D dinv dmap" "dinv (ds_db s)" "indexed L (dmap (ds_db s)) T"
    and "tracker_ok L (q_tracker q)" "tracked_wf (q_tracker q)" "q_store q = dbstore_read D s"
    and "serves L (q_tx q) T" "serves L (q_tx q) (tracked_txs (q_tracker q))"
  shows "synced L q T"
  using database_tx_store [OF assms(1-4)] mempool_tx_store [OF assms(1,5,6)] assms(7-9)
  unfolding synced_def serves_def by auto

lemma confirmation_height_ok:
  assumes "tx_store L store T X" "length txid = 32"
  shows "\<exists>h. get_confirmation_height L store t txid = Inr h"
proof -
  have "\<exists>row. txrow_by_txid L store txid = Inr row"
    using tx_store.txrow_by_txid_exact [OF assms] by blast
  then show ?thesis
    by (cases "tx_confirmation_state t txid None") (auto simp: get_confirmation_height_def get_confirmed_height_for_tx_def)
qed

lemma spender_status:
  assumes "synced (cr_libs K) q T" "no_timeout tmo" "length (op_txid po) = 32" "op_txid po \<noteq> null_hash"
  shows "\<exists>r. query_tx_spending_prevout K q po tmo = Inr r \<and>
    (r \<noteq> None \<longleftrightarrow> (\<exists>th\<in>T \<union> tracked_txs (q_tracker q). spends (fst th) po))"
proof -
  let ?L = "cr_libs K"
  obtain X where X: "tx_store ?L (q_store q) T X" "tx_store ?L (tracker_index (q_tracker q)) (tracked_txs (q_tracker q)) {}"
    using assms(1) unfolding synced_def by blast
  obtain r where "get_tx_spending_prevout ?L (q_store q) (q_tx q) tmo po = Inr r"
    "r = None \<longleftrightarrow> (\<forall>th\<in>T. \<not> spends (fst th) po)"
    using tx_store.spending_prevout_exact [OF X(1) synced_serves(1) [OF assms(1)] assms(2-4)] by blast
  moreover obtain m where "get_tx_spending_prevout ?L (tracker_index (q_tracker q)) (q_tx q) tmo po = Inr m"
    "m = None \<longleftrightarrow> (\<forall>th\<in>tracked_txs (q_tracker q). \<not> spends (fst th) po)"
    using tx_store.spending_prevout_exact [OF X(2) synced_serves(2) [OF assms(1)] assms(2-4)] by blast
  ultimately show ?thesis unfolding query_tx_spending_prevout_def by (cases "m = None") auto
qed

text \<open>A connection over the demonstration database.\<close>

definition demo_env :: "nat rpc_env" where
  "demo_env = \<lparr>en_crates = demo_crates, en_sort_rows = demo_sort, en_f32 = demo_f32, en_per_kb = of_nat, en_f64_max = max,
     en_f32_json = (\<lambda>n. VInt (int n)), en_network = Regtest\<rparr>"

definition demo_limits :: ConnectionLimits where
  "demo_limits = ConnectionLimits_new 10 1 100"

definition demo_conn :: BlockchainRpc where
  "demo_conn = (blockchainrpc_new 1 demo_limits)\<lparr>br_subscriptions :=
     [(demo_script_hash, \<lparr>sub_statushash = None, sub_alias = None\<rparr>)]\<rparr>"

lemma demo_env_fields: "en_crates demo_env = demo_crates" "en_libs demo_env = std_libs" "en_hex demo_env = std_hex"
  "cr_libs demo_crates = std_libs" "cr_hex demo_crates = std_hex" "cr_rt demo_crates = std_runtime" "cr_hash_from_hex demo_crates = hex_dec"
  by (simp_all add: demo_env_def demo_crates_def)

lemma demo_synced: "synced std_libs demo_query {(demo_coinbase, 0)}"
  by (rule synced_database [OF std.codec_laws_axioms refdb.rocksdb_store_axioms demo_db_ok demo_db_indexed
      demo_query_tracker demo_query_fields(3) demo_query_serves(1)])
    (simp add: demo_query_fields demo_query_serves(2))

lemma demo_query_status: "\<exists>st. query_status demo_env demo_query demo_script_hash (\<lambda>_. Inr ()) = Inr st"
proof -
  obtain X where X: "tx_store std_libs (q_store demo_query) {(demo_coinbase, 0)} X"
    "tx_store std_libs (tracker_index (q_tracker demo_query)) {} {}"
    using demo_synced unfolding synced_def demo_query_fields by blast
  show ?thesis
    using status_exact [OF X demo_world demo_query_serves, of "\<lambda>_. Inr ()"]
    by (auto simp: query_status_def demo_env_fields no_timeout_def)
qed

section \<open>Properties\<close>

text \<open>C24: A notification about a script hash: a client that is subscribed is sent its status exactly when the
  current status hash differs from the one it was last told, under the name and method it subscribed
  with; afterwards the connection remembers the current status hash, and no other subscription changes.\<close>

theorem notification_tracks_status:
  assumes "map_of (br_subscriptions b) sh = Some sub" "query_status E q sh tmo = Inr st"
  shows "\<exists>b' n. on_scripthash_change E q b sh tmo = (b', Inr n) \<and>
    map_of (br_subscriptions b') = (map_of (br_subscriptions b))(sh \<mapsto>
      sub\<lparr>sub_statushash := status_hash (en_libs E) (cr_rt (en_crates E)) st\<rparr>) \<and>
    (n = None \<longleftrightarrow> status_hash (en_libs E) (cr_rt (en_crates E)) st = sub_statushash sub) \<and>
    (\<forall>v. n = Some v \<longrightarrow> value_get v ''params'' = Some (VArray [
        VString (case sub_alias sub of Some a \<Rightarrow> a | None \<Rightarrow> to_le_hex (en_hex E) sh),
        statushash_json E (status_hash (en_libs E) (cr_rt (en_crates E)) st)]) \<and>
      value_get v ''method'' = Some (VString (case sub_alias sub of
        Some _ \<Rightarrow> ''blockchain.address.subscribe'' | None \<Rightarrow> ''blockchain.scripthash.subscribe'')))"
proof (cases "status_hash (en_libs E) (cr_rt (en_crates E)) st = sub_statushash sub")
  case True
  then have "sub\<lparr>sub_statushash := status_hash (en_libs E) (cr_rt (en_crates E)) st\<rparr> = sub" by simp
  with True assms show ?thesis by (auto simp: on_scripthash_change_def Let_def fun_upd_idem split: prod.splits)
next
  case False
  with assms show ?thesis
    by (cases "sub_alias sub") (auto simp: on_scripthash_change_def Let_def update_conv' value_get_def)
qed

theorem notification_tracks_status_witness:
  "\<exists>b' n. on_scripthash_change demo_env demo_query demo_conn demo_script_hash (\<lambda>_. Inr ()) = (b', Inr n)"
proof -
  obtain st where "query_status demo_env demo_query demo_script_hash (\<lambda>_. Inr ()) = Inr st" using demo_query_status by blast
  moreover have "map_of (br_subscriptions demo_conn) demo_script_hash = Some \<lparr>sub_statushash = None, sub_alias = None\<rparr>"
    by (simp add: demo_conn_def)
  ultimately show ?thesis using notification_tracks_status by blast
qed

text \<open>C32: The status of an output by \<^verbatim>\<open>blockchain.utxo.get\<close>: for an existing output the call succeeds, and it reports
  the output as spent exactly if an indexed or a tracked transaction spends it, with its value.\<close>

theorem utxo_get_status:
  assumes "synced (en_libs E) q T" "no_timeout tmo" "cr_hash_from_hex (en_crates E) s = Some txid"
    and "length txid = 32" "txid \<noteq> null_hash" "q_tx q txid None None = Inr tx" "n < length (tx_output tx)" "n < 2 ^ 32"
  shows "\<exists>v. utxo_get E q [VString s, VInt (int n)] tmo = Inr v \<and>
    value_get v ''status'' = Some (VString (if \<exists>th\<in>T \<union> tracked_txs (q_tracker q).
      spends (fst th) \<lparr>op_txid = txid, op_vout = of_nat n\<rparr> then ''spent'' else ''unspent'')) \<and>
    value_get v ''amount'' = Some (VInt (uint (out_value (tx_output tx ! n))))"
proof -
  obtain X where X: "tx_store (en_libs E) (q_store q) T X" using assms(1) unfolding synced_def by blast
  obtain h where h: "get_confirmation_height (en_libs E) (q_store q) (q_tracker q) txid = Inr h"
    using confirmation_height_ok [OF X assms(4)] by blast
  obtain r where r: "query_tx_spending_prevout (en_crates E) q \<lparr>op_txid = txid, op_vout = of_nat n\<rparr> tmo = Inr r"
    "r \<noteq> None \<longleftrightarrow> (\<exists>th\<in>T \<union> tracked_txs (q_tracker q). spends (fst th) \<lparr>op_txid = txid, op_vout = of_nat n\<rparr>)"
    using spender_status [OF assms(1,2), of "\<lparr>op_txid = txid, op_vout = of_nat n\<rparr>"] assms(4,5) by auto
  have args: "hash_from_value (cr_hash_from_hex (en_crates E)) (slice_get [VString s, VInt (int n)] 0) = Inr txid"
    "usize_from_value (slice_get [VString s, VInt (int n)] 1) ''out_n'' = Inr n"
    using assms(3,8) by (simp_all add: hash_from_value_def usize_from_value_def unat_of_nat)
  have "utxo_get E q [VString s, VInt (int n)] tmo = Inr (utxo_report E (tx_output tx ! n) r h)"
    unfolding utxo_get_def args and_then_Inr using assms(2,6-8) r(1) h
    by (simp only: no_timeout_def slice_get_def) simp
  moreover have "value_get (utxo_report E (tx_output tx ! n) r h) ''status'' = Some (VString (if r \<noteq> None then ''spent'' else ''unspent''))"
    "value_get (utxo_report E (tx_output tx ! n) r h) ''amount'' = Some (VInt (uint (out_value (tx_output tx ! n))))"
    by (simp_all add: value_get_def utxo_report_def)
  ultimately show ?thesis unfolding r(2) [symmetric] by blast
qed

theorem utxo_get_status_witness:
  "\<exists>v. utxo_get demo_env demo_query [VString (hex_enc (lib_txid std_libs demo_coinbase)), VInt 0] (\<lambda>_. Inr ()) = Inr v \<and>
    value_get v ''status'' = Some (VString ''unspent'')"
proof -
  let ?txid = "lib_txid std_libs demo_coinbase"
  have n: "\<not> spends demo_coinbase \<lparr>op_txid = ?txid, op_vout = 0\<rparr>"
    using demo_txid_not_null by (simp add: spends_def) (simp add: demo_coinbase_eq)
  have "synced (en_libs demo_env) demo_query {(demo_coinbase, 0)}" "no_timeout (\<lambda>_. Inr ())"
    "cr_hash_from_hex (en_crates demo_env) (hex_enc ?txid) = Some ?txid" "length ?txid = 32"
    "q_tx demo_query ?txid None None = Inr demo_coinbase" "0 < length (tx_output demo_coinbase)" "(0 :: nat) < 2 ^ 32"
    using demo_synced by (simp_all add: demo_env_fields no_timeout_def hex_dec_enc std.txid_len demo_query_fields)
      (simp add: demo_coinbase_eq)
  from utxo_get_status [OF this(1-4) demo_txid_not_null this(5-7)] n show ?thesis
    by (auto simp: demo_query_fields)
qed



end
