(* ===== verification/Rpc.thy ===== *)
theory Rpc
  imports Blockchain
begin

text \<open>
  The server calls (\<^verbatim>\<open>src/src/rpc/server.rs\<close>) and the connection (\<^verbatim>\<open>src/src/rpc/mod.rs\<close>): the dispatch of a call to
  its handler, the JSON-RPC reply, the reader that splits the client's bytes into requests, the loop
  that serves requests and notifications, and the notifier that fans changes out to the connections.
  Parsing and printing of JSON and the order of versions are parameters.
\<close>

section \<open>Server calls\<close>

definition ELECTRSCASH_VERSION :: string where
  "ELECTRSCASH_VERSION = ''3.1.0''"

definition PROTOCOL_VERSION_MIN :: string where
  "PROTOCOL_VERSION_MIN = ''1.4''"

definition PROTOCOL_VERSION_MAX :: string where
  "PROTOCOL_VERSION_MAX = ''1.4.3''"

definition PROTOCOL_HASH_FUNCTION :: string where
  "PROTOCOL_HASH_FUNCTION = ''sha256''"

definition SPEC_DEFAULT_VERSION :: string where
  "SPEC_DEFAULT_VERSION = ''1.4''"

text \<open>The \<^verbatim>\<open>version_compare\<close> crate: a \<^verbatim>\<open>Version\<close> keeps the text it was parsed from.\<close>

record version_crate =
  ver_from :: "string \<Rightarrow> bool"
  ver_le :: "string \<Rightarrow> string \<Rightarrow> bool"

definition best_match :: "version_crate \<Rightarrow> string \<Rightarrow> string \<Rightarrow> string result" where
  "best_match V client_min client_max =
     and_then (require ''unwrap'' (ver_from V PROTOCOL_VERSION_MIN)) (\<lambda>_.
     and_then (require ''unwrap'' (ver_from V PROTOCOL_VERSION_MAX)) (\<lambda>_.
     let our_min = PROTOCOL_VERSION_MIN; our_max = PROTOCOL_VERSION_MAX in
     if ver_le V our_max client_max then Inr our_max
     else if ver_le V client_max our_min then Inr our_min
     else if ver_le V our_min client_min \<and> ver_le V client_max our_max then Inr client_max
     else Inr our_min))"

definition versionstr :: string where
  "versionstr = ''ElectrsCash '' @ ELECTRSCASH_VERSION"

definition best_match_response :: "version_crate \<Rightarrow> string \<Rightarrow> string \<Rightarrow> Value result" where
  "best_match_response V client_min client_max =
     and_then (best_match V client_min client_max) (\<lambda>m. Inr (VArray [VString versionstr, VString m]))"

definition parse_version :: "version_crate \<Rightarrow> string \<Rightarrow> string result" where
  "parse_version V version =
     (if ver_from V version then Inr version else bail_kind (rpc_arg_error ''invalid version string''))"

definition server_version :: "version_crate \<Rightarrow> Value list \<Rightarrow> Value result" where
  "server_version V params =
     (let val = (case slice_get params 1 of Some v \<Rightarrow> v | None \<Rightarrow> VString SPEC_DEFAULT_VERSION) in
      case str_from_value (Some val) ''version'' of
        Inr version \<Rightarrow> and_then (parse_version V version) (\<lambda>version. best_match_response V version version)
      | Inl _ \<Rightarrow>
          (case as_array val of
             Some minmax_list \<Rightarrow>
               and_then (expect ''index out of bounds'' (slice_get minmax_list 0)) (\<lambda>v.
               and_then (str_from_value (Some v) ''version'') (\<lambda>min.
               and_then (parse_version V min) (\<lambda>min.
               and_then (expect ''index out of bounds'' (slice_get minmax_list 1)) (\<lambda>v.
               and_then (str_from_value (Some v) ''version'') (\<lambda>max.
               and_then (parse_version V max) (\<lambda>max.
               best_match_response V min max))))))
           | None \<Rightarrow> bail_kind (rpc_arg_error ''invalid value in version argument'')))"

definition server_banner :: "'f Query \<Rightarrow> Value result" where
  "server_banner q = and_then (query_get_banner q) (\<lambda>b. Inr (VString b))"

definition server_donation_address :: "Value result" where
  "server_donation_address = Inr VNull"

definition server_peers_subscribe :: "Value result" where
  "server_peers_subscribe = Inr (VArray [])"

definition server_features :: "'f rpc_env \<Rightarrow> 'f Query \<Rightarrow> Value result" where
  "server_features E q =
     and_then (get_headers q [0]) (\<lambda>headers.
     and_then (expect ''index out of bounds'' (slice_get headers 0)) (\<lambda>genesis_header.
     Inr (VObject [
       (''genesis_hash'', VString (en_hash_hex E (he_hash genesis_header))),
       (''hash_function'', VString PROTOCOL_HASH_FUNCTION),
       (''protocol_max'', VString PROTOCOL_VERSION_MAX),
       (''protocol_min'', VString PROTOCOL_VERSION_MIN),
       (''server_version'', VString versionstr),
       (''firstuse'', VArray [VString ''1.0''])])))"

definition server_add_peer :: "Value result" where
  "server_add_peer = Inr (VBool True)"

section \<open>Calls\<close>

definition mempool_get_fee_histogram :: "'f rpc_env \<Rightarrow> 'f Query \<Rightarrow> Value" where
  "mempool_get_fee_histogram E q =
     VArray (map (\<lambda>(rate, vsize). VArray [en_f32_json E rate, VInt (uint vsize)]) (get_fee_histogram q))"

definition cashaccount_query_name :: "'f rpc_env \<Rightarrow> 'f Query \<Rightarrow> Value list \<Rightarrow> Value result" where
  "cashaccount_query_name E q params =
     and_then (ok_or (Msg ''missing name'') (slice_get params 0)) (\<lambda>name.
     and_then (ok_or (Msg ''bad accountname'') (as_str name)) (\<lambda>name.
     and_then (usize_from_value (slice_get params 1) ''height'') (\<lambda>height.
     get_cashaccount_txs (en_crates E) q (ascii name) (of_nat height))))"

text \<open>
  The arms of the \<^verbatim>\<open>match\<close> on the method: those that only read, and those that change the state of the
  connection.
\<close>

definition reading_calls :: "'f rpc_env \<Rightarrow> version_crate \<Rightarrow> 'f Query \<Rightarrow> BlockchainRpc \<Rightarrow> Value list \<Rightarrow> timeout \<Rightarrow>
    (string \<times> Value result) list" where
  "reading_calls E V q b params tmo = [
     (''blockchain.address.get_balance'', address_get_balance E q params tmo),
     (''blockchain.address.get_first_use'', address_get_first_use E q params),
     (''blockchain.address.get_history'', address_get_history E q params tmo),
     (''blockchain.address.get_mempool'', address_get_mempool E q params tmo),
     (''blockchain.address.get_scripthash'', address_get_scripthash E params),
     (''blockchain.address.listunspent'', address_listunspent E q params tmo),
     (''blockchain.block.header'', block_header E q params),
     (''blockchain.block.headers'', block_headers E q params),
     (''blockchain.estimatefee'', estimatefee E q b params),
     (''blockchain.relayfee'', relayfee b),
     (''blockchain.scripthash.get_balance'', scripthash_get_balance E q params tmo),
     (''blockchain.scripthash.get_first_use'', scripthash_get_first_use E q params),
     (''blockchain.scripthash.get_history'', scripthash_get_history E q params tmo),
     (''blockchain.scripthash.get_mempool'', scripthash_get_mempool E q params tmo),
     (''blockchain.scripthash.listunspent'', scripthash_listunspent E q params tmo),
     (''blockchain.transaction.broadcast'', transaction_broadcast E q params),
     (''blockchain.transaction.get'', transaction_get E q params),
     (''blockchain.transaction.get_confirmed_blockhash'', transaction_get_confirmed_blockhash E q params),
     (''blockchain.transaction.get_merkle'', transaction_get_merkle E q params),
     (''blockchain.transaction.id_from_pos'', transaction_id_from_pos E q params),
     (''blockchain.utxo.get'', utxo_get E q params tmo),
     (''mempool.get_fee_histogram'', Inr (mempool_get_fee_histogram E q)),
     (''server.add_peer'', server_add_peer),
     (''server.banner'', server_banner q),
     (''server.donation_address'', server_donation_address),
     (''server.features'', server_features E q),
     (''server.peers.subscribe'', server_peers_subscribe),
     (''server.ping'', Inr VNull),
     (''server.version'', server_version V params),
     (''cashaccount.query.name'', cashaccount_query_name E q params)]"

definition stateful_calls :: "'f rpc_env \<Rightarrow> 'f Query \<Rightarrow> BlockchainRpc \<Rightarrow> Value list \<Rightarrow> timeout \<Rightarrow>
    (string \<times> (BlockchainRpc \<times> Value result)) list" where
  "stateful_calls E q b params tmo = [
     (''blockchain.address.subscribe'', address_subscribe E q b params tmo),
     (''blockchain.address.unsubscribe'', address_unsubscribe E b params),
     (''blockchain.headers.subscribe'', headers_subscribe E q b),
     (''blockchain.scripthash.subscribe'', scripthash_subscribe E q b params tmo),
     (''blockchain.scripthash.unsubscribe'', scripthash_unsubscribe E b params)]"

definition dispatch :: "'f rpc_env \<Rightarrow> version_crate \<Rightarrow> 'f Query \<Rightarrow> BlockchainRpc \<Rightarrow> string \<Rightarrow> Value list \<Rightarrow> timeout \<Rightarrow>
    BlockchainRpc \<times> Value result" where
  "dispatch E V q b meth params tmo =
     (case map_of (reading_calls E V q b params tmo) meth of
        Some r \<Rightarrow> (b, r)
      | None \<Rightarrow>
          (case map_of (stateful_calls E q b params tmo) meth of
             Some br \<Rightarrow> br
           | None \<Rightarrow> (b, bail_kind (RpcError MethodNotFound (''unknown method '' @ meth)))))"

fun code_i32 :: "RpcErrorCode \<Rightarrow> int" where
  "code_i32 ParseError = -32700"
| "code_i32 InvalidRequest = -32600"
| "code_i32 MethodNotFound = -32601"
| "code_i32 InvalidParams = -32602"
| "code_i32 InternalError = -32603"
| "code_i32 Other = -32000"
| "code_i32 NotFound = -32004"
| "code_i32 Timeout = -32005"

fun code_debug :: "RpcErrorCode \<Rightarrow> string" where
  "code_debug ParseError = ''ParseError''"
| "code_debug InvalidRequest = ''InvalidRequest''"
| "code_debug MethodNotFound = ''MethodNotFound''"
| "code_debug InvalidParams = ''InvalidParams''"
| "code_debug InternalError = ''InternalError''"
| "code_debug Other = ''Other''"
| "code_debug NotFound = ''NotFound''"
| "code_debug Timeout = ''Timeout''"

fun display :: "ErrorKind \<Rightarrow> string" where
  "display (Connection m) = ''Connection error: '' @ m"
| "display (Interrupt sig) = ''Interrupted by signal '' @ show_int sig"
| "display (RpcError code m) = ''RPC error ('' @ show_int (code_i32 code) @ '' '' @ code_debug code @ ''): '' @ m"
| "display (WebSocket m) = ''WebSocket '' @ m"
| "display (Msg m) = m"

definition error_json :: "Value \<Rightarrow> RpcErrorCode \<Rightarrow> string \<Rightarrow> Value" where
  "error_json id1 code m = VObject [
     (''jsonrpc'', VString ''2.0''),
     (''id'', id1),
     (''error'', VObject [(''code'', VInt (code_i32 code)), (''message'', VString m)])]"

fun join :: "string \<Rightarrow> string list \<Rightarrow> string" where
  "join sep [] = []"
| "join sep [s] = s"
| "join sep (s # ss) = s @ sep @ join sep ss"

fun reply_json :: "Value \<Rightarrow> Value result \<Rightarrow> Value result" where
  "reply_json id1 (Inl (Panic m)) = Inl (Panic m)"
| "reply_json id1 (Inl (Error (RpcError code m) cs)) =
     Inr (error_json id1 code (join ''; '' (map display (take 2 (RpcError code m # cs)))))"
| "reply_json id1 (Inl (Error k cs)) = Inr (error_json id1 InternalError (display k))"
| "reply_json id1 (Inr v) = Inr (VObject [(''jsonrpc'', VString ''2.0''), (''id'', id1), (''result'', v)])"

text \<open>The timer of a call starts at \<open>now\<close>; \<open>clock\<close> is the time at which a check point is reached.\<close>

definition call_timeout :: "BlockchainRpc \<Rightarrow> nat \<Rightarrow> (checkpoint \<Rightarrow> nat) \<Rightarrow> timeout" where
  "call_timeout b now clock = timeout_at (timeout_new now (unat (cl_rpc_timeout (br_doslimits b)))) clock"

definition handle_command :: "'f rpc_env \<Rightarrow> version_crate \<Rightarrow> 'f Query \<Rightarrow> nat \<Rightarrow> (checkpoint \<Rightarrow> nat) \<Rightarrow> BlockchainRpc \<Rightarrow>
    string \<Rightarrow> Value list \<Rightarrow> Value \<Rightarrow> BlockchainRpc \<times> Value result" where
  "handle_command E V q now clock b meth params id1 =
     (let (b', result) = dispatch E V q b meth params (call_timeout b now clock)
      in (b', reply_json id1 result))"

section \<open>The connection\<close>

datatype Message =
    Request string
  | ScriptHashChange FullHash
  | ChainTipChange HeaderEntry
  | Done

datatype Notification =
    NScriptHashChange FullHash
  | NChainTipChange HeaderEntry
  | NExit

text \<open>
  What a message meets when it is handled: the state of the index, the time, and the answer of the
  socket to a line that is written.
\<close>

record 'f arrival =
  ar_query :: "'f Query"
  ar_now :: nat
  ar_clock :: "checkpoint \<Rightarrow> nat"
  ar_write_all :: "string \<Rightarrow> unit result"

fun send_values :: "json_crate \<Rightarrow> (string \<Rightarrow> unit result) \<Rightarrow> Value list \<Rightarrow> unit result" where
  "send_values J write_all [] = Inr ()"
| "send_values J write_all (val # vals) =
     (let line = js_to_string J val @ [CHR 0x0A] in
      and_then (chain_err (Msg (''failed to send '' @ take 80 line)) (write_all line)) (\<lambda>_.
      send_values J write_all vals))"

definition handle_request :: "'f rpc_env \<Rightarrow> version_crate \<Rightarrow> json_crate \<Rightarrow> 'f arrival \<Rightarrow> BlockchainRpc \<Rightarrow> string \<Rightarrow>
    BlockchainRpc \<times> Value list \<times> unit result" where
  "handle_request E V J a b line =
     (case js_from_str J line of
        None \<Rightarrow> (b, [], bail ''invalid JSON format'')
      | Some cmd \<Rightarrow>
          (case (value_get cmd ''method'',
                 case value_get cmd ''params'' of Some p \<Rightarrow> p | None \<Rightarrow> VArray [],
                 value_get cmd ''id'') of
             (Some (VString meth), VArray params, Some id1) \<Rightarrow>
               (case handle_command E V (ar_query a) (ar_now a) (ar_clock a) b meth params id1 of
                  (b', Inl e) \<Rightarrow> (b', [], Inl e)
                | (b', Inr reply) \<Rightarrow> (b', [reply], send_values J (ar_write_all a) [reply]))
           | _ \<Rightarrow> (b, [], bail (''invalid command: '' @ js_to_string J cmd))))"

definition send_notification :: "json_crate \<Rightarrow> 'f arrival \<Rightarrow> BlockchainRpc \<times> Value option result \<Rightarrow>
    BlockchainRpc \<times> Value list \<times> unit result" where
  "send_notification J a bn =
     (case bn of
        (b, Inl e) \<Rightarrow> (b, [], Inl e)
      | (b, Inr None) \<Rightarrow> (b, [], Inr ())
      | (b, Inr (Some n)) \<Rightarrow> (b, [n], send_values J (ar_write_all a) [n]))"

fun handle_message :: "'f rpc_env \<Rightarrow> version_crate \<Rightarrow> json_crate \<Rightarrow> 'f arrival \<Rightarrow> BlockchainRpc \<Rightarrow> Message \<Rightarrow>
    BlockchainRpc \<times> Value list \<times> unit result" where
  "handle_message E V J a b (Request line) = handle_request E V J a b line"
| "handle_message E V J a b (ScriptHashChange hash) =
     send_notification J a (on_scripthash_change E (ar_query a) b hash (call_timeout b (ar_now a) (ar_clock a)))"
| "handle_message E V J a b (ChainTipChange tip_header) = send_notification J a (on_chaintip_change E b tip_header)"
| "handle_message E V J a b Done = (b, [], Inr ())"

text \<open>
  \<^verbatim>\<open>handle_replies\<close> on the messages in the order they are received.  The connection keeps a sender of
  its own channel, so the channel is never closed while it runs: after the last message the loop
  blocks, which is the value \<open>None\<close>.
\<close>

fun handle_replies :: "'f rpc_env \<Rightarrow> version_crate \<Rightarrow> json_crate \<Rightarrow> BlockchainRpc \<Rightarrow> ('f arrival \<times> Message) list \<Rightarrow>
    (BlockchainRpc \<times> Value list \<times> unit result) option" where
  "handle_replies E V J b [] = None"
| "handle_replies E V J b ((a, msg) # msgs) =
     (if msg = Done then Some (b, [], Inr ())
      else case handle_message E V J a b msg of
        (b', sent, Inl e) \<Rightarrow> Some (b', sent, Inl e)
      | (b', sent, Inr _) \<Rightarrow>
          map_option (\<lambda>(b'', sent', r). (b'', sent @ sent', r)) (handle_replies E V J b' msgs))"

text \<open>
  \<^verbatim>\<open>parse_requests\<close> on the bytes the client sends before it closes the stream.  \<open>accepts n\<close> tells
  whether the channel takes another message after \<open>n\<close> of them.
\<close>

definition read_until :: "Bytes \<Rightarrow> Bytes \<times> Bytes" where
  "read_until bytes =
     (let line = takeWhile (\<lambda>c. c \<noteq> 0x0A) bytes; rest = dropWhile (\<lambda>c. c \<noteq> 0x0A) bytes
      in case rest of [] \<Rightarrow> (line, []) | c # cs \<Rightarrow> (line @ [c], cs))"

lemma read_until_append: "fst (read_until bytes) @ snd (read_until bytes) = bytes"
proof (cases "dropWhile (\<lambda>c. c \<noteq> 0x0A) bytes")
  case (Cons c cs)
  then have "bytes = takeWhile (\<lambda>c. c \<noteq> 0x0A) bytes @ c # cs" by (metis takeWhile_dropWhile_id)
  with Cons show ?thesis by (simp add: read_until_def Let_def)
next
  case Nil
  then have "takeWhile (\<lambda>c. c \<noteq> 0x0A) bytes = bytes" by (metis append_Nil2 takeWhile_dropWhile_id)
  then show ?thesis unfolding read_until_def Let_def Nil by simp
qed

lemma read_until_empty: "fst (read_until bytes) = [] \<longleftrightarrow> bytes = []"
  by (cases bytes) (auto simp: read_until_def Let_def split: list.splits)

lemma read_until_shorter: "fst (read_until bytes) \<noteq> [] \<Longrightarrow> length (snd (read_until bytes)) < length bytes"
  using read_until_append [of bytes] by (metis length_append length_greater_0_conv less_add_same_cancel2)

function parse_requests :: "(nat \<Rightarrow> bool) \<Rightarrow> nat \<Rightarrow> Bytes \<Rightarrow> Message list \<times> unit result" where
  "parse_requests accepts n bytes =
     (let (line, rest) = read_until bytes in
      if line = [] then
        (if accepts n then ([Done], Inr ()) else ([], bail ''channel closed''))
      else if prefix [22, 3, 1] line then
        (if accepts n then [Done] else [], bail (''invalid request - maybe SSL-encrypted data?: '' @ show_bytes line))
      else if is_utf8 line then
        (if accepts n
         then (case parse_requests accepts (n + 1) rest of (msgs, r) \<Rightarrow> (Request (map (\<lambda>c. char_of (unat c)) line) # msgs, r))
         else ([], bail ''channel closed''))
      else (if accepts n then [Done] else [], bail ''invalid UTF8''))"
  by pat_completeness auto
termination
proof (relation "measure (\<lambda>(_, _, bytes). length bytes)", goal_cases)
  case (2 accepts n bytes x xa y)
  then show ?case using read_until_shorter [of bytes] by (metis case_prod_conv fst_conv in_measure snd_conv)
qed simp

declare parse_requests.simps [simp del]

section \<open>Notifications to all connections\<close>

datatype try_send = SendOk | Full | Disconnected

text \<open>
  \<^verbatim>\<open>start_notifier\<close>, one notification: the senders that are still connected are kept, whether or not
  their buffer had room for the message; \<open>Exit\<close> goes to the acceptor.
\<close>

fun notification_message :: "Notification \<Rightarrow> Message option" where
  "notification_message (NScriptHashChange h) = Some (ScriptHashChange h)"
| "notification_message (NChainTipChange e) = Some (ChainTipChange e)"
| "notification_message NExit = None"

definition notify_senders :: "('s \<Rightarrow> Message \<Rightarrow> try_send) \<Rightarrow> Notification \<Rightarrow> 's list \<Rightarrow> 's list \<times> ('s \<times> Message) list" where
  "notify_senders send n senders =
     (case notification_message n of
        None \<Rightarrow> (senders, [])
      | Some msg \<Rightarrow>
          (filter (\<lambda>s. send s msg \<noteq> Disconnected) senders,
           map (\<lambda>s. (s, msg)) (filter (\<lambda>s. send s msg = SendOk) senders)))"

definition get_output_scripthash :: "libs \<Rightarrow> Transaction \<Rightarrow> nat option \<Rightarrow> FullHash list result" where
  "get_output_scripthash L txn n =
     (case n of
        Some out \<Rightarrow> and_then (expect ''index out of bounds'' (slice_get (tx_output txn) out)) (\<lambda>o1.
          Inr [compute_script_hash L (script_pubkey o1)])
      | None \<Rightarrow> Inr (map (\<lambda>o1. compute_script_hash L (script_pubkey o1)) (tx_output txn)))"

fun effected_inputs :: "libs \<Rightarrow> tx_getter \<Rightarrow> TxIn list \<Rightarrow> FullHash list \<Rightarrow> FullHash list result" where
  "effected_inputs L txget [] scripthashes = Inr scripthashes"
| "effected_inputs L txget (txin # txins) scripthashes =
     (if is_null_outpoint (previous_output txin) then effected_inputs L txget txins scripthashes
      else and_then (txget (op_txid (previous_output txin)) None None) (\<lambda>txn.
        and_then (get_output_scripthash L txn (Some (unat (op_vout (previous_output txin))))) (\<lambda>hs.
        effected_inputs L txget txins (scripthashes @ hs))))"

definition get_scripthashes_effected_by_tx :: "libs \<Rightarrow> tx_getter \<Rightarrow> Txid \<Rightarrow> BlockHash option \<Rightarrow> FullHash list result" where
  "get_scripthashes_effected_by_tx L txget txid blockhash =
     and_then (txget txid blockhash None) (\<lambda>txn.
     and_then (get_output_scripthash L txn None) (\<lambda>scripthashes.
     effected_inputs L txget (tx_input txn) scripthashes))"

text \<open>The sets as lists without repetition; \<open>drain\<close> is the order in which the set is emptied.\<close>

definition insert_for_tx :: "libs \<Rightarrow> tx_getter \<Rightarrow> Txid \<times> BlockHash option \<Rightarrow> (Txid list \<times> FullHash list) result \<Rightarrow>
    (Txid list \<times> FullHash list) result" where
  "insert_for_tx L txget tb state =
     and_then state (\<lambda>(txn_done, scripthashes).
       if fst tb \<in> set txn_done then Inr (txn_done, scripthashes)
       else case get_scripthashes_effected_by_tx L txget (fst tb) (snd tb) of
         Inr hashes \<Rightarrow> Inr (List.insert (fst tb) txn_done, fold List.insert hashes scripthashes)
       | Inl (Error k ks) \<Rightarrow> Inr (List.insert (fst tb) txn_done, scripthashes)
       | Inl (Panic m) \<Rightarrow> Inl (Panic m))"

fun changed_txs :: "'f Query \<Rightarrow> HeaderEntry list \<Rightarrow> (Txid \<times> BlockHash option) list result" where
  "changed_txs q [] = Inr []"
| "changed_txs q (header # headers) =
     (case getblocktxids q (he_hash header) of
        Inl (Panic m) \<Rightarrow> Inl (Panic m)
      | Inl (Error k ks) \<Rightarrow> changed_txs q headers
      | Inr ids \<Rightarrow> and_then (changed_txs q headers) (\<lambda>rest. Inr (map (\<lambda>txid. (txid, Some (he_hash header))) ids @ rest)))"

definition notify_scripthash_subscriptions :: "libs \<Rightarrow> (FullHash list \<Rightarrow> FullHash list) \<Rightarrow> 'f Query \<Rightarrow> HeaderEntry list \<Rightarrow>
    Txid list \<Rightarrow> Notification list result" where
  "notify_scripthash_subscriptions L drain q headers_changed txs_changed =
     and_then (changed_txs q headers_changed) (\<lambda>block_txs1.
     and_then (fold (insert_for_tx L (q_tx q)) (block_txs1 @ map (\<lambda>txid. (txid, None)) txs_changed) (Inr ([], [])))
       (\<lambda>(txn_done, scripthashes). Inr (map NScriptHashChange (drain scripthashes))))"

definition notify_subscriptions_chaintip :: "HeaderEntry \<Rightarrow> Notification list" where
  "notify_subscriptions_chaintip header = [NChainTipChange header]"

section \<open>The order of versions\<close>

locale version_order =
  fixes V :: version_crate
  assumes ver_total: "ver_from V a \<Longrightarrow> ver_from V b \<Longrightarrow> ver_le V a b \<or> ver_le V b a"
    and ver_trans: "ver_le V a b \<Longrightarrow> ver_le V b c \<Longrightarrow> ver_le V a c"
    and ver_protocol: "ver_from V ''1.4''" "ver_from V ''1.4.3''" "ver_le V ''1.4'' ''1.4.3''"
begin

lemma ver_refl: "ver_from V a \<Longrightarrow> ver_le V a a"
  using ver_total by blast

lemma best_match_range:
  assumes "ver_from V lo" "ver_from V hi"
  shows "\<exists>m. best_match V lo hi = Inr m \<and> ver_le V PROTOCOL_VERSION_MIN m \<and> ver_le V m PROTOCOL_VERSION_MAX \<and>
    (ver_le V PROTOCOL_VERSION_MIN lo \<and> ver_le V PROTOCOL_VERSION_MIN hi \<and> ver_le V hi PROTOCOL_VERSION_MAX \<longrightarrow>
      ver_le V m hi \<and> ver_le V hi m)"
  using ver_total [OF assms(2) ver_protocol(1)] ver_total [OF assms(2) ver_protocol(2)] ver_protocol
    ver_refl [OF ver_protocol(1)] ver_refl [OF ver_protocol(2)] ver_refl [OF assms(2)]
  by (auto simp: best_match_def PROTOCOL_VERSION_MIN_def PROTOCOL_VERSION_MAX_def Let_def)

end

text \<open>The documented order: the dot-separated numbers compared from the left, a missing one as zero.\<close>

fun split_dots :: "string \<Rightarrow> string \<Rightarrow> string list" where
  "split_dots part [] = [part]"
| "split_dots part (c # cs) = (if c = CHR ''.'' then part # split_dots [] cs else split_dots (part @ [c]) cs)"

fun parts_le :: "nat list \<Rightarrow> nat list \<Rightarrow> bool" where
  "parts_le [] ys = True"
| "parts_le (x # xs) [] = (x = 0 \<and> parts_le xs [])"
| "parts_le (x # xs) (y # ys) = (x < y \<or> x = y \<and> parts_le xs ys)"

definition std_version :: version_crate where
  "std_version = \<lparr>
     ver_from = (\<lambda>s. \<forall>p\<in>set (split_dots [] s). p \<noteq> [] \<and> list_all (\<lambda>c. 48 \<le> (of_char c :: nat) \<and> (of_char c :: nat) \<le> 57) p),
     ver_le = (\<lambda>a b. parts_le (map (\<lambda>p. read_nat p 0) (split_dots [] a)) (map (\<lambda>p. read_nat p 0) (split_dots [] b)))\<rparr>"

lemma parts_le_zero: "parts_le xs [] \<longleftrightarrow> (\<forall>x\<in>set xs. x = 0)"
  by (induction xs) auto

lemma parts_le_total: "parts_le xs ys \<or> parts_le ys xs"
  by (induction xs ys rule: parts_le.induct) auto

lemma parts_le_trans: "parts_le xs ys \<Longrightarrow> parts_le ys zs \<Longrightarrow> parts_le xs zs"
proof (induction xs ys arbitrary: zs rule: parts_le.induct)
  case (2 x xs)
  then show ?case by (cases zs) (auto simp: parts_le_zero elim: parts_le.elims)
next
  case (3 x xs y ys)
  then show ?case by (cases zs) auto
qed simp

interpretation stdver: version_order std_version
proof (unfold_locales, goal_cases)
  case (1 a b)
  show ?case by (simp add: std_version_def parts_le_total)
next
  case (2 a b c)
  then show ?case by (auto simp: std_version_def intro: parts_le_trans)
qed (simp_all add: std_version_def)

section \<open>The life of a connection\<close>

abbreviation line_request :: "Bytes \<Rightarrow> Message" where
  "line_request line \<equiv> Request (map (\<lambda>c. char_of (unat c)) line)"

text \<open>Whatever the client sends, the reader delivers lines of it in order and then the end of the stream.\<close>

lemma parse_requests_lines:
  assumes "\<forall>n. accepts n"
  shows "\<exists>lines. fst (parse_requests accepts n bytes) = map line_request lines @ [Done] \<and>
    prefix (concat lines) bytes \<and> (snd (parse_requests accepts n bytes) = Inr () \<longrightarrow> concat lines = bytes)"
proof (induction "length bytes" arbitrary: n bytes rule: less_induct)
  case less
  let ?line = "fst (read_until bytes)" and ?rest = "snd (read_until bytes)"
  have eq: "parse_requests accepts n bytes =
      (if ?line = [] then ([Done], Inr ())
       else if prefix [22, 3, 1] ?line then ([Done], bail (''invalid request - maybe SSL-encrypted data?: '' @ show_bytes ?line))
       else if is_utf8 ?line
       then (line_request ?line # fst (parse_requests accepts (n + 1) ?rest), snd (parse_requests accepts (n + 1) ?rest))
       else ([Done], bail ''invalid UTF8''))"
    using assms by (subst parse_requests.simps) (simp add: case_prod_beta Let_def)
  show ?case
  proof (cases "?line \<noteq> [] \<and> \<not> prefix [22, 3, 1] ?line \<and> is_utf8 ?line")
    case False
    then show ?thesis
      using read_until_empty [of bytes] unfolding eq by (intro exI [of _ "[]"]) (auto simp: bail_def)
  next
    case True
    then obtain lines where lines:
      "fst (parse_requests accepts (n + 1) ?rest) = map line_request lines @ [Done]" "prefix (concat lines) ?rest"
      "snd (parse_requests accepts (n + 1) ?rest) = Inr () \<longrightarrow> concat lines = ?rest"
      using less [OF read_until_shorter] by blast
    have step: "parse_requests accepts n bytes =
        (line_request ?line # fst (parse_requests accepts (n + 1) ?rest), snd (parse_requests accepts (n + 1) ?rest))"
      using True unfolding eq by simp
    have "concat (?line # lines) = bytes" if "snd (parse_requests accepts (n + 1) ?rest) = Inr ()"
      using lines(3) that read_until_append [of bytes] by simp
    moreover have "prefix (concat (?line # lines)) bytes"
      using lines(2) read_until_append [of bytes] by (metis concat.simps(2) same_prefix_prefix)
    ultimately show ?thesis using lines(1) step by (intro exI [of _ "?line # lines"]) simp
  qed
qed

lemma handle_replies_returns:
  "Done \<in> snd ` set arrivals \<Longrightarrow> \<exists>r. handle_replies E V J b arrivals = Some r"
proof (induction arrivals arbitrary: b)
  case (Cons am arrivals)
  show ?case
  proof (cases "snd am = Done")
    case False
    with Cons.prems have "Done \<in> snd ` set arrivals" by auto
    then show ?thesis
      using Cons.IH by (cases am) (fastforce split: prod.splits sum.splits)
  qed (cases am, simp)
qed simp

section \<open>Replies\<close>

text \<open>A JSON-RPC reply to the request \<open>id1\<close>: a result or an error with a known code and a message.\<close>

definition reply_ok :: "Value \<Rightarrow> Value \<Rightarrow> bool" where
  "reply_ok id1 v \<longleftrightarrow> value_get v ''jsonrpc'' = Some (VString ''2.0'') \<and> value_get v ''id'' = Some id1 \<and>
     ((\<exists>x. value_get v ''result'' = Some x \<and> value_get v ''error'' = None) \<or>
      (\<exists>c m. value_get v ''error'' = Some (VObject [(''code'', VInt (code_i32 c)), (''message'', VString m)]) \<and>
        value_get v ''result'' = None))"

lemma error_json_ok: "reply_ok id1 (error_json id1 c m)"
  by (auto simp: reply_ok_def error_json_def value_get_def)

lemma reply_json_ok: "reply_json id1 r = Inr v \<Longrightarrow> reply_ok id1 v"
  by (induction id1 r rule: reply_json.induct) (auto simp: error_json_ok simp del: take_Suc_Cons, simp add: reply_ok_def value_get_def)

lemma reply_json_panic: "reply_json id1 r = Inl e \<Longrightarrow> \<exists>m. e = Panic m"
  by (induction id1 r rule: reply_json.induct) auto

lemma notification_no_id:
  "on_chaintip_change E b e = (b', Inr (Some n)) \<Longrightarrow> value_get n ''id'' = None"
  "on_scripthash_change E q b sh tmo = (b', Inr (Some n)) \<Longrightarrow> value_get n ''id'' = None"
  by (auto simp: on_chaintip_change_def on_scripthash_change_def value_get_def Let_def
      split: if_splits option.splits sum.splits prod.splits)

definition request_id :: "json_crate \<Rightarrow> Message \<Rightarrow> Value option" where
  "request_id J msg = (case msg of Request line \<Rightarrow>
      (case js_from_str J line of Some cmd \<Rightarrow> value_get cmd ''id'' | None \<Rightarrow> None) | _ \<Rightarrow> None)"

fun is_request :: "Message \<Rightarrow> bool" where
  "is_request (Request line) = True"
| "is_request _ = False"

definition answers :: "Value list \<Rightarrow> Value option list" where
  "answers sent = filter (\<lambda>i. i \<noteq> None) (map (\<lambda>v. value_get v ''id'') sent)"

lemma handle_message_answers:
  assumes "handle_message E V J a b msg = (b', sent, Inr ())"
  shows "answers sent = (if is_request msg then [request_id J msg] else [])"
proof (cases msg)
  case (Request line)
  then show ?thesis
    using assms reply_json_ok
    by (auto simp: handle_request_def handle_command_def answers_def request_id_def reply_ok_def bail_def
        split: option.splits Value.splits prod.splits sum.splits)
next
  case (ScriptHashChange h)
  then show ?thesis
    using assms notification_no_id(2)
    by (auto simp: send_notification_def answers_def split: prod.splits sum.splits option.splits)
next
  case (ChainTipChange e)
  then show ?thesis
    using assms notification_no_id(1)
    by (auto simp: send_notification_def answers_def split: prod.splits sum.splits option.splits)
qed (use assms in \<open>simp add: answers_def\<close>)

section \<open>Subscriptions of a connection\<close>

definition short_params :: "json_crate \<Rightarrow> bool" where
  "short_params J \<longleftrightarrow> (\<forall>line cmd params. js_from_str J line = Some cmd \<and> value_get cmd ''params'' = Some (VArray params) \<longrightarrow>
     short_strings params)"

lemma dispatch_step:
  assumes "dispatch E V q b meth params tmo = (b', r)" "short_strings params"
  shows "b' = b \<or> rpc_step E b b'"
proof (cases "map_of (reading_calls E V q b params tmo) meth")
  case None
  show ?thesis
  proof (cases "map_of (stateful_calls E q b params tmo) meth")
    case (Some br)
    have "br \<in> snd ` set (stateful_calls E q b params tmo)" using map_of_SomeD [OF Some] by force
    moreover have "br = (b', r)" using assms(1) None Some by (simp add: dispatch_def)
    ultimately have "(b', r) \<in> {address_subscribe E q b params tmo, address_unsubscribe E b params, headers_subscribe E q b,
        scripthash_subscribe E q b params tmo, scripthash_unsubscribe E b params}"
      by (simp add: stateful_calls_def)
    then show ?thesis
      using addr_sub [OF assms(2), of E q b tmo b' r] addr_unsub [of E b params b' r] hdr_sub [of E q b b' r]
        sh_sub [of E q b params tmo b' r] sh_unsub [of E b params b' r]
      by (elim insertE emptyE) simp_all
  qed (use assms None in \<open>simp add: dispatch_def\<close>)
qed (use assms in \<open>simp add: dispatch_def\<close>)

lemma handle_command_step:
  assumes "handle_command E V q now clock b meth params id1 = (b', x)" "short_strings params"
  shows "b' = b \<or> rpc_step E b b'"
proof -
  obtain r where "dispatch E V q b meth params (call_timeout b now clock) = (b', r)"
    using assms(1) by (auto simp: handle_command_def Let_def split: prod.splits)
  then show ?thesis using assms(2) by (rule dispatch_step)
qed

lemma handle_request_command:
  assumes "handle_request E V J a b line = (b', sent, r)" "b' \<noteq> b" "short_params J"
  shows "\<exists>meth params id1 x. short_strings params \<and>
    handle_command E V (ar_query a) (ar_now a) (ar_clock a) b meth params id1 = (b', x)"
proof -
  obtain cmd where cmd: "js_from_str J line = Some cmd"
    using assms(1,2) by (cases "js_from_str J line") (auto simp: handle_request_def)
  obtain meth params id1 where p: "value_get cmd ''method'' = Some (VString meth)"
    "(case value_get cmd ''params'' of Some p \<Rightarrow> p | None \<Rightarrow> VArray []) = VArray params" "value_get cmd ''id'' = Some id1"
    using assms(1,2) cmd by (auto simp: handle_request_def split: option.splits Value.splits)
  have "short_strings params"
    using p(2) assms(3) cmd by (auto simp: short_params_def short_strings_def split: option.splits)
  moreover have "\<exists>x. handle_command E V (ar_query a) (ar_now a) (ar_clock a) b meth params id1 = (b', x)"
    using assms(1) unfolding handle_request_def cmd option.case p prod.case Value.case by (auto split: prod.splits sum.splits)
  ultimately show ?thesis by blast
qed

lemma send_notification_state: "send_notification J a (b, n) = (b', sent, r) \<Longrightarrow> b' = b"
  by (auto simp: send_notification_def split: sum.splits option.splits)

lemma handle_message_step:
  assumes "handle_message E V J a b msg = (b', sent, r)" "short_params J"
  shows "b' = b \<or> rpc_step E b b'"
proof (cases msg)
  case (Request line)
  then show ?thesis
    using handle_request_command [of E V J a b line b' sent r] assms handle_command_step by (metis handle_message.simps(1))
next
  case (ScriptHashChange h)
  obtain b1 n where n: "on_scripthash_change E (ar_query a) b h (call_timeout b (ar_now a) (ar_clock a)) = (b1, n)" by fastforce
  moreover have "b' = b1" using assms(1) n ScriptHashChange send_notification_state by (metis handle_message.simps(2))
  ultimately show ?thesis using changed by blast
next
  case (ChainTipChange e)
  obtain b1 n where n: "on_chaintip_change E b e = (b1, n)" by fastforce
  moreover have "b' = b1" using assms(1) n ChainTipChange send_notification_state by (metis handle_message.simps(3))
  ultimately show ?thesis using chaintip by blast
qed (use assms in simp)

lemma handle_replies_steps:
  assumes "handle_replies E V J b arrivals = Some (b', sent, r)" "short_params J"
  shows "(rpc_step E)\<^sup>*\<^sup>* b b'"
  using assms(1)
proof (induction arrivals arbitrary: b sent)
  case (Cons am arrivals)
  obtain a msg where am: "am = (a, msg)" by (cases am)
  obtain b1 s1 r1 where h: "handle_message E V J a b msg = (b1, s1, r1)" by (metis prod_cases3)
  have "(rpc_step E)\<^sup>*\<^sup>* b b1" using handle_message_step [OF h assms(2)] by auto
  moreover have "b' = b \<or> b' = b1 \<or> (\<exists>s2. handle_replies E V J b1 arrivals = Some (b', s2, r))"
    using Cons.prems h by (auto simp: am split: if_splits sum.splits)
  ultimately show ?case using Cons.IH by (meson rtranclp.rtrancl_refl rtranclp_trans)
qed simp

lemma handle_replies_answers:
  assumes "handle_replies E V J b arrivals = Some (b', sent, Inr ())"
  shows "answers sent = map (request_id J) (filter is_request (takeWhile (\<lambda>m. m \<noteq> Done) (map snd arrivals)))"
  using assms
proof (induction arrivals arbitrary: b sent)
  case (Cons am arrivals)
  obtain a msg where am: "am = (a, msg)" by (cases am)
  show ?case
  proof (cases "msg = Done")
    case False
    obtain b1 s1 r1 where h: "handle_message E V J a b msg = (b1, s1, r1)" by (metis prod_cases3)
    with False Cons.prems obtain s2 where s: "r1 = Inr ()" "handle_replies E V J b1 arrivals = Some (b', s2, Inr ())" "sent = s1 @ s2"
      by (auto simp: am split: sum.splits)
    then show ?thesis
      using Cons.IH [OF s(2)] handle_message_answers [of E V J a b msg b1 s1] h False by (simp add: am answers_def)
  qed (use Cons.prems in \<open>simp add: am answers_def\<close>)
qed simp

section \<open>Who is notified\<close>

text \<open>The script hashes a transaction touches: those of its outputs and of the outputs it spends.\<close>

definition spent_hash :: "libs \<Rightarrow> tx_getter \<Rightarrow> TxIn \<Rightarrow> FullHash set" where
  "spent_hash L txget i = (if is_null_outpoint (previous_output i) then {}
     else case txget (op_txid (previous_output i)) None None of
       Inr ptx \<Rightarrow> {compute_script_hash L (script_pubkey (tx_output ptx ! unat (op_vout (previous_output i))))}
     | Inl _ \<Rightarrow> {})"

definition touched :: "libs \<Rightarrow> tx_getter \<Rightarrow> Transaction \<Rightarrow> FullHash set" where
  "touched L txget tx = (\<lambda>out. compute_script_hash L (script_pubkey out)) ` set (tx_output tx) \<union>
     (\<Union>i\<in>set (tx_input tx). spent_hash L txget i)"

definition inputs_resolve :: "tx_getter \<Rightarrow> Transaction \<Rightarrow> bool" where
  "inputs_resolve txget tx \<longleftrightarrow> (\<forall>i\<in>set (tx_input tx). is_null_outpoint (previous_output i) \<or>
     (\<exists>ptx. txget (op_txid (previous_output i)) None None = Inr ptx \<and>
       unat (op_vout (previous_output i)) < length (tx_output ptx)))"

definition tx_touched :: "libs \<Rightarrow> tx_getter \<Rightarrow> Txid \<Rightarrow> FullHash set" where
  "tx_touched L txget txid = (case txget txid None None of Inr tx \<Rightarrow> touched L txget tx | Inl _ \<Rightarrow> {})"

definition block_ids :: "'f Query \<Rightarrow> HeaderEntry \<Rightarrow> Txid set" where
  "block_ids q e = (case getblocktxids q (he_hash e) of Inr ids \<Rightarrow> set ids | Inl _ \<Rightarrow> {})"

definition blind_getter :: "tx_getter \<Rightarrow> bool" where
  "blind_getter txget \<longleftrightarrow> (\<forall>txid bh. txget txid bh None = txget txid None None)"

lemma effected_inputs_eq:
  assumes "\<forall>i\<in>set is. is_null_outpoint (previous_output i) \<or>
     (\<exists>ptx. txget (op_txid (previous_output i)) None None = Inr ptx \<and>
       unat (op_vout (previous_output i)) < length (tx_output ptx))"
  shows "\<exists>hs. effected_inputs L txget is acc = Inr hs \<and> set hs = set acc \<union> (\<Union>i\<in>set is. spent_hash L txget i)"
  using assms
proof (induction "is" arbitrary: acc)
  case (Cons i "is")
  show ?case
  proof (cases "is_null_outpoint (previous_output i)")
    case True
    then show ?thesis using Cons.IH [of acc] Cons.prems by (auto simp: spent_hash_def)
  next
    case False
    then obtain ptx where p: "txget (op_txid (previous_output i)) None None = Inr ptx"
      "unat (op_vout (previous_output i)) < length (tx_output ptx)" using Cons.prems by auto
    let ?h = "compute_script_hash L (script_pubkey (tx_output ptx ! unat (op_vout (previous_output i))))"
    obtain hs where hs: "effected_inputs L txget is (acc @ [?h]) = Inr hs"
      "set hs = set (acc @ [?h]) \<union> (\<Union>i\<in>set is. spent_hash L txget i)"
      using Cons.IH [of "acc @ [?h]"] Cons.prems by auto
    have "effected_inputs L txget (i # is) acc = Inr hs"
      using False p hs(1) by (simp add: get_output_scripthash_def slice_get_def)
    moreover have "spent_hash L txget i = {?h}" using False p(1) by (simp add: spent_hash_def)
    ultimately show ?thesis using hs(2) by auto
  qed
qed simp

lemma effected_touched:
  assumes "blind_getter txget" "txget txid None None = Inr tx" "inputs_resolve txget tx"
  shows "\<exists>hs. get_scripthashes_effected_by_tx L txget txid bh = Inr hs \<and> set hs = touched L txget tx"
proof -
  have g: "txget txid bh None = Inr tx" using assms(1,2) unfolding blind_getter_def by metis
  show ?thesis
    using effected_inputs_eq [of "tx_input tx" txget L "map (\<lambda>o1. compute_script_hash L (script_pubkey o1)) (tx_output tx)"]
      assms(3) by (simp add: get_scripthashes_effected_by_tx_def g get_output_scripthash_def touched_def inputs_resolve_def)
qed

lemma fold_insert_set: "set (fold List.insert xs ys) = set xs \<union> set ys"
  by (induction xs arbitrary: ys) auto

lemma fold_insert_distinct: "distinct ys \<Longrightarrow> distinct (fold List.insert xs ys)"
  by (induction xs arbitrary: ys) auto

lemma insert_one_tx:
  assumes "blind_getter txget" "txget (fst tb) None None = Inr tx" "inputs_resolve txget tx"
    and "distinct hs" "\<forall>t\<in>set ts. tx_touched L txget t \<subseteq> set hs"
  shows "\<exists>ts1 hs1. insert_for_tx L txget tb (Inr (ts, hs)) = Inr (ts1, hs1) \<and> distinct hs1 \<and>
    set hs1 = set hs \<union> tx_touched L txget (fst tb) \<and> (\<forall>t\<in>set ts1. tx_touched L txget t \<subseteq> set hs1)"
proof (cases "fst tb \<in> set ts")
  case True
  then show ?thesis using assms(4,5) by (auto simp: insert_for_tx_def)
next
  case False
  obtain es where es: "get_scripthashes_effected_by_tx L txget (fst tb) (snd tb) = Inr es" "set es = touched L txget tx"
    using effected_touched [OF assms(1-3)] by blast
  have "insert_for_tx L txget tb (Inr (ts, hs)) = Inr (List.insert (fst tb) ts, fold List.insert es hs)"
    using False es(1) by (simp add: insert_for_tx_def)
  moreover have "set (fold List.insert es hs) = set hs \<union> tx_touched L txget (fst tb)"
    using es(2) assms(2) by (simp add: fold_insert_set tx_touched_def Un_commute)
  ultimately show ?thesis using assms(5) fold_insert_distinct [OF assms(4)] by auto
qed

lemma insert_all_txs:
  assumes blind: "blind_getter txget"
    and res: "\<forall>tb\<in>set tbs. \<exists>tx. txget (fst tb) None None = Inr tx \<and> inputs_resolve txget tx"
    and d: "distinct hs" "\<forall>t\<in>set ts. tx_touched L txget t \<subseteq> set hs"
  shows "\<exists>ts' hs'. fold (insert_for_tx L txget) tbs (Inr (ts, hs)) = Inr (ts', hs') \<and> distinct hs' \<and>
    set hs' = set hs \<union> (\<Union>tb\<in>set tbs. tx_touched L txget (fst tb))"
  using res d
proof (induction tbs arbitrary: ts hs)
  case (Cons tb tbs)
  obtain tx where tx: "txget (fst tb) None None = Inr tx" "inputs_resolve txget tx" using Cons.prems(1) by auto
  obtain ts1 hs1 where s: "insert_for_tx L txget tb (Inr (ts, hs)) = Inr (ts1, hs1)" "distinct hs1"
    "set hs1 = set hs \<union> tx_touched L txget (fst tb)" "\<forall>t\<in>set ts1. tx_touched L txget t \<subseteq> set hs1"
    using insert_one_tx [OF blind tx Cons.prems(2,3)] by blast
  obtain ts' hs' where r: "fold (insert_for_tx L txget) tbs (Inr (ts1, hs1)) = Inr (ts', hs')" "distinct hs'"
    "set hs' = set hs1 \<union> (\<Union>tb\<in>set tbs. tx_touched L txget (fst tb))"
    using Cons.IH [OF _ s(2,4)] Cons.prems(1) by auto
  then show ?case using s(1,3) by auto
qed simp

lemma changed_txs_ids:
  assumes "\<forall>e\<in>set headers. \<not> is_panic (getblocktxids q (he_hash e))"
  shows "\<exists>tbs. changed_txs q headers = Inr tbs \<and> fst ` set tbs = (\<Union>e\<in>set headers. block_ids q e)"
  using assms
proof (induction headers)
  case (Cons e headers)
  then obtain tbs where tbs: "changed_txs q headers = Inr tbs" "fst ` set tbs = (\<Union>e\<in>set headers. block_ids q e)" by auto
  show ?case
  proof (cases "getblocktxids q (he_hash e)")
    case (Inl err)
    with Cons.prems have "changed_txs q (e # headers) = Inr tbs" using tbs(1) by (cases err) (auto simp: is_panic_def)
    then show ?thesis using tbs(2) Inl by (simp add: block_ids_def)
  next
    case (Inr ids)
    then have "changed_txs q (e # headers) = Inr (map (\<lambda>txid. (txid, Some (he_hash e))) ids @ tbs)" using tbs(1) by simp
    then show ?thesis using tbs(2) Inr by (simp add: block_ids_def image_Un image_image)
  qed
qed simp

text \<open>A client that subscribes to a script hash, pings and leaves.\<close>

definition demo_json :: json_crate where
  "demo_json = \<lparr>
     js_from_str = (\<lambda>s.
       if s = ''p'' then Some (VObject [(''method'', VString ''server.ping''), (''id'', VInt 7)])
       else if s = ''s'' then Some (VObject [(''method'', VString ''blockchain.scripthash.subscribe''), (''id'', VInt 8),
         (''params'', VArray [VString (to_le_hex std_hex demo_script_hash)])])
       else None),
     js_to_string = (\<lambda>_. ''{}'')\<rparr>"

definition demo_arrival :: "nat arrival" where
  "demo_arrival = \<lparr>ar_query = demo_query, ar_now = 0, ar_clock = (\<lambda>_. 0), ar_write_all = (\<lambda>_. Inr ())\<rparr>"

lemma demo_short: "short_params demo_json"
proof -
  have "length (hex_enc bs) = 2 * length bs" for bs by (induction bs) simp_all
  then show ?thesis
    by (auto simp: short_params_def short_strings_def demo_json_def value_get_def slice_get_def to_le_hex_def std_hex_def
        demo_script_hash_def std.length_script_hash split: if_splits)
qed

lemma demo_ping:
  "\<exists>v. handle_replies demo_env std_version demo_json b [(demo_arrival, Request ''p''), (demo_arrival, Done)] = Some (b, [v], Inr ())"
  by (simp add: handle_request_def demo_json_def value_get_def handle_command_def dispatch_def reading_calls_def demo_arrival_def)

section \<open>Properties\<close>




text \<open>C27: Requests are answered one by one in the order they arrive: when the loop ends at the end of the stream, the
  messages with an id that were sent carry the ids of the requests received before it, in order, and
  the others are notifications.\<close>

theorem replies_in_order:
  assumes "handle_replies E V J b arrivals = Some (b', sent, Inr ())"
  shows "filter (\<lambda>i. i \<noteq> None) (map (\<lambda>v. value_get v ''id'') sent) =
    map (request_id J) (filter is_request (takeWhile (\<lambda>m. m \<noteq> Done) (map snd arrivals)))"
  using handle_replies_answers [OF assms] by (simp only: answers_def)

theorem replies_in_order_witness:
  "\<exists>v. handle_replies demo_env std_version demo_json demo_conn [(demo_arrival, Request ''p''), (demo_arrival, Done)] =
     Some (demo_conn, [v], Inr ()) \<and> value_get v ''id'' = Some (VInt 7)"
proof -
  obtain v where v: "handle_replies demo_env std_version demo_json demo_conn
      [(demo_arrival, Request ''p''), (demo_arrival, Done)] = Some (demo_conn, [v], Inr ())"
    using demo_ping by blast
  have "request_id demo_json (Request ''p'') = Some (VInt 7)" by (simp add: request_id_def demo_json_def value_get_def)
  then show ?thesis using replies_in_order [OF v] v by (simp split: if_splits)
qed



text \<open>Version negotiation: for a valid version range of the client, the version agreed on lies between the
  lowest and the highest version of the server, and it is the client's highest version when the whole
  range of the client lies there.\<close>

lemma negotiated_version:
  assumes "version_order V" "ver_from V lo" "ver_from V hi"
  shows "\<exists>m. server_version V [c, VArray [VString lo, VString hi]] = Inr (VArray [VString versionstr, VString m]) \<and>
    ver_le V PROTOCOL_VERSION_MIN m \<and> ver_le V m PROTOCOL_VERSION_MAX \<and>
    (ver_le V PROTOCOL_VERSION_MIN lo \<and> ver_le V PROTOCOL_VERSION_MIN hi \<and> ver_le V hi PROTOCOL_VERSION_MAX \<longrightarrow>
      ver_le V m hi \<and> ver_le V hi m)"
  using version_order.best_match_range [OF assms] assms(2,3)
  by (auto simp: server_version_def str_from_value_def parse_version_def best_match_response_def)

text \<open>A client whose range starts below the server's is given the server's lowest version, not the highest common one.\<close>

lemma low_client_range:
  "best_match std_version ''1.2'' ''1.4.1'' = Inr ''1.4''"
  by (simp add: best_match_def PROTOCOL_VERSION_MIN_def PROTOCOL_VERSION_MAX_def std_version_def)

text \<open>A version list with fewer than two entries is an index out of bounds.\<close>

lemma short_version_list: "is_panic (server_version V [c, VArray []])"
  by (simp add: server_version_def str_from_value_def is_panic_def expect_def)



end
