(* ===== verification/Daemon.thy ===== *)
theory Daemon
  imports TxQuery
begin

text \<open>
  The client of the full node (\<^verbatim>\<open>src/src/daemon.rs\<close>) with the waiter it stops on
  (\<^verbatim>\<open>src/src/signal.rs\<close>).  The network, the signals and the cookie file are operations on an
  abstract world; a connection is the world's.  An operation takes the state of the client (the world
  and the counter of messages) to the state after it and a result; a loop that need not end is a
  partial function, and \<open>None\<close> says that it does not return.
\<close>

section \<open>Waiting for signals\<close>

text \<open>What \<^verbatim>\<open>recv_timeout\<close> gives: a signal, the timeout, or a closed channel.  Signal numbers are those of Linux.\<close>

datatype recv_timeout = Received int | TimedOut | Disconnected

definition SIGUSR1 :: int where
  "SIGUSR1 = 10"

fun waiter_wait :: "recv_timeout \<Rightarrow> unit result" where
  "waiter_wait (Received sig) = (if sig \<noteq> SIGUSR1 then bail_kind (Interrupt sig) else Inr ())"
| "waiter_wait TimedOut = Inr ()"
| "waiter_wait Disconnected = bail ''signal hook channel disconnected''"

section \<open>The world and the crates\<close>

text \<open>
  \<^verbatim>\<open>TcpStream::connect\<close> and \<^verbatim>\<open>try_clone\<close>, the channel of signals, the cookie, \<^verbatim>\<open>write_all\<close>
  and the next line of the reader (\<open>None\<close> at the end of the stream, \<open>Some None\<close> a failed read).
\<close>

record 'w system =
  sy_connect :: "'w \<Rightarrow> 'w \<times> bool"
  sy_clone :: "'w \<Rightarrow> 'w \<times> bool"
  sy_recv :: "'w \<Rightarrow> 'w \<times> recv_timeout"
  sy_cookie :: "'w \<Rightarrow> 'w \<times> Bytes result"
  sy_write :: "'w \<Rightarrow> string \<Rightarrow> 'w \<times> bool"
  sy_line :: "'w \<Rightarrow> 'w \<times> string option option"

record daemon_crates =
  dc_json :: json_crate
  dc_libs :: libs
  dc_hex :: hex_crate
  dc_tx :: tx_codec
  dc_de_block :: "Bytes \<Rightarrow> Block option"
  dc_hash_from_hex :: "string \<Rightarrow> Bytes option"
  dc_hash_to_hex :: "Bytes \<Rightarrow> string"
  dc_base64 :: "Bytes \<Rightarrow> string"
  dc_int_f64 :: "int \<Rightarrow> f64"
  dc_satoshis :: "f64 \<Rightarrow> u64"

record 'w Daemon =
  dn_world :: 'w
  dn_message_id :: u64

text \<open>\<^verbatim>\<open>?\<close> between operations on the state: an error returns at once, with the state reached so far.\<close>

type_synonym ('s, 'a) act = "'s \<Rightarrow> ('s \<times> 'a result) option"

definition act_bind :: "('s, 'a) act \<Rightarrow> ('a \<Rightarrow> ('s, 'b) act) \<Rightarrow> ('s, 'b) act" where
  "act_bind m f s =
     (case m s of
        None \<Rightarrow> None
      | Some (s', Inl e) \<Rightarrow> Some (s', Inl e)
      | Some (s', Inr x) \<Rightarrow> f x s')"

text \<open>A pure step after an operation.\<close>

definition act_map :: "('s, 'a) act \<Rightarrow> ('a result \<Rightarrow> 'b result) \<Rightarrow> ('s, 'b) act" where
  "act_map m f s = map_option (\<lambda>(s', r). (s', f r)) (m s)"

section \<open>Replies\<close>

definition parse_hash :: "daemon_crates \<Rightarrow> Value \<Rightarrow> Bytes result" where
  "parse_hash K value =
     and_then (ok_or (Msg (''non-string value: '' @ js_to_string (dc_json K) value)) (as_str value)) (\<lambda>s.
     ok_or (Msg (''non-hex value: '' @ js_to_string (dc_json K) value)) (dc_hash_from_hex K s))"

definition header_from_value :: "daemon_crates \<Rightarrow> Value \<Rightarrow> BlockHeader result" where
  "header_from_value K value =
     and_then (ok_or (Msg (''non-string header: '' @ js_to_string (dc_json K) value)) (as_str value)) (\<lambda>header_hex.
     and_then (ok_or (Msg ''non-hex header'') (hex_decode (dc_hex K) header_hex)) (\<lambda>header_bytes.
     ok_or (Msg (''failed to parse header '' @ header_hex)) (lib_de_header (dc_libs K) header_bytes)))"

definition block_from_value :: "daemon_crates \<Rightarrow> Value \<Rightarrow> Block result" where
  "block_from_value K value =
     and_then (ok_or (Msg ''non-string block'') (as_str value)) (\<lambda>block_hex.
     and_then (ok_or (Msg ''non-hex block'') (hex_decode (dc_hex K) block_hex)) (\<lambda>block_bytes.
     ok_or (Msg (''failed to parse block '' @ block_hex)) (dc_de_block K block_bytes)))"

definition tx_from_value :: "daemon_crates \<Rightarrow> Value \<Rightarrow> Transaction result" where
  "tx_from_value K value =
     and_then (ok_or (Msg ''non-string tx'') (as_str value)) (\<lambda>tx_hex.
     and_then (ok_or (Msg ''non-hex tx'') (hex_decode (dc_hex K) tx_hex)) (\<lambda>tx_bytes.
     ok_or (Msg (''failed to parse tx '' @ tx_hex)) (tx_deserialize (dc_tx K) tx_bytes)))"

definition parse_error_code :: "Value \<Rightarrow> int option" where
  "parse_error_code err =
     (if err = VNull then None
      else Option.bind (value_get err ''code'') as_i64)"

definition check_error_code :: "json_crate \<Rightarrow> Value \<Rightarrow> string \<Rightarrow> unit result" where
  "check_error_code J reply_obj meth =
     (case value_get reply_obj ''error'' of
        None \<Rightarrow> Inr ()
      | Some err \<Rightarrow>
          (case parse_error_code err of
             None \<Rightarrow> Inr ()
           | Some code \<Rightarrow>
               if code = - 28 then bail_kind (Connection (js_to_string J err))
               else if code = - 5 then bail_kind (rpc_invalid_params (js_to_string J err))
               else bail (meth @ '' RPC error: '' @ js_to_string J err)))"

text \<open>The debug form of a value in a message is its JSON text.\<close>

definition parse_jsonrpc_reply :: "json_crate \<Rightarrow> string \<Rightarrow> u64 \<Rightarrow> Value \<Rightarrow> Value result" where
  "parse_jsonrpc_reply J meth expected_id reply =
     (case as_object reply of
        None \<Rightarrow> bail (''non-object reply: '' @ js_to_string J reply)
      | Some _ \<Rightarrow>
          and_then (check_error_code J reply meth) (\<lambda>_.
          and_then (ok_or (Msg (''no id in reply: '' @ js_to_string J reply)) (value_get reply ''id'')) (\<lambda>id1.
          if id1 \<noteq> VInt (uint expected_id)
          then bail (''wrong '' @ meth @ '' response id '' @ js_to_string J id1 @ '', expected '' @
                 show_nat (unat expected_id))
          else (case value_get reply ''result'' of
                  Some result \<Rightarrow> Inr result
                | None \<Rightarrow> bail (''no result in reply: '' @ js_to_string J reply)))))"

section \<open>The connection\<close>

partial_function (option) tcp_connect :: "'w system \<Rightarrow> 'w \<Rightarrow> ('w \<times> unit result) option" where
  "tcp_connect Y w =
     (let (w1, connected) = sy_connect Y w in
      if connected then Some (w1, Inr ())
      else let (w2, ev) = sy_recv Y w1 in
        (case waiter_wait ev of
           Inl e \<Rightarrow> Some (w2, Inl e)
         | Inr _ \<Rightarrow> tcp_connect Y w2))"

declare tcp_connect.simps [code]

definition connection_new :: "'w system \<Rightarrow> ('w, unit) act" where
  "connection_new Y =
     act_bind (tcp_connect Y) (\<lambda>_ w.
       let (w1, cloned) = sy_clone Y w in
       Some (w1, if cloned then Inr () else bail ''failed to clone''))"

definition connection_send :: "daemon_crates \<Rightarrow> 'w system \<Rightarrow> 'w \<Rightarrow> string \<Rightarrow> 'w \<times> unit result" where
  "connection_send K Y w request =
     (let (w1, c) = sy_cookie Y w in
      case c of
        Inl e \<Rightarrow> (w1, Inl e)
      | Inr cookie \<Rightarrow>
          let msg = ''POST / HTTP/1.1'' @ [CHR 10] @ ''Authorization: Basic '' @ dc_base64 K cookie @ [CHR 10] @
                    ''Content-Length: '' @ show_nat (length request) @ [CHR 10, CHR 10] @ request;
              (w2, written) = sy_write Y w1 msg
          in (w2, if written then Inr ()
                  else bail_kind (Connection ''disconnected from daemon while sending'')))"

text \<open>\<^verbatim>\<open>splitn(2, ": ")\<close> gives two parts when the separator occurs.\<close>

fun split_header :: "string \<Rightarrow> (string \<times> string) option" where
  "split_header (c # d # s) =
     (if c = CHR '':'' \<and> d = CHR '' '' then Some ([], s)
      else map_option (\<lambda>(k, v). (c # k, v)) (split_header (d # s)))"
| "split_header _ = None"

text \<open>\<^verbatim>\<open>str::parse::<usize>\<close>: an optional plus sign and decimal digits, at most 64 bits.\<close>

definition digit_of :: "char \<Rightarrow> int option" where
  "digit_of c = (let n = of_char c :: int in if 48 \<le> n \<and> n \<le> 57 then Some (n - 48) else None)"

fun parse_digits :: "int \<Rightarrow> string \<Rightarrow> u64 option" where
  "parse_digits n [] = Some (of_int n)"
| "parse_digits n (c # s) =
     (case digit_of c of
        None \<Rightarrow> None
      | Some d \<Rightarrow> if 10 * n + d < 2 ^ 64 then parse_digits (10 * n + d) s else None)"

definition parse_usize :: "string \<Rightarrow> u64 option" where
  "parse_usize s =
     (case s of
        [] \<Rightarrow> None
      | c # r \<Rightarrow> if c = CHR ''+'' then (if r = [] then None else parse_digits 0 r) else parse_digits 0 s)"

text \<open>The loop over the lines after the status line: the headers and the first line of the body.\<close>

partial_function (option) recv_lines :: "'w system \<Rightarrow> bool \<Rightarrow> (string \<times> string) list \<Rightarrow> 'w \<Rightarrow>
    ('w \<times> ((string \<times> string) list \<times> string option) result) option" where
  "recv_lines Y in_header headers w =
     (let (w1, next_line) = sy_line Y w in
      case next_line of
        None \<Rightarrow> Some (w1, Inr (headers, None))
      | Some None \<Rightarrow> Some (w1, bail_kind (Connection ''failed to read''))
      | Some (Some line) \<Rightarrow>
          (if line = [] then recv_lines Y False headers w1
           else if in_header then
             (case split_header line of
                Some kv \<Rightarrow> recv_lines Y in_header (kv # headers) w1
              | None \<Rightarrow> recv_lines Y in_header headers w1)
           else Some (w1, Inr (headers, Some line))))"

declare recv_lines.simps [code]

text \<open>The checks on what was read; the subtraction wraps around, as a release build's does.\<close>

definition recv_contents :: "string \<Rightarrow> (string \<times> string) list \<times> string option \<Rightarrow> string result" where
  "recv_contents status_line hc =
     and_then (ok_or (Connection ''no reply from daemon'') (snd hc)) (\<lambda>contents.
     and_then (ok_or (Msg ''Content-Length is missing'') (map_of (fst hc) ''Content-Length'')) (\<lambda>len.
     and_then (ok_or (Msg (''invalid Content-Length: '' @ len)) (parse_usize len)) (\<lambda>contents_length.
     let expected_length = contents_length - 1 in
     if expected_length \<noteq> of_nat (length contents)
     then bail_kind (Connection (''expected '' @ show_nat (unat expected_length) @ '' bytes, got '' @
            show_nat (length contents)))
     else if status_line = ''HTTP/1.1 200 OK'' \<or> status_line = ''HTTP/1.1 500 Internal Server Error'' then Inr contents
     else bail (''request failed '' @ status_line))))"

definition connection_recv :: "'w system \<Rightarrow> ('w, string) act" where
  "connection_recv Y w =
     (let (w1, next_line) = sy_line Y w in
      case next_line of
        None \<Rightarrow> Some (w1, bail_kind (Connection ''disconnected from daemon while receiving''))
      | Some None \<Rightarrow> Some (w1, bail ''failed to read status'')
      | Some (Some status_line) \<Rightarrow>
          act_map (recv_lines Y True []) (\<lambda>r. and_then r (recv_contents status_line)) w1)"

section \<open>Requests\<close>

text \<open>The state of the client around an operation on its world; \<^verbatim>\<open>Counter::next\<close> wraps around.\<close>

definition on_world :: "('w, 'a) act \<Rightarrow> ('w Daemon, 'a) act" where
  "on_world m d = map_option (\<lambda>(w, r). (d\<lparr>dn_world := w\<rparr>, r)) (m (dn_world d))"

definition counter_next :: "'w Daemon \<Rightarrow> u64 \<times> 'w Daemon" where
  "counter_next d = (dn_message_id d + 1, d\<lparr>dn_message_id := dn_message_id d + 1\<rparr>)"

definition call_jsonrpc :: "daemon_crates \<Rightarrow> 'w system \<Rightarrow> Value \<Rightarrow> ('w Daemon, Value) act" where
  "call_jsonrpc K Y request =
     act_bind (on_world (\<lambda>w. Some (connection_send K Y w (js_to_string (dc_json K) request)))) (\<lambda>_.
     act_map (on_world (connection_recv Y)) (\<lambda>r. and_then r (\<lambda>response.
       ok_or (Msg ''invalid JSON'') (js_from_str (dc_json K) response))))"

definition handle_request_batch :: "daemon_crates \<Rightarrow> 'w system \<Rightarrow> string \<Rightarrow> Value list \<Rightarrow> ('w Daemon, Value list) act" where
  "handle_request_batch K Y meth params_list d =
     (let (id1, d1) = counter_next d;
          reqs = VArray (map (\<lambda>params. VObject [(''method'', VString meth), (''params'', params),
                   (''id'', VInt (uint id1))]) params_list)
      in act_map (call_jsonrpc K Y reqs) (\<lambda>r. and_then r (\<lambda>replies.
           case as_array replies of
             Some replies_vec \<Rightarrow> mapM (parse_jsonrpc_reply (dc_json K) meth id1) replies_vec
           | None \<Rightarrow> bail (''non-array replies: '' @ js_to_string (dc_json K) replies))) d1)"

text \<open>The error that the retry loop catches.\<close>

fun connection_lost :: "'a result \<Rightarrow> bool" where
  "connection_lost (Inl (Error (Connection m) cs)) = True"
| "connection_lost _ = False"

text \<open>One wait and reconnection of the retry loop.\<close>

definition wait_and_reconnect :: "'w system \<Rightarrow> ('w Daemon, unit) act" where
  "wait_and_reconnect Y =
     act_bind (on_world (\<lambda>w. let (w1, ev) = sy_recv Y w in Some (w1, waiter_wait ev))) (\<lambda>_.
     on_world (connection_new Y))"

partial_function (option) retry_request_batch :: "daemon_crates \<Rightarrow> 'w system \<Rightarrow> string \<Rightarrow> Value list \<Rightarrow>
    'w Daemon \<Rightarrow> ('w Daemon \<times> Value list result) option" where
  "retry_request_batch K Y meth params_list d =
     (case handle_request_batch K Y meth params_list d of
        None \<Rightarrow> None
      | Some (d1, r) \<Rightarrow>
          (if connection_lost r then
             (case wait_and_reconnect Y d1 of
                None \<Rightarrow> None
              | Some (d2, Inl e) \<Rightarrow> Some (d2, Inl e)
              | Some (d2, Inr _) \<Rightarrow> retry_request_batch K Y meth params_list d2)
           else Some (d1, r)))"

declare retry_request_batch.simps [code]

definition daemon_request :: "daemon_crates \<Rightarrow> 'w system \<Rightarrow> string \<Rightarrow> Value \<Rightarrow> ('w Daemon, Value) act" where
  "daemon_request K Y meth params =
     act_map (retry_request_batch K Y meth [params]) (\<lambda>r. and_then r (\<lambda>values.
       and_then (require ''assert_eq'' (length values = 1)) (\<lambda>_. Inr (hd values))))"

definition daemon_requests :: "daemon_crates \<Rightarrow> 'w system \<Rightarrow> string \<Rightarrow> Value list \<Rightarrow> ('w Daemon, Value list) act" where
  "daemon_requests K Y meth params_list = retry_request_batch K Y meth params_list"

section \<open>The calls of the node\<close>

text \<open>
  \<^verbatim>\<open>from_value\<close> reads a struct from an object with its fields or from an array of them in order.
\<close>

definition struct_field :: "string list \<Rightarrow> Value \<Rightarrow> string \<Rightarrow> Value option" where
  "struct_field names v name =
     (case v of
        VObject kvs \<Rightarrow> map_of kvs name
      | VArray vs \<Rightarrow> if length vs = length names then map_of (zip names vs) name else None
      | _ \<Rightarrow> None)"

definition as_u32 :: "Value \<Rightarrow> u32 option" where
  "as_u32 v = (case v of VInt n \<Rightarrow> if 0 \<le> n \<and> n < 2 ^ 32 then Some (of_int n) else None | _ \<Rightarrow> None)"

definition as_f64 :: "daemon_crates \<Rightarrow> Value \<Rightarrow> f64 option" where
  "as_f64 K v = (case v of VFloat x \<Rightarrow> Some x | VInt n \<Rightarrow> Some (dc_int_f64 K n) | _ \<Rightarrow> None)"

record BlockchainInfo =
  bi_chain :: string
  bi_blocks :: u32
  bi_headers :: u32
  bi_verificationprogress :: f64
  bi_bestblockhash :: string
  bi_pruned :: bool
  bi_initialblockdownload :: bool

record NetworkInfo =
  ni_version :: u64
  ni_subversion :: string
  ni_relayfee :: f64

definition blockchain_info_from :: "daemon_crates \<Rightarrow> Value \<Rightarrow> BlockchainInfo option" where
  "blockchain_info_from K v =
     (let fld = struct_field [''chain'', ''blocks'', ''headers'', ''verificationprogress'', ''bestblockhash'',
                  ''pruned'', ''initialblockdownload''] v
      in Option.bind (Option.bind (fld ''chain'') as_str) (\<lambda>chain.
         Option.bind (Option.bind (fld ''blocks'') as_u32) (\<lambda>blocks.
         Option.bind (Option.bind (fld ''headers'') as_u32) (\<lambda>hdrs.
         Option.bind (Option.bind (fld ''verificationprogress'') (as_f64 K)) (\<lambda>progress.
         Option.bind (Option.bind (fld ''bestblockhash'') as_str) (\<lambda>best.
         Option.bind (Option.bind (fld ''pruned'') as_bool) (\<lambda>pruned.
         Option.bind (Option.bind (fld ''initialblockdownload'') as_bool) (\<lambda>ibd.
         Some \<lparr>bi_chain = chain, bi_blocks = blocks, bi_headers = hdrs, bi_verificationprogress = progress,
               bi_bestblockhash = best, bi_pruned = pruned, bi_initialblockdownload = ibd\<rparr>))))))))"

definition network_info_from :: "daemon_crates \<Rightarrow> Value \<Rightarrow> NetworkInfo option" where
  "network_info_from K v =
     (let fld = struct_field [''version'', ''subversion'', ''relayfee''] v
      in Option.bind (Option.bind (fld ''version'') as_u64) (\<lambda>version.
         Option.bind (Option.bind (fld ''subversion'') as_str) (\<lambda>subversion.
         Option.bind (Option.bind (fld ''relayfee'') (as_f64 K)) (\<lambda>relayfee.
         Some \<lparr>ni_version = version, ni_subversion = subversion, ni_relayfee = relayfee\<rparr>))))"

definition getblockchaininfo :: "daemon_crates \<Rightarrow> 'w system \<Rightarrow> ('w Daemon, BlockchainInfo) act" where
  "getblockchaininfo K Y =
     act_map (daemon_request K Y ''getblockchaininfo'' (VArray [])) (\<lambda>r. and_then r (\<lambda>info.
       ok_or (Msg ''invalid blockchain info'') (blockchain_info_from K info)))"

definition getnetworkinfo :: "daemon_crates \<Rightarrow> 'w system \<Rightarrow> ('w Daemon, NetworkInfo) act" where
  "getnetworkinfo K Y =
     act_map (daemon_request K Y ''getnetworkinfo'' (VArray [])) (\<lambda>r. and_then r (\<lambda>info.
       ok_or (Msg ''invalid network info'') (network_info_from K info)))"

definition daemon_get_subversion :: "daemon_crates \<Rightarrow> 'w system \<Rightarrow> ('w Daemon, string) act" where
  "daemon_get_subversion K Y = act_map (getnetworkinfo K Y) (\<lambda>r. and_then r (\<lambda>info. Inr (ni_subversion info)))"

definition daemon_get_relayfee :: "daemon_crates \<Rightarrow> 'w system \<Rightarrow> ('w Daemon, f64) act" where
  "daemon_get_relayfee K Y = act_map (getnetworkinfo K Y) (\<lambda>r. and_then r (\<lambda>info. Inr (ni_relayfee info)))"

definition getbestblockhash :: "daemon_crates \<Rightarrow> 'w system \<Rightarrow> ('w Daemon, BlockHash) act" where
  "getbestblockhash K Y =
     act_map (daemon_request K Y ''getbestblockhash'' (VArray [])) (\<lambda>r. and_then r (\<lambda>v.
       chain_err (Msg ''invalid blockhash'') (parse_hash K v)))"

definition getblockheader :: "daemon_crates \<Rightarrow> 'w system \<Rightarrow> BlockHash \<Rightarrow> ('w Daemon, BlockHeader) act" where
  "getblockheader K Y blockhash =
     act_map (daemon_request K Y ''getblockheader'' (VArray [VString (dc_hash_to_hex K blockhash), VBool False]))
       (\<lambda>r. and_then r (header_from_value K))"

definition getblockheaders :: "daemon_crates \<Rightarrow> 'w system \<Rightarrow> nat list \<Rightarrow> ('w Daemon, BlockHeader list) act" where
  "getblockheaders K Y heights =
     act_bind (daemon_requests K Y ''getblockhash'' (map (\<lambda>height. VArray [VInt (int height)]) heights)) (\<lambda>hashes.
     act_map (daemon_requests K Y ''getblockheader'' (map (\<lambda>hash. VArray [hash, VBool False]) hashes))
       (\<lambda>r. and_then r (mapM (header_from_value K))))"

definition getblock :: "daemon_crates \<Rightarrow> 'w system \<Rightarrow> BlockHash \<Rightarrow> ('w Daemon, Block) act" where
  "getblock K Y blockhash =
     act_map (daemon_request K Y ''getblock'' (VArray [VString (dc_hash_to_hex K blockhash), VBool False]))
       (\<lambda>r. and_then r (\<lambda>v. and_then (block_from_value K v) (\<lambda>block.
         and_then (require ''assert_eq'' (lib_block_hash (dc_libs K) (blk_header block) = blockhash)) (\<lambda>_.
         Inr block))))"

definition load_blocktxids :: "daemon_crates \<Rightarrow> 'w system \<Rightarrow> BlockHash \<Rightarrow> ('w Daemon, Txid list) act" where
  "load_blocktxids K Y blockhash =
     act_map (daemon_request K Y ''getblock'' (VArray [VString (dc_hash_to_hex K blockhash), VInt 1]))
       (\<lambda>r. and_then r (\<lambda>v.
         and_then (ok_or (Msg ''block missing txids'') (value_get v ''tx'')) (\<lambda>tx.
         and_then (ok_or (Msg ''invalid block txids'') (as_array tx)) (mapM (parse_hash K)))))"

text \<open>The cache is asked first; only a block it does not hold is loaded.\<close>

definition daemon_getblocktxids :: "daemon_crates \<Rightarrow> 'w system \<Rightarrow> (BlockHash, u32 \<times> Txid list, 'm) indexmap \<Rightarrow>
    ('r \<Rightarrow> nat \<Rightarrow> nat \<times> 'r) \<Rightarrow> ('m, 'r) RndCache \<Rightarrow> BlockHash \<Rightarrow>
    ('w Daemon, ('m, 'r) RndCache \<times> Txid list) act" where
  "daemon_getblocktxids K Y I gen_range c blockhash d =
     (case rnd_get I c blockhash of
        Some ids \<Rightarrow> Some (d, Inr (c, ids))
      | None \<Rightarrow>
          (case load_blocktxids K Y blockhash d of
             None \<Rightarrow> None
           | Some (d1, r) \<Rightarrow> map_option (\<lambda>r'. (d1, r')) (get_or_else I gen_range c blockhash r)))"

text \<open>The arguments of \<^verbatim>\<open>getrawtransaction\<close>, with the block when it is known.\<close>

definition rawtx_args :: "daemon_crates \<Rightarrow> Txid \<Rightarrow> BlockHash option \<Rightarrow> bool \<Rightarrow> Value" where
  "rawtx_args K txhash blockhash verbose =
     VArray ([VString (dc_hash_to_hex K txhash), VBool verbose] @
       (case blockhash of Some bh \<Rightarrow> [VString (dc_hash_to_hex K bh)] | None \<Rightarrow> []))"

definition gettransaction :: "daemon_crates \<Rightarrow> 'w system \<Rightarrow> Txid \<Rightarrow> BlockHash option \<Rightarrow> ('w Daemon, Transaction) act" where
  "gettransaction K Y txhash blockhash =
     act_map (daemon_request K Y ''getrawtransaction'' (rawtx_args K txhash blockhash False))
       (\<lambda>r. and_then r (tx_from_value K))"

definition gettransaction_raw :: "daemon_crates \<Rightarrow> 'w system \<Rightarrow> Txid \<Rightarrow> BlockHash option \<Rightarrow> bool \<Rightarrow>
    ('w Daemon, Value) act" where
  "gettransaction_raw K Y txhash blockhash verbose =
     daemon_request K Y ''getrawtransaction'' (rawtx_args K txhash blockhash verbose)"

text \<open>The \<^verbatim>\<open>HashSet\<close> is the list of its elements.\<close>

definition getmempooltxids :: "daemon_crates \<Rightarrow> 'w system \<Rightarrow> ('w Daemon, Txid list) act" where
  "getmempooltxids K Y =
     act_map (daemon_request K Y ''getrawmempool'' (VArray [VBool False])) (\<lambda>r. and_then r (\<lambda>v.
       and_then (ok_or (Msg ''non-array result'') (as_array v)) (\<lambda>vs.
       and_then (mapM (\<lambda>value. chain_err (Msg ''invalid txid'') (parse_hash K value)) vs) (\<lambda>ids.
       Inr (remdups ids)))))"

definition getmempoolentry :: "daemon_crates \<Rightarrow> 'f f32_ops \<Rightarrow> 'w system \<Rightarrow> Txid \<Rightarrow> ('w Daemon, 'f MempoolEntry) act" where
  "getmempoolentry K F Y txid =
     act_map (daemon_request K Y ''getmempoolentry'' (VArray [VString (dc_hash_to_hex K txid)])) (\<lambda>r.
       and_then r (\<lambda>entry.
       and_then (ok_or (Msg ''missing fee'') (value_get entry ''fee'')) (\<lambda>v.
       and_then (ok_or (Msg ''non-float fee'') (as_f64 K v)) (\<lambda>fee.
       and_then (ok_or (Msg ''missing vsize'') (case value_get entry ''size'' of
                   Some sz \<Rightarrow> Some sz | None \<Rightarrow> value_get entry ''vsize'')) (\<lambda>v2.
       and_then (ok_or (Msg ''non-integer vsize'') (as_u64 v2)) (\<lambda>vsize.
       Inr (mempool_entry_new F (dc_satoshis K fee) (ucast vsize))))))))"

definition daemon_broadcast :: "daemon_crates \<Rightarrow> 'w system \<Rightarrow> Transaction \<Rightarrow> ('w Daemon, Txid) act" where
  "daemon_broadcast K Y tx =
     act_map (daemon_request K Y ''sendrawtransaction''
         (VArray [VString (hex_encode (dc_hex K) (tx_serialize (dc_tx K) tx))])) (\<lambda>r.
       and_then r (\<lambda>txid.
       and_then (ok_or (Msg ''non-string txid'') (as_str txid)) (\<lambda>s.
       ok_or (Msg ''failed to parse txid'') (dc_hash_from_hex K s))))"

section \<open>Headers from the node\<close>

text \<open>\<^verbatim>\<open>slice::chunks\<close> with a positive size.\<close>

fun chunks :: "nat \<Rightarrow> 'a list \<Rightarrow> 'a list list" where
  "chunks n [] = []"
| "chunks n (x # xs) = (x # take (n - 1) xs) # chunks n (drop (n - 1) xs)"

fun download_chunks :: "daemon_crates \<Rightarrow> 'w system \<Rightarrow> nat list list \<Rightarrow> BlockHeader list \<Rightarrow>
    ('w Daemon, BlockHeader list) act" where
  "download_chunks K Y [] result d = Some (d, Inr result)"
| "download_chunks K Y (heights # rest) result d =
     act_bind (getblockheaders K Y heights) (\<lambda>hs d1.
       if length hs = length heights then download_chunks K Y rest (result @ hs) d1
       else Some (d1, Inl (Panic ''headers.len() == heights.len()''))) d"

fun check_header_links :: "(BlockHeader \<Rightarrow> BlockHash) \<Rightarrow> BlockHash \<Rightarrow> BlockHeader list \<Rightarrow> BlockHash result" where
  "check_header_links H blockhash [] = Inr blockhash"
| "check_header_links H blockhash (h # hs) =
     and_then (require ''assert_eq'' (prev_blockhash h = blockhash)) (\<lambda>_. check_header_links H (H h) hs)"

definition get_all_headers :: "daemon_crates \<Rightarrow> 'w system \<Rightarrow> BlockHash \<Rightarrow> ('w Daemon, BlockHeader list) act" where
  "get_all_headers K Y tip_hash =
     act_bind (act_map (daemon_request K Y ''getblockheader'' (VArray [VString (dc_hash_to_hex K tip_hash)]))
       (\<lambda>r. and_then r (\<lambda>info.
         and_then (expect ''missing height'' (value_get info ''height'')) (\<lambda>v.
         and_then (expect ''non-numeric height'' (as_u64 v)) (\<lambda>n. Inr (unat n)))))) (\<lambda>tip_height.
     act_map (download_chunks K Y (chunks 100000 [0..<Suc tip_height]) []) (\<lambda>r. and_then r (\<lambda>result.
       and_then (check_header_links (lib_block_hash (dc_libs K)) null_hash result) (\<lambda>blockhash.
       and_then (require ''assert_eq'' (blockhash = tip_hash)) (\<lambda>_. Inr result)))))"

text \<open>The walk back from the best block to one that is indexed; the headers are collected tip first.\<close>

partial_function (option) walk_back :: "daemon_crates \<Rightarrow> 'w system \<Rightarrow> HeaderList \<Rightarrow> BlockHash \<Rightarrow>
    BlockHeader list \<Rightarrow> 'w Daemon \<Rightarrow> ('w Daemon \<times> BlockHeader list result) option" where
  "walk_back K Y indexed_headers blockhash new_headers d =
     (if blockhash = null_hash \<or> header_by_blockhash indexed_headers blockhash \<noteq> None
      then Some (d, Inr new_headers)
      else (case getblockheader K Y blockhash d of
              None \<Rightarrow> None
            | Some (d1, r) \<Rightarrow>
                (case chain_err (Msg (''failed to get '' @ dc_hash_to_hex K blockhash @ '' header'')) r of
                   Inl e \<Rightarrow> Some (d1, Inl e)
                 | Inr header \<Rightarrow>
                     walk_back K Y indexed_headers (prev_blockhash header) (new_headers @ [header]) d1)))"

declare walk_back.simps [code]

definition get_new_headers :: "daemon_crates \<Rightarrow> 'w system \<Rightarrow> HeaderList \<Rightarrow> BlockHash \<Rightarrow>
    ('w Daemon, BlockHeader list) act" where
  "get_new_headers K Y indexed_headers bestblockhash =
     (if headers_is_empty indexed_headers then get_all_headers K Y bestblockhash
      else act_map (walk_back K Y indexed_headers bestblockhash []) (\<lambda>r. and_then r (\<lambda>hs. Inr (rev hs))))"

section \<open>Starting the client\<close>

text \<open>The loop that waits for the node's initial block download.\<close>

partial_function (option) wait_ibd :: "daemon_crates \<Rightarrow> 'w system \<Rightarrow> Network \<Rightarrow> 'w Daemon \<Rightarrow>
    ('w Daemon \<times> unit result) option" where
  "wait_ibd K Y network d =
     (case getblockchaininfo K Y d of
        None \<Rightarrow> None
      | Some (d1, Inl e) \<Rightarrow> Some (d1, Inl e)
      | Some (d1, Inr info) \<Rightarrow>
          (if \<not> bi_initialblockdownload info \<or> (network = Regtest \<and> bi_headers info = bi_blocks info)
           then Some (d1, Inr ())
           else let (w, ev) = sy_recv Y (dn_world d1) in
             (case waiter_wait ev of
                Inl e \<Rightarrow> Some (d1\<lparr>dn_world := w\<rparr>, Inl e)
              | Inr _ \<Rightarrow> wait_ibd K Y network (d1\<lparr>dn_world := w\<rparr>))))"

declare wait_ibd.simps [code]

definition daemon_checks :: "daemon_crates \<Rightarrow> 'w system \<Rightarrow> Network \<Rightarrow> ('w Daemon, unit) act" where
  "daemon_checks K Y network =
     act_bind (getnetworkinfo K Y) (\<lambda>network_info d.
       if ni_version network_info < 160000
       then Some (d, bail (ni_subversion network_info @ '' is not supported - please use bitcoind 0.16+''))
       else act_bind (getblockchaininfo K Y) (\<lambda>blockchain_info d1.
              if bi_pruned blockchain_info
              then Some (d1, bail (''pruned node is not supported (use '' @ [CHR 39] @ ''-prune=0'' @ [CHR 39] @ '' bitcoind flag)''))
              else wait_ibd K Y network d1) d)"

definition daemon_new :: "daemon_crates \<Rightarrow> 'w system \<Rightarrow> Network \<Rightarrow> 'w \<Rightarrow> ('w Daemon \<times> unit result) option" where
  "daemon_new K Y network w =
     (case connection_new Y w of
        None \<Rightarrow> None
      | Some (w1, Inl e) \<Rightarrow> Some (\<lparr>dn_world = w1, dn_message_id = 0\<rparr>, Inl e)
      | Some (w1, Inr _) \<Rightarrow> daemon_checks K Y network \<lparr>dn_world = w1, dn_message_id = 0\<rparr>)"

definition daemon_reconnect :: "'w system \<Rightarrow> 'w Daemon \<Rightarrow> ('w Daemon \<times> unit result) option" where
  "daemon_reconnect Y d =
     map_option (\<lambda>(w, r). (\<lparr>dn_world = w, dn_message_id = 0\<rparr>, r)) (connection_new Y (dn_world d))"

section \<open>Lemmas\<close>

lemma act_bind_eq_Inr:
  "act_bind m f s = Some (s', Inr y) \<longleftrightarrow> (\<exists>s1 x. m s = Some (s1, Inr x) \<and> f x s1 = Some (s', Inr y))"
  by (auto simp: act_bind_def split: option.splits sum.splits)

lemma act_map_eq: "act_map m f s = Some (s', y) \<longleftrightarrow> (\<exists>r. m s = Some (s', r) \<and> f r = y)"
  by (auto simp: act_map_def)

lemma on_world_eq:
  "on_world m d = Some (d', r) \<longleftrightarrow> (\<exists>w. m (dn_world d) = Some (w, r) \<and> d' = d\<lparr>dn_world := w\<rparr>)"
  by (auto simp: on_world_def)

named_theorems act_simps \<open>rules for operations on the state of the client\<close>

lemmas [act_simps] = act_bind_eq_Inr act_map_eq on_world_eq

lemma mapM_Inr_iff: "mapM f xs = Inr ys \<longleftrightarrow> list_all2 (\<lambda>x y. f x = Inr y) xs ys"
  by (induction xs arbitrary: ys) (auto simp: result_simps list_all2_Cons1)

lemma connection_lost_simps [simp]: "\<not> connection_lost (Inr x)" "\<not> connection_lost (Inl (Panic m))"
  by simp_all

lemma check_error_code_Inr:
  "check_error_code J reply meth = Inr () \<longleftrightarrow>
     Option.bind (value_get reply ''error'') parse_error_code = None"
  by (auto simp: check_error_code_def bail_def bail_kind_def split: option.splits)

text \<open>A reply that is accepted: it carries no error code, the id of the request, and the result.\<close>

definition answered_by :: "u64 \<Rightarrow> Value \<Rightarrow> Value \<Rightarrow> bool" where
  "answered_by expected_id reply result \<longleftrightarrow>
     Option.bind (value_get reply ''error'') parse_error_code = None \<and>
     value_get reply ''id'' = Some (VInt (uint expected_id)) \<and> value_get reply ''result'' = Some result"

lemma parse_jsonrpc_reply_Inr:
  "parse_jsonrpc_reply J meth expected_id reply = Inr result \<longleftrightarrow> answered_by expected_id reply result"
  by (auto simp: parse_jsonrpc_reply_def answered_by_def result_simps check_error_code_Inr value_get_def
      split: option.splits if_splits)

lemma call_jsonrpc_Inr:
  assumes "call_jsonrpc K Y request d = Some (d', Inr v)"
  shows "dn_message_id d' = dn_message_id d \<and>
    (\<exists>w response. connection_send K Y (dn_world d) (js_to_string (dc_json K) request) = (w, Inr ()) \<and>
       connection_recv Y w = Some (dn_world d', Inr response) \<and> js_from_str (dc_json K) response = Some v)"
proof -
  from assms obtain d1 where snd: "on_world (\<lambda>w. Some (connection_send K Y w (js_to_string (dc_json K) request))) d = Some (d1, Inr ())"
    and rcv: "act_map (on_world (connection_recv Y)) (\<lambda>r. and_then r (\<lambda>response.
       ok_or (Msg ''invalid JSON'') (js_from_str (dc_json K) response))) d1 = Some (d', Inr v)"
    unfolding call_jsonrpc_def act_bind_eq_Inr by auto
  from snd obtain w where w: "connection_send K Y (dn_world d) (js_to_string (dc_json K) request) = (w, Inr ())"
    "d1 = d\<lparr>dn_world := w\<rparr>" unfolding on_world_eq by auto
  from rcv obtain r where "connection_recv Y (dn_world d1) = Some (dn_world d', r)" "dn_message_id d' = dn_message_id d1"
    and r: "and_then r (\<lambda>response. ok_or (Msg ''invalid JSON'') (js_from_str (dc_json K) response)) = Inr v"
    unfolding act_map_eq on_world_eq by auto
  with w show ?thesis unfolding and_then_eq_Inr ok_or_eq_Inr by auto
qed

lemma handle_request_batch_Inr:
  assumes "handle_request_batch K Y meth ps d = Some (d', Inr values)"
  shows "dn_message_id d' = dn_message_id d + 1 \<and>
    (\<exists>w response replies. connection_recv Y w = Some (dn_world d', Inr response) \<and>
       js_from_str (dc_json K) response = Some (VArray replies) \<and>
       list_all2 (answered_by (dn_message_id d + 1)) replies values)"
proof -
  from assms obtain request v where v: "call_jsonrpc K Y request (d\<lparr>dn_message_id := dn_message_id d + 1\<rparr>) = Some (d', Inr v)"
    and r: "(case as_array v of
             Some replies_vec \<Rightarrow> mapM (parse_jsonrpc_reply (dc_json K) meth (dn_message_id d + 1)) replies_vec
           | None \<Rightarrow> bail (''non-array replies: '' @ js_to_string (dc_json K) v)) = Inr values"
    by (auto simp: handle_request_batch_def counter_next_def Let_def act_simps result_simps)
  from r obtain replies where replies: "v = VArray replies"
    "mapM (parse_jsonrpc_reply (dc_json K) meth (dn_message_id d + 1)) replies = Inr values"
    by (cases v) auto
  with call_jsonrpc_Inr [OF v] show ?thesis
    by (auto simp: mapM_Inr_iff parse_jsonrpc_reply_Inr)
qed

subsection \<open>The retry loop\<close>

text \<open>The node can be reached at the attempt \<open>n\<close>, and no signal interrupts the waits before it.\<close>

fun reachable :: "'w system \<Rightarrow> nat \<Rightarrow> 'w \<Rightarrow> 'w \<Rightarrow> bool" where
  "reachable Y 0 w w' \<longleftrightarrow> sy_connect Y w = (w', True)"
| "reachable Y (Suc n) w w' \<longleftrightarrow>
     (\<exists>w1 w2 ev. sy_connect Y w = (w1, False) \<and> sy_recv Y w1 = (w2, ev) \<and> waiter_wait ev = Inr () \<and>
        reachable Y n w2 w')"

text \<open>
  The connection is lost \<open>n\<close> times, each time the wait is not interrupted and the node can be reached
  again, and then an attempt succeeds or fails for another reason.
\<close>

inductive recovers :: "daemon_crates \<Rightarrow> 'w system \<Rightarrow> string \<Rightarrow> Value list \<Rightarrow> 'w Daemon \<Rightarrow> nat \<Rightarrow> 'w Daemon \<Rightarrow>
    Value list result \<Rightarrow> bool" for K Y meth ps where
  at_once: "handle_request_batch K Y meth ps d = Some (d', r) \<Longrightarrow> \<not> connection_lost r \<Longrightarrow>
     recovers K Y meth ps d 0 d' r"
| lost: "handle_request_batch K Y meth ps d = Some (d1, r1) \<Longrightarrow> connection_lost r1 \<Longrightarrow>
     sy_recv Y (dn_world d1) = (w1, ev) \<Longrightarrow> waiter_wait ev = Inr () \<Longrightarrow> reachable Y m w1 w2 \<Longrightarrow>
     sy_clone Y w2 = (w3, True) \<Longrightarrow> recovers K Y meth ps (d1\<lparr>dn_world := w3\<rparr>) n d' r \<Longrightarrow>
     recovers K Y meth ps d (Suc n) d' r"

lemma tcp_connect_reachable: "reachable Y n w w' \<Longrightarrow> tcp_connect Y w = Some (w', Inr ())"
  by (induction n arbitrary: w) (auto simp: tcp_connect.simps)

lemma reconnect_reachable:
  assumes "sy_recv Y (dn_world d) = (w1, ev)" "waiter_wait ev = Inr ()" "reachable Y m w1 w2" "sy_clone Y w2 = (w3, True)"
  shows "wait_and_reconnect Y d = Some (d\<lparr>dn_world := w3\<rparr>, Inr ())"
  using assms tcp_connect_reachable [OF assms(3)]
  by (simp add: wait_and_reconnect_def act_bind_def on_world_def connection_new_def)

lemma recovers_returns: "recovers K Y meth ps d n d' r \<Longrightarrow> retry_request_batch K Y meth ps d = Some (d', r)"
proof (induction rule: recovers.induct)
  case (lost d d1 r1 w1 ev m w2 w3 n d' r)
  from reconnect_reachable [OF lost(3-6)] lost(1,2,8) show ?case by (simp add: retry_request_batch.simps)
qed (simp add: retry_request_batch.simps)

lemma recovers_not_lost: "recovers K Y meth ps d n d' r \<Longrightarrow> \<not> connection_lost r"
  by (induction rule: recovers.induct) auto

text \<open>The loop never gives a lost connection to its caller, save one the reconnection itself reports.\<close>

lemma retry_induct [consumes 1, case_names at_once stop lost]:
  assumes "retry_request_batch K Y meth ps d = Some (d', r)"
    and "\<And>d d1 r. handle_request_batch K Y meth ps d = Some (d1, r) \<Longrightarrow> \<not> connection_lost r \<Longrightarrow> P d d1 r"
    and "\<And>d d1 r1 d2 e. handle_request_batch K Y meth ps d = Some (d1, r1) \<Longrightarrow> connection_lost r1 \<Longrightarrow>
      wait_and_reconnect Y d1 = Some (d2, Inl e) \<Longrightarrow> P d d2 (Inl e)"
    and "\<And>d d1 r1 d2 d3 r. handle_request_batch K Y meth ps d = Some (d1, r1) \<Longrightarrow> connection_lost r1 \<Longrightarrow>
      wait_and_reconnect Y d1 = Some (d2, Inr ()) \<Longrightarrow> P d2 d3 r \<Longrightarrow> P d d3 r"
  shows "P d d' r"
proof -
  let ?Q = "\<lambda>K' Y' meth' ps' d y. K' = K \<longrightarrow> Y' = Y \<longrightarrow> meth' = meth \<longrightarrow> ps' = ps \<longrightarrow> P d (fst y) (snd y)"
  have "?Q K Y meth ps d (d', r)"
  proof (rule retry_request_batch.raw_induct [of ?Q, OF _ assms(1)], intro impI, goal_cases)
    case (1 f K' Y' meth' ps' d y)
    note [simp] = 1(3-6)
    note IH = 1(1) [of K Y meth ps, simplified] and body = 1(2) [simplified]
    obtain d1 r1 where h: "handle_request_batch K Y meth ps d = Some (d1, r1)"
      using body by (cases "handle_request_batch K Y meth ps d") auto
    show ?case
    proof (cases "connection_lost r1")
      case False
      with h body assms(2) [OF h] show ?thesis by auto
    next
      case True
      with h body obtain d2 r2 where w: "wait_and_reconnect Y d1 = Some (d2, r2)"
        by (cases "wait_and_reconnect Y d1") auto
      show ?thesis
      proof (cases r2)
        case (Inl e)
        with h True w body assms(3) [OF h True] show ?thesis by auto
      next
        case (Inr u)
        with h True w body have "f K Y meth ps d2 = Some y" by simp
        from IH [OF this] assms(4) [OF h True] w Inr show ?thesis by simp
      qed
    qed
  qed
  then show ?thesis by simp
qed

text \<open>The results of a request: one for each reply, each with the id of the last attempt.\<close>

lemma retry_answers:
  assumes "retry_request_batch K Y meth ps d = Some (d', Inr values)"
  shows "\<exists>w response replies. connection_recv Y w = Some (dn_world d', Inr response) \<and>
    js_from_str (dc_json K) response = Some (VArray replies) \<and>
    list_all2 (answered_by (dn_message_id d')) replies values"
proof -
  have *: "retry_request_batch K Y meth ps d = Some (d', r) \<Longrightarrow> r = Inr values \<Longrightarrow>
    \<exists>d1. handle_request_batch K Y meth ps d1 = Some (d', Inr values)" for d' r
    by (induction rule: retry_induct) auto
  from * [OF assms refl] obtain d1 where "handle_request_batch K Y meth ps d1 = Some (d', Inr values)" ..
  from handle_request_batch_Inr [OF this] show ?thesis by auto
qed

subsection \<open>Headers\<close>

text \<open>A block at which the walk back stops.\<close>

definition known :: "HeaderList \<Rightarrow> BlockHash \<Rightarrow> bool" where
  "known hl bh \<longleftrightarrow> bh = null_hash \<or> header_by_blockhash hl bh \<noteq> None"

text \<open>The node answers the requests for these headers, one after the other.\<close>

fun serves_headers :: "daemon_crates \<Rightarrow> 'w system \<Rightarrow> BlockHeader list \<Rightarrow> 'w Daemon \<Rightarrow> 'w Daemon \<Rightarrow> bool" where
  "serves_headers K Y [] d d' \<longleftrightarrow> d' = d"
| "serves_headers K Y (h # hs) d d' \<longleftrightarrow>
     (\<exists>d1. getblockheader K Y (lib_block_hash (dc_libs K) h) d = Some (d1, Inr h) \<and> serves_headers K Y hs d1 d')"

text \<open>Headers tip first from \<open>bh\<close> down to a block where the walk stops.\<close>

fun leads :: "(BlockHeader \<Rightarrow> BlockHash) \<Rightarrow> HeaderList \<Rightarrow> BlockHash \<Rightarrow> BlockHeader list \<Rightarrow> bool" where
  "leads H hl bh [] \<longleftrightarrow> known hl bh"
| "leads H hl bh (h # hs) \<longleftrightarrow> \<not> known hl bh \<and> H h = bh \<and> leads H hl (prev_blockhash h) hs"

lemma walk_back_served:
  "serves_headers K Y hs d d' \<Longrightarrow> leads (lib_block_hash (dc_libs K)) hl bh hs \<Longrightarrow>
     walk_back K Y hl bh acc d = Some (d', Inr (acc @ hs))"
  by (induction hs arbitrary: d bh acc) (auto simp: walk_back.simps known_def)

lemma linked_leads:
  "linked H (hs @ [h]) \<Longrightarrow> known hl (prev_blockhash (hd (hs @ [h]))) \<Longrightarrow>
   \<forall>x\<in>set (hs @ [h]). \<not> known hl (H x) \<Longrightarrow> leads H hl (H h) (h # rev hs)"
proof (induction hs arbitrary: h rule: rev_induct)
  case (snoc x hs)
  have lk: "linked H (hs @ [x])" "prev_blockhash h = H x"
    using snoc.prems(1) by (induction hs rule: induct_list012) auto
  moreover have "hd ((hs @ [x]) @ [h]) = hd (hs @ [x])" by (cases hs) auto
  ultimately show ?case using snoc.IH [OF lk(1)] snoc.prems by simp
qed simp

lemma check_header_links_Inr:
  "check_header_links H bh hs = Inr bh' \<longleftrightarrow>
     linked H hs \<and> (if hs = [] then bh' = bh else prev_blockhash (hd hs) = bh \<and> H (last hs) = bh')"
  by (induction H hs arbitrary: bh rule: linked.induct) (auto simp: result_simps)

lemma get_all_headers_Inr:
  assumes "get_all_headers K Y best d = Some (d', Inr hs)"
  shows "linked (lib_block_hash (dc_libs K)) hs \<and>
    (if hs = [] then best = null_hash
     else prev_blockhash (hd hs) = null_hash \<and> lib_block_hash (dc_libs K) (last hs) = best)"
proof -
  from assms obtain bh where "check_header_links (lib_block_hash (dc_libs K)) null_hash hs = Inr bh" "bh = best"
    unfolding get_all_headers_def act_simps and_then_eq_Inr require_eq_Inr by auto
  then show ?thesis by (auto simp: check_header_links_Inr)
qed

text \<open>Headers that continue the indexed chain to \<open>best\<close> are ordered and applied, and \<open>best\<close> is then the tip.\<close>

lemma linked_applies:
  assumes wf: "wf_headers H hl" and hs: "hs \<noteq> []" "linked H hs" "known hl (prev_blockhash (hd hs))"
    and nz: "\<forall>h\<in>set hs. H h \<noteq> null_hash"
  shows "\<exists>es hl'. order H hl hs = Inr es \<and> map he_header es = hs \<and>
    apply_headers hl es (H (last hs)) = Inr hl' \<and> tiphash hl' = H (last hs)"
proof -
  from hs obtain es where es: "order H hl hs = Inr es" "es \<noteq> []"
    by (cases hs; cases "prev_blockhash (hd hs) = null_hash")
       (auto simp: order_def hash_headers_linked Let_def known_def)
  from order_chained [OF this] obtain n prev where ch: "chained H n prev es" "map he_header es = hs" .
  from chained_nth(2) [OF ch(1), of "length es - 1"] es(2) ch(2) have l: "he_hash (last es) = H (last hs)"
    by (auto simp: last_conv_nth)
  from apply_ordered_ok [OF wf es nz] l obtain hl' where ap: "apply_headers hl es (H (last hs)) = Inr hl'" by auto
  from apply_headers_chain [OF ap] nz hs(1) have "tiphash hl' = H (last hs)" by auto
  with es ch(2) ap show ?thesis by blast
qed

section \<open>A node\<close>

text \<open>
  A node that serves one header.  A request is written as its id in unary and a letter for the call;
  the first \<open>fails\<close> messages find the connection closed.
\<close>

record demo_net =
  dw_lines :: "string list"
  dw_fails :: nat

definition demo_request :: "Value \<Rightarrow> string" where
  "demo_request v =
     (case v of
        VArray [VObject [(_, VString meth), (_, VArray ps), (_, VInt n)]] \<Rightarrow>
          replicate (nat n) CHR ''x'' @
          (if meth = ''getblockhash'' then ''b'' else if length ps = 1 then ''i'' else ''h'')
      | _ \<Rightarrow> [])"

definition demo_reply :: "string \<Rightarrow> Value option" where
  "demo_reply s =
     Some (VArray [VObject [(''id'', VInt (int (length s) - 1)), (''error'', VNull),
       (''result'', if last s = CHR ''i'' then VObject [(''height'', VInt 0)] else VString ''00'')]])"

definition demo_node :: "BlockHeader \<Rightarrow> daemon_crates" where
  "demo_node h =
     \<lparr>dc_json = \<lparr>js_from_str = demo_reply, js_to_string = demo_request\<rparr>,
      dc_libs = std_libs\<lparr>lib_block_hash := demo_hash, lib_de_header := \<lambda>_. Some h\<rparr>,
      dc_hex = \<lparr>hex_encode = \<lambda>_. [], hex_decode = \<lambda>_. Some []\<rparr>, dc_tx = demo_codec, dc_de_block = \<lambda>_. None,
      dc_hash_from_hex = \<lambda>_. None, dc_hash_to_hex = \<lambda>_. [], dc_base64 = \<lambda>_. [], dc_int_f64 = of_int,
      dc_satoshis = \<lambda>x. x\<rparr>"

definition demo_body :: "string \<Rightarrow> string" where
  "demo_body msg = rev (takeWhile (\<lambda>c. c \<noteq> CHR 0x0A) (rev msg))"

definition demo_system :: "demo_net system" where
  "demo_system =
     \<lparr>sy_connect = \<lambda>w. (w, True), sy_clone = \<lambda>w. (w, True), sy_recv = \<lambda>w. (w, TimedOut),
      sy_cookie = \<lambda>w. (w, Inr []),
      sy_write = \<lambda>w msg.
        (if 0 < dw_fails w then (w\<lparr>dw_fails := dw_fails w - 1\<rparr>, False)
         else (w\<lparr>dw_lines := [''HTTP/1.1 200 OK'',
                 ''Content-Length: '' @ show_nat (length (demo_body msg) + 1), [], demo_body msg]\<rparr>, True)),
      sy_line = \<lambda>w. (case dw_lines w of
                      [] \<Rightarrow> (w, None)
                    | l # ls \<Rightarrow> (w\<lparr>dw_lines := ls\<rparr>, Some (Some l)))\<rparr>"

definition demo_client :: "nat \<Rightarrow> demo_net Daemon" where
  "demo_client n = \<lparr>dn_world = \<lparr>dw_lines = [], dw_fails = n\<rparr>, dn_message_id = 0\<rparr>"

definition demo_fork_header :: BlockHeader where
  "demo_fork_header = demo_header 3 (demo_hash (demo_header 1 null_hash))"

definition demo_state :: "u64 \<Rightarrow> demo_net Daemon" where
  "demo_state n = \<lparr>dn_world = \<lparr>dw_lines = [], dw_fails = 0\<rparr>, dn_message_id = n\<rparr>"

lemma demo_handle_lost:
  "handle_request_batch (demo_node h) demo_system ''getblockheader'' [VArray [VString [], VBool False]] (demo_client 1) =
     Some (demo_state 1, bail_kind (Connection ''disconnected from daemon while sending''))"
  by code_simp

lemma demo_handle_header:
  "handle_request_batch (demo_node h) demo_system ''getblockheader'' [VArray [VString [], VBool False]] (demo_state 1) =
     Some (demo_state 2, Inr [VString ''00''])"
  by code_simp

lemma demo_recovers:
  "recovers (demo_node h) demo_system ''getblockheader'' [VArray [VString [], VBool False]] (demo_client 1) 1
     (demo_state 2) (Inr [VString ''00''])"
proof -
  note ok = at_once [OF demo_handle_header [of h], simplified]
  have sys: "sy_recv demo_system w = (w, TimedOut)" "sy_clone demo_system w = (w, True)"
    "reachable demo_system 0 w w" for w
    by (simp_all add: demo_system_def)
  show ?thesis
    using lost [OF demo_handle_lost [of h] _ sys(1) _ sys(3,2), of 0 "demo_state 2" "Inr [VString ''00'']"] ok
    by (simp add: bail_kind_def)
qed

section \<open>Properties\<close>

text \<open>C18: A request survives a node that goes away: if the connection is lost any number of times, each
  wait is not interrupted and the node can be reached again, then \<^verbatim>\<open>retry_request_batch\<close>
  returns, with the result of the first attempt that did not lose the connection.\<close>

theorem request_recovers:
  assumes "recovers K Y meth params_list d n d' r"
  shows "retry_request_batch K Y meth params_list d = Some (d', r) \<and> \<not> connection_lost r"
  using recovers_returns [OF assms] recovers_not_lost [OF assms] by simp

theorem request_recovers_witness:
  "retry_request_batch (demo_node demo_fork_header) demo_system ''getblockheader'' [VArray [VString [], VBool False]] (demo_client 1) =
     Some (demo_state 2, Inr [VString ''00''])"
  using request_recovers [OF demo_recovers] by simp

text \<open>C19: Every value that a request returns is the result of a reply in the last response read from the
  node that carries the id of the last message sent and no error code; there is one for each reply.
  A late answer to an earlier message is never taken for the answer.\<close>

theorem replies_match:
  assumes "retry_request_batch K Y meth params_list d = Some (d', Inr values)"
  shows "\<exists>w response replies. connection_recv Y w = Some (dn_world d', Inr response) \<and>
    js_from_str (dc_json K) response = Some (VArray replies) \<and>
    list_all2 (\<lambda>reply result. value_get reply ''id'' = Some (VInt (uint (dn_message_id d'))) \<and>
      value_get reply ''result'' = Some result \<and>
      Option.bind (value_get reply ''error'') parse_error_code = None) replies values"
  using retry_answers [OF assms] by (force simp: answered_by_def elim!: list_all2_mono)

theorem replies_match_witness:
  "\<exists>w response replies. connection_recv demo_system w = Some (dn_world (demo_state 2), Inr response) \<and>
     demo_reply response = Some (VArray replies) \<and>
     list_all2 (\<lambda>reply result. value_get reply ''id'' = Some (VInt 2)) replies [VString ''00'']"
  using replies_match [OF recovers_returns [OF demo_recovers [of demo_fork_header]]]
  by (force simp: demo_state_def demo_node_def elim!: list_all2_mono)

text \<open>C7: When the node serves the headers between its best block and the indexed chain, the walk back
  ends and \<^verbatim>\<open>get_new_headers\<close> returns exactly those headers, oldest first; \<^verbatim>\<open>order\<close> and \<^verbatim>\<open>apply\<close>
  accept them and the best block is the tip of the chain that results.\<close>

theorem new_headers_exact:
  assumes "wf_headers (lib_block_hash (dc_libs K)) hl" "hl_headers hl \<noteq> []"
    and "hs \<noteq> []" "linked (lib_block_hash (dc_libs K)) hs" "lib_block_hash (dc_libs K) (last hs) = best"
    and "known hl (prev_blockhash (hd hs))" "\<forall>h\<in>set hs. \<not> known hl (lib_block_hash (dc_libs K) h)"
    and "serves_headers K Y (rev hs) d d'"
  shows "get_new_headers K Y hl best d = Some (d', Inr hs) \<and>
    (\<exists>es hl'. order (lib_block_hash (dc_libs K)) hl hs = Inr es \<and> map he_header es = hs \<and>
       apply_headers hl es best = Inr hl' \<and> tiphash hl' = best)"
proof -
  let ?H = "lib_block_hash (dc_libs K)"
  from assms(3) obtain pre h where hs: "hs = pre @ [h]" by (cases hs rule: rev_cases) auto
  from linked_leads [of ?H pre h hl] assms(4,6,7) hs have "leads ?H hl best (rev hs)"
    using assms(5) by simp
  from walk_back_served [OF assms(8) this, of "[]"]
  have "get_new_headers K Y hl best d = Some (d', Inr hs)"
    using assms(2) by (simp add: get_new_headers_def headers_is_empty_def act_map_def)
  moreover have "\<forall>h\<in>set hs. ?H h \<noteq> null_hash" using assms(7) by (auto simp: known_def)
  ultimately show ?thesis using linked_applies [OF assms(1,3,4,6)] assms(5) by blast
qed

theorem new_headers_exact_witness:
  "\<exists>d'. get_new_headers (demo_node demo_fork_header) demo_system demo_chain (demo_hash demo_fork_header) (demo_state 1) =
     Some (d', Inr [demo_fork_header])"
proof -
  have "serves_headers (demo_node demo_fork_header) demo_system (rev [demo_fork_header]) (demo_state 1) (demo_state 2)"
    by (simp add: demo_node_def getblockheader_def daemon_request_def act_map_def header_from_value_def
        retry_request_batch.simps [of _ demo_system] demo_handle_header [unfolded demo_node_def])
  moreover have "wf_headers (lib_block_hash (dc_libs (demo_node demo_fork_header))) demo_chain"
    using demo_chain_wf by (simp add: demo_node_def)
  ultimately show ?thesis
    using new_headers_exact [of "demo_node demo_fork_header" demo_chain "[demo_fork_header]" "demo_hash demo_fork_header" demo_system]
    by (simp add: known_def demo_node_def demo_fork_header_def header_by_blockhash_def headers_get_def demo_defs)
qed

end
