(* ===== verification/Bulk.thy ===== *)
theory Bulk
  imports Daemon Index
begin

text \<open>
  The bulk import of the node's block files (\<^verbatim>\<open>src/src/bulk.rs\<close>): the parser of a file, what it
  indexes, and the pipeline of a reader thread, the indexer threads and the writer.  The two channels
  have no buffer, so a hand-over is one step of both sides; the indexers share the set of seen
  block hashes and lock it once per block, so the block is the unit of interleaving.
\<close>

section \<open>Block files\<close>

text \<open>
  What the \<^verbatim>\<open>bitcoincash\<close> crate decodes, a \<^verbatim>\<open>u32\<close> from the next four bytes and a block, and
  the unstable sort of the rows by key.
\<close>

record bulk_crate =
  bc_de_u32 :: "Bytes \<Rightarrow> u32 option"
  bc_de_block :: "Bytes \<Rightarrow> Block option"
  bc_sort_rows :: "Row list \<Rightarrow> Row list"

text \<open>The cursor is the rest of the blob; reading a \<^verbatim>\<open>u32\<close> moves it by four bytes.\<close>

function parse_blocks_loop :: "bulk_crate \<Rightarrow> u32 \<Rightarrow> Bytes \<Rightarrow> Block list \<Rightarrow> Block list result" where
  "parse_blocks_loop C magic [] blocks = Inr blocks"
| "parse_blocks_loop C magic (b # rest) blocks =
     (case bc_de_u32 C (b # rest) of
        None \<Rightarrow> Inr blocks
      | Some value \<Rightarrow>
          if magic \<noteq> value then parse_blocks_loop C magic rest blocks
          else (case bc_de_u32 C (drop 4 (b # rest)) of
                  None \<Rightarrow> bail ''no block size''
                | Some block_size \<Rightarrow>
                    let body = drop 8 (b # rest) in
                    (case bc_de_u32 C body of
                       None \<Rightarrow> Inr blocks
                     | Some value2 \<Rightarrow>
                         if magic = value2 then parse_blocks_loop C magic body blocks
                         else if length body < unat block_size then Inl (Panic ''range end index out of range'')
                         else (case bc_de_block C (take (unat block_size) body) of
                                 None \<Rightarrow> bail ''failed to parse block''
                               | Some block \<Rightarrow>
                                   parse_blocks_loop C magic (drop (unat block_size) body) (blocks @ [block])))))"
  by pat_completeness auto
termination by (relation "measure (\<lambda>(_, _, rest, _). length rest)") auto

declare parse_blocks_loop.simps [simp del]

definition parse_blocks :: "bulk_crate \<Rightarrow> u32 \<Rightarrow> Bytes \<Rightarrow> Block list result" where
  "parse_blocks C magic blob = parse_blocks_loop C magic blob []"

section \<open>Indexing a file\<close>

record Parser =
  ps_magic :: u32
  ps_current_headers :: HeaderList
  ps_cashaccount_activation_height :: u32

text \<open>
  The body of the loop over the blocks: the set of indexed hashes after it, and the rows of a block
  of the current chain that was not indexed before.
\<close>

definition index_blk_block :: "libs \<Rightarrow> Parser \<Rightarrow> BlockHash set \<Rightarrow> Block \<Rightarrow> BlockHash set \<times> Row list result" where
  "index_blk_block L P seen block =
     (let blockhash = lib_block_hash L (blk_header block) in
      case header_by_blockhash (ps_current_headers P) blockhash of
        Some header \<Rightarrow>
          if blockhash \<notin> seen
          then (insert blockhash seen,
                index_block L block (he_height header)
                  (CashAccountParser_new (Some (ps_cashaccount_activation_height P))))
          else (seen, Inr [])
      | None \<Rightarrow> (seen, Inr []))"

fun index_blocks :: "libs \<Rightarrow> Parser \<Rightarrow> BlockHash set \<Rightarrow> Block list \<Rightarrow> Row list \<Rightarrow> BlockHash set \<times> Row list result" where
  "index_blocks L P seen [] rows = (seen, Inr rows)"
| "index_blocks L P seen (b # bs) rows =
     (case index_blk_block L P seen b of
        (seen', Inl e) \<Rightarrow> (seen', Inl e)
      | (seen', Inr new) \<Rightarrow> index_blocks L P seen' bs (rows @ new))"

definition index_blkfile :: "libs \<Rightarrow> bulk_crate \<Rightarrow> Parser \<Rightarrow> BlockHash set \<Rightarrow> Bytes \<Rightarrow> BlockHash set \<times> Row list result" where
  "index_blkfile L C P seen blob =
     (case parse_blocks C (ps_magic P) blob of
        Inl e \<Rightarrow> (seen, Inl e)
      | Inr blocks \<Rightarrow>
          (case index_blocks L P seen blocks [] of
             (seen', Inl e) \<Rightarrow> (seen', Inl e)
           | (seen', Inr rows) \<Rightarrow> (seen', Inr (bc_sort_rows C rows))))"

text \<open>The last block of the longest indexed prefix of the chain.\<close>

definition indexed_prefix :: "Parser \<Rightarrow> BlockHash set \<Rightarrow> HeaderEntry list" where
  "indexed_prefix P seen = takeWhile (\<lambda>h. he_hash h \<in> seen) (hl_headers (ps_current_headers P))"

definition last_indexed_row :: "libs \<Rightarrow> Parser \<Rightarrow> BlockHash set \<Rightarrow> Row result" where
  "last_indexed_row L P seen =
     (case indexed_prefix P seen of
        [] \<Rightarrow> Inl (Panic ''no seen header found'')
      | hs \<Rightarrow> Inr (last_indexed_block L (he_hash (last hs))))"

definition load_headers :: "daemon_crates \<Rightarrow> 'w system \<Rightarrow> ('w Daemon, HeaderList) act" where
  "load_headers K Y =
     act_bind (getbestblockhash K Y) (\<lambda>best.
     act_map (get_new_headers K Y empty_headers best) (\<lambda>r. and_then r (\<lambda>hs.
       and_then (order (lib_block_hash (dc_libs K)) empty_headers hs) (\<lambda>new_headers.
       apply_headers empty_headers new_headers best))))"

definition parser_new :: "daemon_crates \<Rightarrow> 'w system \<Rightarrow> u32 \<Rightarrow> u32 \<Rightarrow> ('w Daemon, Parser) act" where
  "parser_new K Y magic cashaccount_activation_height =
     act_map (load_headers K Y) (\<lambda>r. and_then r (\<lambda>headers.
       Inr \<lparr>ps_magic = magic, ps_current_headers = headers,
            ps_cashaccount_activation_height = cashaccount_activation_height\<rparr>))"

section \<open>The pipeline\<close>

text \<open>
  A reader has the outcomes of reading the files it has left (\<^verbatim>\<open>read_blkfile\<close>) or has ended; an
  indexer waits for a file, has blocks left and rows collected, or has ended.  The main thread holds
  the receiving end of the reader's channel to the end, so a reader whose indexers are all gone waits.
\<close>

datatype reader = Reading "Bytes result list" | ReaderEnded "error option"

datatype indexer = Waiting | Indexing "Block list" "Row list" | IndexerEnded "error option"

record 's pipeline =
  pl_reader :: reader
  pl_indexers :: "indexer list"
  pl_indexed :: "BlockHash set"
  pl_store :: 's
  pl_stopped :: "error option"

definition set_indexer :: "nat \<Rightarrow> indexer \<Rightarrow> 's pipeline \<Rightarrow> 's pipeline" where
  "set_indexer i w p = p\<lparr>pl_indexers := (pl_indexers p)[i := w]\<rparr>"

text \<open>\<^verbatim>\<open>start_reader\<close> and \<^verbatim>\<open>start_indexer\<close> for each thread.\<close>

definition pipeline_start :: "Bytes result list \<Rightarrow> nat \<Rightarrow> BlockHash set \<Rightarrow> 's \<Rightarrow> 's pipeline" where
  "pipeline_start files index_threads seen s =
     \<lparr>pl_reader = Reading files, pl_indexers = replicate index_threads Waiting, pl_indexed = seen,
      pl_store = s, pl_stopped = None\<rparr>"

text \<open>An indexer receives a blob and parses it.\<close>

definition receive_blob :: "bulk_crate \<Rightarrow> Parser \<Rightarrow> Bytes \<Rightarrow> indexer" where
  "receive_blob C P blob =
     (case chain_err (Msg ''failed to index'') (parse_blocks C (ps_magic P) blob) of
        Inl e \<Rightarrow> IndexerEnded (Some e)
      | Inr blocks \<Rightarrow> Indexing blocks [])"

definition index_one :: "libs \<Rightarrow> Parser \<Rightarrow> BlockHash set \<Rightarrow> Block \<Rightarrow> Block list \<Rightarrow> Row list \<Rightarrow> BlockHash set \<times> indexer" where
  "index_one L P seen b bs rows =
     (case index_blk_block L P seen b of
        (seen', r) \<Rightarrow>
          (seen', case chain_err (Msg ''failed to index'') r of
             Inl e \<Rightarrow> IndexerEnded (Some e)
           | Inr new \<Rightarrow> Indexing bs (rows @ new)))"

inductive bulk_step :: "libs \<Rightarrow> bulk_crate \<Rightarrow> Parser \<Rightarrow> ('s \<Rightarrow> Row list \<Rightarrow> bool \<Rightarrow> 's) \<Rightarrow> 's pipeline \<Rightarrow>
    's pipeline \<Rightarrow> bool" for L C P put where
  hand_over: "pl_stopped p = None \<Longrightarrow> pl_reader p = Reading (Inr blob # files) \<Longrightarrow>
     i < length (pl_indexers p) \<Longrightarrow> pl_indexers p ! i = Waiting \<Longrightarrow>
     bulk_step L C P put p (set_indexer i (receive_blob C P blob) (p\<lparr>pl_reader := Reading files\<rparr>))"
| read_failed: "pl_stopped p = None \<Longrightarrow> pl_reader p = Reading (Inl e # files) \<Longrightarrow>
     bulk_step L C P put p (p\<lparr>pl_reader := ReaderEnded (Some e)\<rparr>)"
| read_all: "pl_stopped p = None \<Longrightarrow> pl_reader p = Reading [] \<Longrightarrow>
     bulk_step L C P put p (p\<lparr>pl_reader := ReaderEnded None\<rparr>)"
| no_more: "pl_stopped p = None \<Longrightarrow> pl_reader p = ReaderEnded e \<Longrightarrow> i < length (pl_indexers p) \<Longrightarrow>
     pl_indexers p ! i = Waiting \<Longrightarrow> bulk_step L C P put p (set_indexer i (IndexerEnded None) p)"
| index: "pl_stopped p = None \<Longrightarrow> i < length (pl_indexers p) \<Longrightarrow> pl_indexers p ! i = Indexing (b # bs) rows \<Longrightarrow>
     index_one L P (pl_indexed p) b bs rows = (seen', w) \<Longrightarrow>
     bulk_step L C P put p (set_indexer i w (p\<lparr>pl_indexed := seen'\<rparr>))"
| write_rows: "pl_stopped p = None \<Longrightarrow> i < length (pl_indexers p) \<Longrightarrow> pl_indexers p ! i = Indexing [] rows \<Longrightarrow>
     bulk_step L C P put p (set_indexer i Waiting (p\<lparr>pl_store := put (pl_store p) (bc_sort_rows C rows) False\<rparr>))"
| interrupted: "pl_stopped p = None \<Longrightarrow> i < length (pl_indexers p) \<Longrightarrow> pl_indexers p ! i = Indexing [] rows \<Longrightarrow>
     bulk_step L C P put p (p\<lparr>pl_store := put (pl_store p) (bc_sort_rows C rows) False,
       pl_stopped := Some (Error (Msg ''stopping bulk indexing due to signal'') [Interrupt sig])\<rparr>)"

text \<open>The end of \<^verbatim>\<open>index_blk_files\<close>, when the reader and all indexers have ended.\<close>

definition indexer_ended :: "indexer \<Rightarrow> bool" where
  "indexer_ended w = (case w of IndexerEnded _ \<Rightarrow> True | _ \<Rightarrow> False)"

definition bulk_ended :: "'s pipeline \<Rightarrow> bool" where
  "bulk_ended p \<longleftrightarrow> (case pl_reader p of ReaderEnded _ \<Rightarrow> True | _ \<Rightarrow> False) \<and>
     list_all indexer_ended (pl_indexers p)"

definition bulk_finish :: "libs \<Rightarrow> Parser \<Rightarrow> ('s \<Rightarrow> Row list \<Rightarrow> bool \<Rightarrow> 's) \<Rightarrow> 's pipeline \<Rightarrow> 's result" where
  "bulk_finish L P put p =
     (case pl_stopped p of
        Some e \<Rightarrow> Inl e
      | None \<Rightarrow>
          and_then (require ''reader failed'' (pl_reader p = ReaderEnded None)) (\<lambda>_.
          and_then (require ''indexing failed'' (list_all (\<lambda>w. w = IndexerEnded None) (pl_indexers p))) (\<lambda>_.
          and_then (last_indexed_row L P (pl_indexed p)) (\<lambda>row.
          Inr (put (pl_store p) [row] True)))))"

text \<open>The runs of \<^verbatim>\<open>index_blk_files\<close> with the given outcomes of reading the files.\<close>

definition index_blk_files :: "libs \<Rightarrow> bulk_crate \<Rightarrow> Parser \<Rightarrow> ('s \<Rightarrow> ReadStore) \<Rightarrow> ('s \<Rightarrow> Row list \<Rightarrow> bool \<Rightarrow> 's) \<Rightarrow>
    Bytes result list \<Rightarrow> nat \<Rightarrow> 's \<Rightarrow> 's result \<Rightarrow> bool" where
  "index_blk_files L C P rs put files index_threads s r \<longleftrightarrow>
     (case read_indexed_blockhashes L (rs s) of
        Inl e \<Rightarrow> r = Inl e
      | Inr hashes \<Rightarrow>
          (\<exists>p. (bulk_step L C P put)\<^sup>*\<^sup>* (pipeline_start files index_threads (set hashes) s) p \<and>
             (bulk_ended p \<or> pl_stopped p \<noteq> None) \<and> r = bulk_finish L P put p))"

section \<open>Files as the node writes them\<close>

text \<open>A \<^verbatim>\<open>u32\<close> is four bytes, and what is encoded is decoded.\<close>

locale blk_codec =
  fixes C :: bulk_crate
    and enc32 :: "u32 \<Rightarrow> Bytes"
    and dec32 :: "Bytes \<Rightarrow> u32"
  assumes de_u32: "bc_de_u32 C s = (if length s < 4 then None else Some (dec32 (take 4 s)))"
    and enc_length: "length (enc32 x) = 4"
    and dec_enc: "dec32 (enc32 x) = x"
begin

lemma de_enc: "bc_de_u32 C (enc32 x @ r) = Some x"
  by (simp add: de_u32 enc_length dec_enc)

lemma de_append: "4 \<le> length a \<Longrightarrow> bc_de_u32 C (a @ r) = bc_de_u32 C a"
  by (simp add: de_u32)

lemma drop_enc: "drop 4 (enc32 x @ r) = r" "drop 8 (enc32 x @ enc32 y @ r) = r"
  by (simp_all add: enc_length)

end

text \<open>An entry of a file: a block, or the magic and size of one whose body was never written.\<close>

datatype blk_entry = Full Block | Torn u32

fun entry_bytes :: "(u32 \<Rightarrow> Bytes) \<Rightarrow> (Block \<Rightarrow> Bytes) \<Rightarrow> u32 \<Rightarrow> blk_entry \<Rightarrow> Bytes" where
  "entry_bytes enc32 encb magic (Full b) = enc32 magic @ enc32 (of_nat (length (encb b))) @ encb b"
| "entry_bytes enc32 encb magic (Torn n) = enc32 magic @ enc32 n"

fun entry_blocks :: "blk_entry list \<Rightarrow> Block list" where
  "entry_blocks [] = []"
| "entry_blocks (Full b # es) = b # entry_blocks es"
| "entry_blocks (Torn n # es) = entry_blocks es"

text \<open>A block the parser can tell from a torn entry, with a size that fits its field.\<close>

definition blk_ok :: "bulk_crate \<Rightarrow> (Block \<Rightarrow> Bytes) \<Rightarrow> u32 \<Rightarrow> Block \<Rightarrow> bool" where
  "blk_ok C encb magic b \<longleftrightarrow> bc_de_block C (encb b) = Some b \<and> 4 \<le> length (encb b) \<and>
     length (encb b) < 2 ^ 32 \<and> bc_de_u32 C (encb b) \<noteq> Some magic"

context blk_codec
begin

lemma parse_padding:
  "(\<And>k. bc_de_u32 C (drop k pad) \<noteq> Some magic) \<Longrightarrow> parse_blocks_loop C magic pad acc = Inr acc"
proof (induction pad)
  case (Cons b pad)
  from Cons.prems [of "Suc _"] Cons.IH have "parse_blocks_loop C magic pad acc = Inr acc" by simp
  with Cons.prems [of 0] show ?case by (auto simp: parse_blocks_loop.simps split: option.splits)
qed (simp add: parse_blocks_loop.simps)

lemma enc_Cons: "\<exists>b bs. enc32 x @ r = b # bs"
  using enc_length [of x] by (cases "enc32 x") auto

lemma parse_full:
  assumes "blk_ok C encb magic b"
  shows "parse_blocks_loop C magic (entry_bytes enc32 encb magic (Full b) @ r) acc =
    parse_blocks_loop C magic r (acc @ [b])"
proof -
  let ?n = "of_nat (length (encb b)) :: u32"
  have n: "unat ?n = length (encb b)" using assms by (simp add: blk_ok_def unat_of_nat take_bit_nat_eq_self)
  obtain x xs where x: "enc32 magic @ enc32 ?n @ encb b @ r = x # xs" using enc_Cons by blast
  have d: "bc_de_u32 C (x # xs) = Some magic" "bc_de_u32 C (drop 4 (x # xs)) = Some ?n"
    "drop 8 (x # xs) = encb b @ r"
    unfolding x [symmetric] by (simp_all only: de_enc drop_enc)
  have "bc_de_u32 C (encb b @ r) = bc_de_u32 C (encb b)" "bc_de_u32 C (encb b) \<noteq> None"
    using assms by (simp_all add: blk_ok_def de_append de_u32)
  then show ?thesis
    unfolding entry_bytes.simps append_assoc x parse_blocks_loop.simps(2) d option.case Let_def
    using assms n by (auto simp: blk_ok_def)
qed

lemma parse_torn:
  assumes "bc_de_u32 C r = Some magic"
  shows "parse_blocks_loop C magic (entry_bytes enc32 encb magic (Torn n) @ r) acc = parse_blocks_loop C magic r acc"
proof -
  obtain x xs where x: "enc32 magic @ enc32 n @ r = x # xs" using enc_Cons by blast
  have d: "bc_de_u32 C (x # xs) = Some magic" "bc_de_u32 C (drop 4 (x # xs)) = Some n" "drop 8 (x # xs) = r"
    unfolding x [symmetric] by (simp_all only: de_enc drop_enc)
  then show ?thesis
    unfolding entry_bytes.simps append_assoc x parse_blocks_loop.simps(2) d option.case Let_def
    using assms by simp
qed

lemma parse_entries:
  assumes "\<forall>b\<in>set (entry_blocks es). blk_ok C encb magic b" "es \<noteq> [] \<Longrightarrow> \<nexists>n. last es = Torn n"
    and "\<And>k. bc_de_u32 C (drop k pad) \<noteq> Some magic"
  shows "parse_blocks_loop C magic (concat (map (entry_bytes enc32 encb magic) es) @ pad) acc =
    Inr (acc @ entry_blocks es)"
  using assms(1,2)
proof (induction es arbitrary: acc)
  case Nil
  then show ?case using parse_padding [OF assms(3)] by simp
next
  case (Cons e es)
  show ?case
  proof (cases e)
    case (Full b)
    with Cons show ?thesis
      using parse_full [of encb magic b "concat (map (entry_bytes enc32 encb magic) es) @ pad" acc]
      by (cases es) auto
  next
    case (Torn n)
    with Cons.prems(2) obtain e' es' where es: "es = e' # es'" by (cases es) auto
    have "bc_de_u32 C (concat (map (entry_bytes enc32 encb magic) es) @ pad) = Some magic"
      unfolding es by (cases e') (simp_all add: de_enc)
    from parse_torn [OF this] Cons Torn es show ?thesis by auto
  qed
qed

end

section \<open>The runs of the pipeline\<close>

inductive_cases bulk_stepE: "bulk_step L C P put p p'"

lemma set_indexer_simps [simp]:
  "pl_reader (set_indexer i w p) = pl_reader p" "pl_indexed (set_indexer i w p) = pl_indexed p"
  "pl_store (set_indexer i w p) = pl_store p" "pl_stopped (set_indexer i w p) = pl_stopped p"
  "pl_indexers (set_indexer i w p) = (pl_indexers p)[i := w]"
  by (simp_all add: set_indexer_def)

subsection \<open>Termination\<close>

text \<open>The files to come, the work of the indexers, and whether the run was stopped.\<close>

fun reader_left :: "reader \<Rightarrow> nat" where
  "reader_left (Reading files) = Suc (length files)"
| "reader_left (ReaderEnded e) = 0"

fun indexer_left :: "indexer \<Rightarrow> nat" where
  "indexer_left Waiting = 1"
| "indexer_left (Indexing bs rows) = 2 + length bs"
| "indexer_left (IndexerEnded e) = 0"

lemma sum_list_update_less:
  "i < length xs \<Longrightarrow> f y < f (xs ! i) \<Longrightarrow> sum_list (map f (xs[i := y])) < (sum_list (map f xs) :: nat)"
  by (induction xs arbitrary: i) (auto split: nat.splits)

lemma index_one_left: "index_one L P seen b bs rows = (seen', w) \<Longrightarrow> indexer_left w < indexer_left (Indexing (b # bs) rows)"
  by (auto simp: index_one_def split: prod.splits sum.splits)

lemma bulk_step_wf: "wfp (\<lambda>p' p. bulk_step L C P put p p')"
proof -
  let ?r = "measures [\<lambda>p. if pl_stopped p = None then 1 else 0, \<lambda>p. reader_left (pl_reader p),
    \<lambda>p. sum_list (map indexer_left (pl_indexers p))]"
  have "(p', p) \<in> ?r" if "bulk_step L C P put p p'" for p p'
    using that by cases (auto dest!: index_one_left intro!: sum_list_update_less)
  then have "{(p', p). bulk_step L C P put p p'} \<subseteq> ?r" by blast
  with wf_measures show ?thesis unfolding wfp_def by (rule wf_subset)
qed

subsection \<open>Progress\<close>

text \<open>The reader waits for an indexer and every indexer has failed.\<close>

definition bulk_deadlock :: "'s pipeline \<Rightarrow> bool" where
  "bulk_deadlock p \<longleftrightarrow> (\<exists>blob files. pl_reader p = Reading (Inr blob # files)) \<and>
     (\<forall>w\<in>set (pl_indexers p). \<exists>e. w = IndexerEnded (Some e))"

text \<open>An indexer that ends without an error has seen the end of the files.\<close>

definition ends_ok :: "'s pipeline \<Rightarrow> bool" where
  "ends_ok p \<longleftrightarrow> IndexerEnded None \<in> set (pl_indexers p) \<longrightarrow> (\<exists>e. pl_reader p = ReaderEnded e)"

lemma receive_blob_ended [simp]: "receive_blob C P blob \<noteq> IndexerEnded None" "IndexerEnded None \<noteq> receive_blob C P blob"
  by (simp_all add: receive_blob_def split: sum.splits)

lemma index_one_ended: "index_one L P seen b bs rows = (seen', w) \<Longrightarrow> w \<noteq> IndexerEnded None"
  by (auto simp: index_one_def split: prod.splits sum.splits)

lemma in_set_update: "x \<in> set (xs[i := y]) \<Longrightarrow> x = y \<or> x \<in> set xs"
  using set_update_subset_insert [of xs i y] by auto

lemma ends_ok_step: "bulk_step L C P put p p' \<Longrightarrow> ends_ok p \<Longrightarrow> ends_ok p'"
  by (erule bulk_stepE) (auto simp: ends_ok_def dest!: in_set_update index_one_ended)

lemma ends_ok_reachable:
  "(bulk_step L C P put)\<^sup>*\<^sup>* (pipeline_start files n seen s) p \<Longrightarrow> ends_ok p"
proof (induction rule: rtranclp_induct)
  case base
  show ?case by (simp add: pipeline_start_def ends_ok_def)
qed (rule ends_ok_step)

lemma active_indexer_steps:
  assumes "pl_stopped p = None" "w \<in> set (pl_indexers p)" "\<not> indexer_ended w" "w = Waiting \<Longrightarrow> pl_reader p \<noteq> Reading []"
  shows "\<exists>p'. bulk_step L C P put p p'"
proof -
  from assms(2) obtain i where i: "i < length (pl_indexers p)" "pl_indexers p ! i = w" by (auto simp: in_set_conv_nth)
  show ?thesis
  proof (cases w)
    case Waiting
    show ?thesis
    proof (cases "pl_reader p")
      case (Reading files)
      with Waiting assms(4) obtain f fs where "files = f # fs" by (cases files) auto
      with Reading Waiting assms(1) i show ?thesis
        by (cases f) (auto intro: bulk_step.read_failed bulk_step.hand_over)
    next
      case (ReaderEnded e)
      with Waiting assms(1) i show ?thesis by (auto intro: bulk_step.no_more)
    qed
  next
    case (Indexing bs rows)
    show ?thesis
    proof (cases bs)
      case Nil
      with Indexing assms(1) i show ?thesis by (auto intro: bulk_step.write_rows)
    next
      case (Cons b bs')
      obtain seen' w' where "index_one L P (pl_indexed p) b bs' rows = (seen', w')" by fastforce
      with Cons Indexing assms(1) i show ?thesis by (auto intro: bulk_step.index)
    qed
  qed (use assms(3) in \<open>simp add: indexer_ended_def\<close>)
qed

lemma reader_steps:
  assumes "pl_stopped p = None" "pl_reader p = Reading [] \<or> pl_reader p = Reading (Inl e # files)"
  shows "\<exists>p'. bulk_step L C P put p p'"
  using assms by (auto intro: bulk_step.read_all bulk_step.read_failed)

lemma ended_no_step:
  assumes "\<forall>w\<in>set (pl_indexers p). indexer_ended w" "pl_reader p \<noteq> Reading []" "\<nexists>e files. pl_reader p = Reading (Inl e # files)"
  shows "\<not> bulk_step L C P put p p'"
  using assms by (auto elim!: bulk_stepE simp: indexer_ended_def dest!: nth_mem)

lemma indexer_ended_iff: "indexer_ended w \<longleftrightarrow> (\<exists>e. w = IndexerEnded e)"
  by (cases w) (auto simp: indexer_ended_def)

lemma bulk_stuck:
  assumes "ends_ok p" "pl_stopped p = None"
  shows "(\<nexists>p'. bulk_step L C P put p p') \<longleftrightarrow> bulk_ended p \<or> bulk_deadlock p"
proof
  assume stuck: "\<nexists>p'. bulk_step L C P put p p'"
  with reader_steps [OF assms(2)] have r: "pl_reader p \<noteq> Reading []" "\<nexists>e files. pl_reader p = Reading (Inl e # files)"
    by blast+
  with stuck active_indexer_steps [OF assms(2)] have all: "\<forall>w\<in>set (pl_indexers p). indexer_ended w" by blast
  show "bulk_ended p \<or> bulk_deadlock p"
  proof (cases "pl_reader p")
    case (ReaderEnded e)
    with all show ?thesis by (simp add: bulk_ended_def list_all_iff)
  next
    case (Reading files)
    with r obtain blob fs where "files = Inr blob # fs" by (cases files; cases "hd files") auto
    moreover have "\<exists>e. w = IndexerEnded (Some e)" if "w \<in> set (pl_indexers p)" for w
      using that all assms(1) Reading by (auto simp: ends_ok_def indexer_ended_iff) (metis option.exhaust)
    ultimately show ?thesis using Reading by (simp add: bulk_deadlock_def)
  qed
next
  assume "bulk_ended p \<or> bulk_deadlock p"
  then have "\<forall>w\<in>set (pl_indexers p). indexer_ended w" "pl_reader p \<noteq> Reading []" "\<nexists>e files. pl_reader p = Reading (Inl e # files)"
    by (auto simp: bulk_ended_def bulk_deadlock_def list_all_iff indexer_ended_iff split: reader.splits)
  then show "\<nexists>p'. bulk_step L C P put p p'" using ended_no_step by blast
qed

subsection \<open>What has been indexed\<close>

definition indexer_rows :: "indexer \<Rightarrow> Row set" where
  "indexer_rows w = (case w of Indexing bs rows \<Rightarrow> set rows | _ \<Rightarrow> {})"

definition indexer_blocks :: "indexer \<Rightarrow> Block set" where
  "indexer_blocks w = (case w of Indexing bs rows \<Rightarrow> set bs | _ \<Rightarrow> {})"

lemma indexer_set_simps [simp]:
  "indexer_rows Waiting = {}" "indexer_rows (Indexing bs rows) = set rows" "indexer_rows (IndexerEnded e) = {}"
  "indexer_blocks Waiting = {}" "indexer_blocks (Indexing bs rows) = set bs" "indexer_blocks (IndexerEnded e) = {}"
  by (simp_all add: indexer_rows_def indexer_blocks_def)

text \<open>What the indexers hold together.\<close>

definition held :: "(indexer \<Rightarrow> 'a set) \<Rightarrow> 's pipeline \<Rightarrow> 'a set" where
  "held f p = (\<Union>w\<in>set (pl_indexers p). f w)"

lemma held_update_sub: "x \<in> held f (set_indexer i w p) \<Longrightarrow> x \<in> f w \<or> x \<in> held f p"
  by (auto simp: held_def dest!: in_set_update)

lemma held_update_sup:
  assumes "i < length (pl_indexers p)" "x \<in> held f p"
  shows "x \<in> held f (set_indexer i w p) \<or> x \<in> f (pl_indexers p ! i)"
proof -
  from assms(2) obtain j where j: "j < length (pl_indexers p)" "x \<in> f (pl_indexers p ! j)"
    by (auto simp: held_def in_set_conv_nth)
  show ?thesis
  proof (cases "j = i")
    case False
    with j have "(pl_indexers (set_indexer i w p)) ! j = pl_indexers p ! j" by simp
    with j have "pl_indexers p ! j \<in> set (pl_indexers (set_indexer i w p))"
      by (metis length_list_update nth_mem set_indexer_simps(5))
    with j show ?thesis unfolding held_def by blast
  qed (use j in simp)
qed

lemma held_update_new: "i < length (pl_indexers p) \<Longrightarrow> x \<in> f w \<Longrightarrow> x \<in> held f (set_indexer i w p)"
  by (auto simp: held_def intro!: bexI [of _ w] set_update_memI)

lemma held_reader [simp]:
  "held f (p\<lparr>pl_reader := r\<rparr>) = held f p" "held f (p\<lparr>pl_store := s\<rparr>) = held f p"
  "held f (p\<lparr>pl_indexed := seen\<rparr>) = held f p" "held f (p\<lparr>pl_store := s, pl_stopped := e\<rparr>) = held f p"
  by (simp_all add: held_def)

definition bulk_failed :: "'s pipeline \<Rightarrow> bool" where
  "bulk_failed p \<longleftrightarrow> pl_stopped p \<noteq> None \<or> (\<exists>e. IndexerEnded (Some e) \<in> set (pl_indexers p)) \<or>
     (\<exists>e. pl_reader p = ReaderEnded (Some e))"

text \<open>Rows for the index: no marker, and a block row is the row of a header of \<open>S\<close>; likewise in the store.\<close>

definition rows_in :: "libs \<Rightarrow> BlockHeader set \<Rightarrow> Row set \<Rightarrow> bool" where
  "rows_in L S R \<longleftrightarrow> (\<forall>r\<in>R. row_key r \<noteq> [0x4C] \<and> (\<forall>k. row_key r = 0x42 # k \<longrightarrow> (\<exists>h\<in>S. r = header_row L h)))"

definition store_rows :: "libs \<Rightarrow> BlockHeader set \<Rightarrow> (Bytes \<rightharpoonup> Bytes) \<Rightarrow> bool" where
  "store_rows L S c \<longleftrightarrow> (\<forall>k v. c (0x42 # k) = Some v \<longrightarrow> (\<exists>h\<in>S. k = lib_block_hash L h \<and> v = lib_ser_header L h))"

lemma parse_blocks_loop_decoded:
  "parse_blocks_loop C magic blob acc = Inr bs \<Longrightarrow> b \<in> set bs \<Longrightarrow> b \<in> set acc \<or> (\<exists>bytes. bc_de_block C bytes = Some b)"
proof (induction blob arbitrary: acc rule: measure_induct_rule [where f = length])
  case (less blob)
  show ?case
  proof (cases blob)
    case Nil
    with less.prems show ?thesis by (simp add: parse_blocks_loop.simps)
  next
    case (Cons x rest)
    have IH: "b \<in> set acc' \<or> (\<exists>bytes. bc_de_block C bytes = Some b)"
      if "parse_blocks_loop C magic (drop n rest) acc' = Inr bs" for n acc'
      using less.IH [of "drop n rest" acc'] that less.prems(2) Cons by simp
    from IH [of 0] have IH0: "parse_blocks_loop C magic rest acc = Inr bs \<Longrightarrow> ?thesis" by simp
    from less.prems(1) less.prems(2) show ?thesis
      unfolding Cons by (subst (asm) parse_blocks_loop.simps)
        (auto simp: Let_def split: option.splits if_splits dest: IH IH0, use IH in fastforce)
  qed
qed

lemma receive_blob_blocks:
  assumes "\<forall>bytes b. bc_de_block C bytes = Some b \<longrightarrow> blk_header b \<in> S"
  shows "\<forall>b\<in>indexer_blocks (receive_blob C P blob). blk_header b \<in> S" "indexer_rows (receive_blob C P blob) = {}"
proof -
  show "indexer_rows (receive_blob C P blob) = {}" by (simp add: receive_blob_def split: sum.splits)
  have "blk_header b \<in> S" if "parse_blocks C (ps_magic P) blob = Inr bs" "b \<in> set bs" for b bs
    using parse_blocks_loop_decoded [of C "ps_magic P" blob "[]" bs b] that assms by (auto simp: parse_blocks_def)
  then show "\<forall>b\<in>indexer_blocks (receive_blob C P blob). blk_header b \<in> S"
    by (auto simp: receive_blob_def split: sum.splits)
qed

lemma map_of_put_B:
  assumes "set rows = R" "rows_in L S R"
  shows "map_of (rev (map into_pair rows)) (0x42 # k) = Some v \<Longrightarrow> \<exists>h\<in>S. k = lib_block_hash L h \<and> v = lib_ser_header L h"
    and "map_of (rev (map into_pair rows)) [0x4C] = None"
    and "r \<in> R \<Longrightarrow> map_of (rev (map into_pair rows)) (row_key r) \<noteq> None"
proof -
  assume "map_of (rev (map into_pair rows)) (0x42 # k) = Some v"
  from map_of_SomeD [OF this] obtain r where "r \<in> R" "row_key r = 0x42 # k" "row_value r = v"
    using assms(1) by (auto simp: into_pair_def)
  moreover then obtain h where "h \<in> S" "r = header_row L h" using assms(2) unfolding rows_in_def by blast
  ultimately show "\<exists>h\<in>S. k = lib_block_hash L h \<and> v = lib_ser_header L h"
    by (intro bexI [of _ h]) (simp_all add: header_row_def)
next
  show "map_of (rev (map into_pair rows)) [0x4C] = None"
    using assms by (intro map_of_rows_None) (auto simp: rows_in_def)
next
  assume "r \<in> R"
  with assms(1) have "row_key r \<in> fst ` set (rev (map into_pair rows))" by (force simp: into_pair_def)
  then show "map_of (rev (map into_pair rows)) (row_key r) \<noteq> None" by (simp add: map_of_eq_None_iff)
qed

context codec_laws
begin

lemma index_block_header_rows:
  assumes "index_block L blk h ca = Inr rows" "blk_header blk \<in> S"
  shows "rows_in L S (set rows)" "header_row L (blk_header blk) \<in> set rows"
proof -
  from assms obtain rss where rss: "mapM (\<lambda>txn. index_transaction L txn h (Some ca)) (txdata blk) = Inr rss"
    "rows = concat rss @ [block_row L blk]"
    by (auto simp: index_block_def result_simps)
  have br: "block_row L blk = header_row L (blk_header blk)"
    by (simp add: header_row_def block_row_def ser_BlockKey_def ser_u8 ser_array)
  have "hd (row_key r) \<in> {0x49, 0x4F, 0x54, 0x43}" if "r \<in> set (concat rss)" for r
    using that mapM_set [OF rss(1)] index_transaction_keys by fastforce
  then have *: "row_key r \<noteq> 0x42 # k" "row_key r \<noteq> [0x4C]" if "r \<in> set (concat rss)" for r k
    using that by fastforce+
  show "rows_in L S (set rows)"
    using * assms(2) unfolding rows_in_def rss(2) br by (auto simp: header_row_def)
  show "header_row L (blk_header blk) \<in> set rows" by (simp add: rss(2) br)
qed

text \<open>Every outcome of indexing one block.\<close>

lemma index_one_cases:
  assumes "index_one L P seen b bs rows = (seen', w)" "blk_header b \<in> S"
  obtains e where "w = IndexerEnded (Some e)"
  | new where "w = Indexing bs (rows @ new)" "rows_in L S (set new)"
      "seen' = seen \<or> seen' = insert (lib_block_hash L (blk_header b)) seen \<and> header_row L (blk_header b) \<in> set new"
      "header_by_blockhash (ps_current_headers P) (lib_block_hash L (blk_header b)) \<noteq> None \<longrightarrow>
         lib_block_hash L (blk_header b) \<in> seen'"
proof (cases w)
  case (IndexerEnded e)
  with index_one_ended [OF assms(1)] that(1) show thesis by (cases e) auto
next
  case (Indexing bs' rows')
  from assms(1) obtain r new where r: "index_blk_block L P seen b = (seen', r)" "r = Inr new"
    "bs' = bs" "rows' = rows @ new"
    using Indexing by (auto simp: index_one_def split: prod.splits sum.splits)
  show thesis
    using r Indexing assms(2) that(2) [of new] index_block_header_rows [of b _ _ new]
    by (auto simp: index_blk_block_def Let_def rows_in_def split: option.splits if_splits)
next
  case Waiting
  with assms(1) show thesis by (auto simp: index_one_def split: prod.splits sum.splits)
qed

end

text \<open>A block of the chain in one of the files.\<close>

definition wanted :: "libs \<Rightarrow> bulk_crate \<Rightarrow> Parser \<Rightarrow> Bytes result list \<Rightarrow> Block \<Rightarrow> bool" where
  "wanted L C P files b \<longleftrightarrow>
     header_by_blockhash (ps_current_headers P) (lib_block_hash L (blk_header b)) \<noteq> None \<and>
     (\<exists>blob blocks. Inr blob \<in> set files \<and> parse_blocks C (ps_magic P) blob = Inr blocks \<and> b \<in> set blocks)"

fun reader_files :: "reader \<Rightarrow> Bytes result list" where
  "reader_files (Reading files) = files"
| "reader_files (ReaderEnded e) = []"

text \<open>
  The invariants of a run: what the indexers hold and the store has is sound; unless something failed,
  the row of every hash in the shared set is in the store or on its way there, and every wanted block
  is in the shared set, with an indexer, or in a file not yet read.
\<close>

definition rows_sound :: "libs \<Rightarrow> BlockHeader set \<Rightarrow> ('s \<Rightarrow> Bytes \<rightharpoonup> Bytes) \<Rightarrow> 's pipeline \<Rightarrow> bool" where
  "rows_sound L S contents p \<longleftrightarrow> rows_in L S (held indexer_rows p) \<and> store_rows L S (contents (pl_store p)) \<and>
     (\<forall>b\<in>held indexer_blocks p. blk_header b \<in> S)"

definition rows_kept :: "('s \<Rightarrow> Bytes \<rightharpoonup> Bytes) \<Rightarrow> 's pipeline \<Rightarrow> bool" where
  "rows_kept contents p \<longleftrightarrow> bulk_failed p \<or> (\<forall>bh\<in>pl_indexed p. contents (pl_store p) (0x42 # bh) \<noteq> None \<or>
     (\<exists>r\<in>held indexer_rows p. row_key r = 0x42 # bh))"

definition blocks_kept :: "libs \<Rightarrow> bulk_crate \<Rightarrow> Parser \<Rightarrow> Bytes result list \<Rightarrow> 's pipeline \<Rightarrow> bool" where
  "blocks_kept L C P files p \<longleftrightarrow> bulk_failed p \<or> (\<forall>b. wanted L C P files b \<longrightarrow>
     lib_block_hash L (blk_header b) \<in> pl_indexed p \<or> b \<in> held indexer_blocks p \<or>
     wanted L C P (reader_files (pl_reader p)) b)"

lemma failed_update:
  assumes "IndexerEnded (Some e) \<in> set ws" "i < length ws" "ws ! i \<noteq> IndexerEnded (Some e)"
  shows "IndexerEnded (Some e) \<in> set (ws[i := w])"
proof -
  from assms(1) obtain j where "j < length ws" "ws ! j = IndexerEnded (Some e)" by (auto simp: in_set_conv_nth)
  moreover with assms(3) have "j \<noteq> i" by auto
  ultimately have "ws[i := w] ! j = IndexerEnded (Some e)" "j < length (ws[i := w])" by simp_all
  then show ?thesis by (metis nth_mem)
qed

lemma failed_update_ex:
  assumes "\<exists>e. IndexerEnded (Some e) \<in> set ws" "i < length ws" "\<not> indexer_ended (ws ! i)"
  shows "\<exists>e. IndexerEnded (Some e) \<in> set (ws[i := w])"
proof -
  from assms(1) obtain e where e: "IndexerEnded (Some e) \<in> set ws" ..
  from assms(3) have "ws ! i \<noteq> IndexerEnded (Some e)" by (auto simp: indexer_ended_def)
  from failed_update [OF e assms(2) this] show ?thesis by blast
qed

lemma bulk_failed_step: "bulk_step L C P put p p' \<Longrightarrow> bulk_failed p \<Longrightarrow> bulk_failed p'"
  by (erule bulk_stepE) (auto simp: bulk_failed_def indexer_ended_def intro: failed_update_ex)

lemma rows_sound_state [simp]:
  "rows_sound L S contents (p\<lparr>pl_reader := r\<rparr>) = rows_sound L S contents p"
  "rows_sound L S contents (p\<lparr>pl_indexed := seen\<rparr>) = rows_sound L S contents p"
  by (simp_all add: rows_sound_def)

lemma bulk_failed_new: "i < length (pl_indexers p) \<Longrightarrow> bulk_failed (set_indexer i (IndexerEnded (Some e)) p)"
  by (auto simp: bulk_failed_def intro!: set_update_memI)

lemma rows_in_subset: "rows_in L S R \<Longrightarrow> R' \<subseteq> R \<Longrightarrow> rows_in L S R'"
  by (auto simp: rows_in_def)

lemma rows_in_Un: "rows_in L S (A \<union> B) \<longleftrightarrow> rows_in L S A \<and> rows_in L S B"
  by (auto simp: rows_in_def)

lemma held_nth: "i < length (pl_indexers p) \<Longrightarrow> f (pl_indexers p ! i) \<subseteq> held f p"
  by (auto simp: held_def dest: nth_mem)

text \<open>One indexer changes: what holds of its new rows and blocks and of the others' holds of all.\<close>

lemma rows_sound_update:
  assumes "rows_sound L S contents p" "rows_in L S (indexer_rows w)" "\<forall>b\<in>indexer_blocks w. blk_header b \<in> S"
  shows "rows_sound L S contents (set_indexer i w p)"
proof -
  have "held indexer_rows (set_indexer i w p) \<subseteq> indexer_rows w \<union> held indexer_rows p"
    "held indexer_blocks (set_indexer i w p) \<subseteq> indexer_blocks w \<union> held indexer_blocks p"
    by (auto dest!: held_update_sub)
  with assms show ?thesis
    by (auto simp: rows_sound_def rows_in_Un intro: rows_in_subset [of L S "indexer_rows w \<union> held indexer_rows p"])
qed

lemma store_rows_put:
  assumes "write_store rs invar contents put sync_all" "invar s" "set rows = R" "rows_in L S R" "store_rows L S (contents s)"
  shows "store_rows L S (contents (put s rows sync))"
  using assms(5) map_of_put_B(1) [OF assms(3,4)]
  by (auto simp: store_rows_def write_store.write_contents [OF assms(1,2)] map_add_def split: option.splits)

context codec_laws
begin

lemma rows_sound_step:
  assumes ws: "write_store rs invar contents put sync_all"
    and S: "\<forall>bytes b. bc_de_block C bytes = Some b \<longrightarrow> blk_header b \<in> S"
    and srt: "\<And>rows. set (bc_sort_rows C rows) = set rows"
    and step: "bulk_step L C P put p p'" and inv: "invar (pl_store p)" "rows_sound L S contents p"
  shows "invar (pl_store p') \<and> rows_sound L S contents p'"
  using step
proof cases
  case (hand_over blob files i)
  have "rows_sound L S contents (p\<lparr>pl_reader := Reading files\<rparr>)" using inv by simp
  from rows_sound_update [OF this, of "receive_blob C P blob"] receive_blob_blocks [OF S] inv hand_over show ?thesis
    by (simp add: rows_in_def)
next
  case (index i b bs rows seen' w)
  from index inv(2) have "rows_in L S (set rows)" "\<forall>b\<in>set (b # bs). blk_header b \<in> S"
    using held_nth [of i p indexer_rows] held_nth [of i p indexer_blocks]
    by (auto simp: rows_sound_def elim: rows_in_subset)
  moreover have "rows_sound L S contents (p\<lparr>pl_indexed := seen'\<rparr>)" using inv by simp
  ultimately show ?thesis
    using index(1,5) inv(1) by (elim index_one_cases [where S = S])
      (auto intro!: rows_sound_update simp: rows_in_def)
next
  case (write_rows i rows)
  with inv(2) have "rows_in L S (set rows)" using held_nth [of i p indexer_rows]
    by (auto simp: rows_sound_def elim: rows_in_subset)
  from store_rows_put [OF ws inv(1) srt this] inv(2)
  have "rows_sound L S contents (p\<lparr>pl_store := put (pl_store p) (bc_sort_rows C rows) False\<rparr>)"
    by (simp add: rows_sound_def)
  with write_rows inv(1) show ?thesis
    by (auto intro!: rows_sound_update simp: rows_in_def write_store.write_invar [OF ws])
next
  case (interrupted i rows sig)
  with inv(2) have "rows_in L S (set rows)" using held_nth [of i p indexer_rows]
    by (auto simp: rows_sound_def elim: rows_in_subset)
  from store_rows_put [OF ws inv(1) srt this] inv interrupted(1) show ?thesis
    by (simp add: rows_sound_def write_store.write_invar [OF ws])
qed (use inv in \<open>auto intro!: rows_sound_update simp: rows_in_def\<close>)

lemma rows_kept_step:
  assumes ws: "write_store rs invar contents put sync_all"
    and srt: "\<And>rows. set (bc_sort_rows C rows) = set rows"
    and step: "bulk_step L C P put p p'" and inv: "invar (pl_store p)" "rows_sound L S contents p" "rows_kept contents p"
  shows "rows_kept contents p'"
proof (cases "bulk_failed p'")
  case False
  with bulk_failed_step [OF step] inv(3) have kept: "contents (pl_store p) (0x42 # bh) \<noteq> None \<or>
      (\<exists>r\<in>held indexer_rows p. row_key r = 0x42 # bh)" if "bh \<in> pl_indexed p" for bh
    using that unfolding rows_kept_def by blast
  show ?thesis
    using step
  proof cases
    case (hand_over blob files i)
    with kept held_update_sup [of i "p\<lparr>pl_reader := Reading files\<rparr>" _ indexer_rows "receive_blob C P blob"]
    show ?thesis by (auto simp: rows_kept_def)
  next
    case (no_more e i)
    with kept held_update_sup [of i p _ indexer_rows "IndexerEnded None"] show ?thesis by (auto simp: rows_kept_def)
  next
    case (index i b bs rows seen' w)
    from index inv(2) have S: "blk_header b \<in> S"
      using held_nth [of i p indexer_blocks] by (auto simp: rows_sound_def)
    note sup = held_update_sup [of i "p\<lparr>pl_indexed := seen'\<rparr>" _ indexer_rows w]
      and new = held_update_new [of i "p\<lparr>pl_indexed := seen'\<rparr>" _ indexer_rows w]
    from index(5) S show ?thesis
    proof (cases rule: index_one_cases)
      case (1 e)
      with index(1,3) False bulk_failed_new [of i "p\<lparr>pl_indexed := seen'\<rparr>" e] show ?thesis by simp
    next
      case (2 new')
      have "row_key (header_row L (blk_header b)) = 0x42 # lib_block_hash L (blk_header b)" by (simp add: header_row_def)
      with 2 index kept sup new show ?thesis
        by (simp add: rows_kept_def) (metis Un_iff set_append indexer_set_simps(2) insert_iff)
    qed
  next
    case (write_rows i rows)
    then have "rows_in L S (set rows)" using held_nth [of i p indexer_rows] inv(2)
      by (auto simp: rows_sound_def elim: rows_in_subset)
    note put = map_of_put_B(3) [OF srt this] and wc = write_store.write_contents [OF ws inv(1)]
    have "contents (put (pl_store p) (bc_sort_rows C rows) False) (0x42 # bh) \<noteq> None \<or>
        (\<exists>r\<in>held indexer_rows p'. row_key r = 0x42 # bh)" if "bh \<in> pl_indexed p" for bh
      using kept [OF that]
    proof
      assume "\<exists>r\<in>held indexer_rows p. row_key r = 0x42 # bh"
      then obtain r where r: "r \<in> held indexer_rows p" "row_key r = 0x42 # bh" ..
      with held_update_sup [of i "p\<lparr>pl_store := put (pl_store p) (bc_sort_rows C rows) False\<rparr>" r indexer_rows Waiting]
        write_rows have "r \<in> held indexer_rows p' \<or> r \<in> set rows" by simp
      with r put [of r] show ?thesis by (auto simp: wc map_add_def split: option.splits)
    qed (auto simp: wc map_add_def split: option.splits)
    with write_rows show ?thesis by (simp add: rows_kept_def)
  qed (use kept False in \<open>auto simp: rows_kept_def bulk_failed_def\<close>)
qed (simp add: rows_kept_def)

lemma blocks_kept_step:
  assumes step: "bulk_step L C P put p p'" and inv: "rows_sound L S contents p" "blocks_kept L C P files p"
  shows "blocks_kept L C P files p'"
proof (cases "bulk_failed p'")
  case False
  with bulk_failed_step [OF step] inv(2) have kept: "lib_block_hash L (blk_header x) \<in> pl_indexed p \<or>
      x \<in> held indexer_blocks p \<or> wanted L C P (reader_files (pl_reader p)) x" if "wanted L C P files x" for x
    using that unfolding blocks_kept_def by blast
  show ?thesis
    using step
  proof cases
    case (hand_over blob fs i)
    let ?p = "p\<lparr>pl_reader := Reading fs\<rparr>"
    obtain blocks where blocks: "parse_blocks C (ps_magic P) blob = Inr blocks"
      using hand_over(1,4) False bulk_failed_new [of i ?p]
      by (cases "chain_err (Msg ''failed to index'') (parse_blocks C (ps_magic P) blob)")
         (auto simp: receive_blob_def)
    then have w: "indexer_blocks (receive_blob C P blob) = set blocks" by (simp add: receive_blob_def)
    have "x \<in> held indexer_blocks p' \<or> wanted L C P fs x" if "wanted L C P (Inr blob # fs) x" for x
      using that blocks w hand_over held_update_new [of i ?p x indexer_blocks "receive_blob C P blob"]
      by (auto simp: wanted_def)
    moreover have "x \<in> held indexer_blocks p'" if "x \<in> held indexer_blocks p" for x
      using that held_update_sup [of i ?p x indexer_blocks "receive_blob C P blob"] hand_over by auto
    ultimately show ?thesis using kept hand_over by (auto simp: blocks_kept_def)
  next
    case (no_more e i)
    with kept held_update_sup [of i p _ indexer_blocks "IndexerEnded None"] show ?thesis by (auto simp: blocks_kept_def)
  next
    case (index i b bs rows seen' w)
    from index inv(1) have S: "blk_header b \<in> S"
      using held_nth [of i p indexer_blocks] by (auto simp: rows_sound_def)
    note sup = held_update_sup [of i "p\<lparr>pl_indexed := seen'\<rparr>" _ indexer_blocks w]
      and new = held_update_new [of i "p\<lparr>pl_indexed := seen'\<rparr>" _ indexer_blocks w]
    from index(5) S show ?thesis
    proof (cases rule: index_one_cases)
      case (1 e)
      with index(1,3) False bulk_failed_new [of i "p\<lparr>pl_indexed := seen'\<rparr>" e] show ?thesis by simp
    next
      case (2 new')
      have "lib_block_hash L (blk_header x) \<in> seen' \<or> x \<in> held indexer_blocks p' \<or> wanted L C P (reader_files (pl_reader p)) x"
        if x: "wanted L C P files x" for x
        using kept [OF x] 2 index sup [of x] new [of x] x by (auto simp: wanted_def)
      with index show ?thesis by (simp add: blocks_kept_def)
    qed
  next
    case (write_rows i rows)
    with kept held_update_sup [of i "p\<lparr>pl_store := put (pl_store p) (bc_sort_rows C rows) False\<rparr>" _ indexer_blocks Waiting]
    show ?thesis by (auto simp: blocks_kept_def)
  qed (use kept False in \<open>auto simp: blocks_kept_def bulk_failed_def wanted_def\<close>)
qed (simp add: blocks_kept_def)

lemma read_indexed_blockhashes_mem:
  assumes st: "read_store rs invar contents" "invar s" and rows: "store_rows L S (contents s)"
    and hs: "read_indexed_blockhashes L (rs s) = Inr hs" "bh \<in> set hs"
  shows "contents s (0x42 # bh) \<noteq> None"
proof -
  from mapM_set [OF hs(1) [unfolded read_indexed_blockhashes_def row_codes]] hs(2)
  obtain r where r: "r \<in> set (rs_scan (rs s) [0x42])"
    "and_then (expect ''unwrap'' (de_BlockKey L (row_key r))) (\<lambda>key. expect ''unwrap'' (lib_de_hash L (bk_hash key))) = Inr bh"
    by auto
  then have c: "contents s (row_key r) = Some (row_value r)" "prefix [0x42] (row_key r)"
    by (simp_all add: read_store.scan_mem [OF st])
  then obtain k where k: "row_key r = 0x42 # k" by (auto simp: prefix_def)
  with c rows obtain h where h: "k = lib_block_hash L h" unfolding store_rows_def by metis
  with r(2) k have "bh = k"
    by (simp add: de_BlockKey_def de_u8 de_array_all block_hash_len de_hash)
  with c k show ?thesis by simp
qed

lemma bulk_reachable:
  assumes ws: "write_store rs invar contents put sync_all"
    and S: "\<forall>bytes b. bc_de_block C bytes = Some b \<longrightarrow> blk_header b \<in> S"
    and srt: "\<And>rows. set (bc_sort_rows C rows) = set rows"
    and s: "invar s" "store_rows L S (contents s)" "\<forall>bh\<in>seen. contents s (0x42 # bh) \<noteq> None"
    and run: "(bulk_step L C P put)\<^sup>*\<^sup>* (pipeline_start files n seen s) p"
  shows "invar (pl_store p) \<and> rows_sound L S contents p \<and> rows_kept contents p \<and> blocks_kept L C P files p"
  using run
proof (induction rule: rtranclp_induct)
  case base
  have "held indexer_rows (pipeline_start files n seen s) = {}" "held indexer_blocks (pipeline_start files n seen s) = {}"
    by (auto simp: held_def pipeline_start_def)
  then show ?case
    using s by (simp add: rows_sound_def rows_kept_def blocks_kept_def rows_in_def) (simp add: pipeline_start_def)
next
  case (step p p')
  then show ?case
    using rows_sound_step [OF ws S srt step(2)] rows_kept_step [OF ws srt step(2)] blocks_kept_step [OF step(2)] by blast
qed

lemma bulk_finish_persists:
  assumes ws: "write_store rs invar contents put sync_all"
    and cf: "collision_free (lib_block_hash L) S" and wfS: "\<forall>h\<in>S. wf_header h"
    and hl: "wf_headers (lib_block_hash L) (ps_current_headers P)"
      "he_header ` set (hl_headers (ps_current_headers P)) \<subseteq> S"
    and inv: "invar (pl_store p)" "rows_sound L S contents p" "rows_kept contents p"
    and fin: "bulk_finish L P put p = Inr s'"
  shows "persists L (contents s') (indexed_prefix P (pl_indexed p)) \<and> invar s' \<and> indexed_prefix P (pl_indexed p) \<noteq> []"
proof -
  let ?es = "indexed_prefix P (pl_indexed p)" and ?H = "lib_block_hash L"
  from fin have ended: "pl_stopped p = None" "pl_reader p = ReaderEnded None"
      "list_all (\<lambda>w. w = IndexerEnded None) (pl_indexers p)"
    and s': "?es \<noteq> []" "s' = put (pl_store p) [last_indexed_block L (he_hash (last ?es))] True"
    by (auto simp: bulk_finish_def last_indexed_row_def result_simps split: option.splits list.splits)
  have "\<not> bulk_failed p" "held indexer_rows p = {}"
    using ended by (auto simp: bulk_failed_def held_def list_all_iff)
  with inv(3) have kept: "contents (pl_store p) (0x42 # bh) \<noteq> None" if "bh \<in> pl_indexed p" for bh
    using that by (auto simp: rows_kept_def)
  have B: "contents s' (0x42 # k) = contents (pl_store p) (0x42 # k)" for k
    by (simp add: s' write_store.write_contents [OF ws inv(1)] map_add_def last_indexed_block_def into_pair_def row_codes)
  have e: "e \<in> set (hl_headers (ps_current_headers P)) \<and> he_hash e \<in> pl_indexed p" if "e \<in> set ?es" for e
    using that set_takeWhileD unfolding indexed_prefix_def by fastforce
  have hash: "he_hash e = ?H (he_header e)" "he_header e \<in> S" if "e \<in> set ?es" for e
    using e [OF that] chained_nth(2) [OF wf_headers_chained [OF hl(1)]] hl(2) by (auto simp: in_set_conv_nth image_subset_iff)
  have "contents s' (0x42 # he_hash e) = Some (lib_ser_header L (he_header e))" if "e \<in> set ?es" for e
  proof -
    from kept e [OF that] obtain v where v: "contents (pl_store p) (0x42 # he_hash e) = Some v" by blast
    with inv(2) obtain h where "h \<in> S" "he_hash e = ?H h" "v = lib_ser_header L h"
      unfolding rows_sound_def store_rows_def by blast
    with hash [OF that] cf have "h = he_header e" by (auto simp: collision_free_def inj_on_def)
    with v \<open>v = _\<close> show ?thesis by (simp add: B)
  qed
  moreover have "\<exists>h. wf_header h \<and> k = ?H h \<and> v = lib_ser_header L h" if "contents s' (0x42 # k) = Some v" for k v
    using that inv(2) wfS unfolding rows_sound_def store_rows_def B by blast
  moreover have "contents s' [0x4C] = Some (he_hash (last ?es))"
    using s' hash(1) [of "last ?es"] block_hash_len
    by (simp add: write_store.write_contents [OF ws inv(1)] map_add_def last_indexed_block_def into_pair_def ser_hash row_codes)
  ultimately show ?thesis
    using s' write_store.write_invar [OF ws inv(1)] by (simp add: persists_def marker_def block_rows_def)
qed

lemma bulk_import_chain:
  assumes ws: "write_store rs invar contents put sync_all" and s: "invar s" "store_rows L S (contents s)"
    and cf: "collision_free (lib_block_hash L) S" and wfS: "\<forall>h\<in>S. wf_header h"
    and hl: "wf_headers (lib_block_hash L) (ps_current_headers P)"
      "he_header ` set (hl_headers (ps_current_headers P)) \<subseteq> S"
    and S: "\<forall>bytes b. bc_de_block C bytes = Some b \<longrightarrow> blk_header b \<in> S"
    and srt: "\<And>rows. set (bc_sort_rows C rows) = set rows"
    and run: "index_blk_files L C P rs put files n s (Inr s')"
  shows "\<exists>hl. read_indexed_headers L (rs s') = Inr hl \<and> wf_headers (lib_block_hash L) hl \<and> hl_headers hl \<noteq> [] \<and>
    prefix (hl_headers hl) (hl_headers (ps_current_headers P)) \<and>
    ((\<forall>e\<in>set (hl_headers (ps_current_headers P)). \<exists>b. wanted L C P files b \<and> lib_block_hash L (blk_header b) = he_hash e) \<longrightarrow>
       hl_headers hl = hl_headers (ps_current_headers P))"
proof -
  let ?H = "lib_block_hash L" and ?ch = "hl_headers (ps_current_headers P)"
  note st = write_store.axioms(1) [OF ws]
  from run obtain hs p where hs: "read_indexed_blockhashes L (rs s) = Inr hs"
    and reach: "(bulk_step L C P put)\<^sup>*\<^sup>* (pipeline_start files n (set hs) s) p" and fin: "bulk_finish L P put p = Inr s'"
    by (auto simp: index_blk_files_def split: sum.splits)
  have "\<forall>bh\<in>set hs. contents s (0x42 # bh) \<noteq> None" using read_indexed_blockhashes_mem [OF st s hs] by blast
  note inv = bulk_reachable [OF ws S srt s this reach]
  let ?es = "indexed_prefix P (pl_indexed p)"
  have pers: "persists L (contents s') ?es" "invar s'" "?es \<noteq> []"
    using bulk_finish_persists [OF ws cf wfS hl _ _ _ fin] inv by blast+
  have pre: "prefix ?es ?ch" by (simp add: indexed_prefix_def takeWhile_is_prefix)
  then have ch: "chained ?H 0 null_hash ?es"
    using wf_headers_chained [OF hl(1)] by (metis chained_append prefix_def)
  have sub: "he_header ` set ?es \<subseteq> S" using set_mono_prefix [OF pre] hl(2) by blast
  with cf wfS have "collision_free ?H (he_header ` set ?es)" "\<forall>e\<in>set ?es. wf_header (he_header e)"
    using universe_subset [of ?H S ?es ?es] by blast+
  from read_persisted [OF st pers(2,1) ch this] obtain hl' where
    hl': "read_indexed_headers L (rs s') = Inr hl'" "wf_headers ?H hl'" "hl_headers hl' = ?es" by blast
  have "?es = ?ch" if all: "\<forall>e\<in>set ?ch. \<exists>b. wanted L C P files b \<and> ?H (blk_header b) = he_hash e"
  proof -
    from fin have "\<not> bulk_failed p" "held indexer_blocks p = {}" "reader_files (pl_reader p) = []"
      by (auto simp: bulk_finish_def result_simps bulk_failed_def held_def list_all_iff split: option.splits)
    with inv have "?H (blk_header b) \<in> pl_indexed p" if "wanted L C P files b" for b
      using that by (auto simp: blocks_kept_def wanted_def)
    with all have "\<forall>e\<in>set ?ch. he_hash e \<in> pl_indexed p" by metis
    then show ?thesis by (simp add: indexed_prefix_def takeWhile_eq_all_conv)
  qed
  with hl' pers(3) pre show ?thesis by auto
qed

end

text \<open>An indexer that is not disturbed does what \<^verbatim>\<open>index_blkfile\<close> does.\<close>

lemma index_alone:
  assumes "pl_stopped p = None" "i < length (pl_indexers p)" "pl_indexers p ! i = Indexing bs rows"
    and "index_blocks L P (pl_indexed p) bs rows = (seen', Inr rows')"
  shows "(bulk_step L C P put)\<^sup>*\<^sup>* p (set_indexer i (Indexing [] rows') (p\<lparr>pl_indexed := seen'\<rparr>))"
  using assms
proof (induction bs arbitrary: p rows)
  case Nil
  then have "(pl_indexers p)[i := Indexing [] rows'] = pl_indexers p" "seen' = pl_indexed p"
    using list_update_id [of "pl_indexers p" i] by auto
  then have "set_indexer i (Indexing [] rows') (p\<lparr>pl_indexed := seen'\<rparr>) = p"
    by (simp add: set_indexer_def)
  then show ?case by simp
next
  case (Cons b bs)
  then obtain seen1 new where one: "index_blk_block L P (pl_indexed p) b = (seen1, Inr new)"
    and rest: "index_blocks L P seen1 bs (rows @ new) = (seen', Inr rows')"
    by (auto split: prod.splits sum.splits)
  let ?p = "set_indexer i (Indexing bs (rows @ new)) (p\<lparr>pl_indexed := seen1\<rparr>)"
  have "bulk_step L C P put p ?p"
    using Cons.prems(1-3) one by (intro bulk_step.index [where b = b and bs = bs]) (auto simp: index_one_def)
  moreover have "(bulk_step L C P put)\<^sup>*\<^sup>* ?p (set_indexer i (Indexing [] rows') (?p\<lparr>pl_indexed := seen'\<rparr>))"
    using Cons.prems rest by (intro Cons.IH) simp_all
  moreover have "set_indexer i (Indexing [] rows') (?p\<lparr>pl_indexed := seen'\<rparr>) =
      set_indexer i (Indexing [] rows') (p\<lparr>pl_indexed := seen'\<rparr>)"
    by (simp add: set_indexer_def)
  ultimately show ?case by (metis converse_rtranclp_into_rtranclp)
qed

text \<open>
  With one indexer, a file that cannot be parsed and a further file, the import waits for ever instead
  of reporting the error.
\<close>

lemma bulk_import_hangs:
  assumes "parse_blocks C (ps_magic P) blob = Inl e"
  shows "\<exists>p. (bulk_step L C P put)\<^sup>*\<^sup>* (pipeline_start (Inr blob # Inr blob' # files) 1 seen s) p \<and>
    bulk_deadlock p \<and> \<not> bulk_ended p \<and> (\<nexists>p'. bulk_step L C P put p p')"
proof -
  let ?start = "pipeline_start (Inr blob # Inr blob' # files) 1 seen s"
  let ?p = "set_indexer 0 (receive_blob C P blob) (?start\<lparr>pl_reader := Reading (Inr blob' # files)\<rparr>)"
  have step: "bulk_step L C P put ?start ?p"
    using bulk_step.hand_over [of ?start blob "Inr blob' # files" 0 L C P put] by (simp add: pipeline_start_def)
  have dead: "bulk_deadlock ?p" "\<not> bulk_ended ?p"
    using assms by (cases e) (simp_all add: bulk_deadlock_def bulk_ended_def pipeline_start_def receive_blob_def)
  have "pl_stopped ?p = None" by (simp add: pipeline_start_def)
  moreover have run: "(bulk_step L C P put)\<^sup>*\<^sup>* ?start ?p" using step by (rule r_into_rtranclp)
  ultimately show ?thesis using bulk_stuck [OF ends_ok_reachable [OF run], of L C P put] dead run by blast
qed

text \<open>The headers that the import starts from are a well-formed chain to the node's best block.\<close>

lemma load_headers_sound:
  assumes "load_headers K Y d = Some (d', Inr hl)"
    and "\<And>d1 d2 best hs. get_new_headers K Y empty_headers best d1 = Some (d2, Inr hs) \<Longrightarrow>
      collision_free (lib_block_hash (dc_libs K)) (set hs)"
  shows "wf_headers (lib_block_hash (dc_libs K)) hl \<and>
    (\<exists>d1 best. getbestblockhash K Y d = Some (d1, Inr best) \<and> tiphash hl = best)"
proof -
  let ?H = "lib_block_hash (dc_libs K)"
  from assms(1) obtain d1 best hs es where best: "getbestblockhash K Y d = Some (d1, Inr best)"
    and hs: "get_new_headers K Y empty_headers best d1 = Some (d', Inr hs)"
    and es: "order ?H empty_headers hs = Inr es" "apply_headers empty_headers es best = Inr hl"
    unfolding load_headers_def act_simps and_then_eq_Inr by blast
  have wf: "wf_headers ?H empty_headers" by (simp add: wf_headers_def empty_headers_def)
  have "collision_free ?H (he_header ` (set (hl_headers empty_headers) \<union> set es))"
    using assms(2) [OF hs] order_headers [OF es(1)]
    by (cases "es = []") (auto simp: empty_headers_def collision_free_def)
  from apply_headers_wf [OF wf es(2) order_hashes [OF es(1)] this] have "wf_headers ?H hl" .
  moreover have "tiphash hl = best"
  proof (cases "best = null_hash")
    case True
    with es(2) show ?thesis by (auto simp: apply_headers_def result_simps tiphash_def empty_headers_def)
  qed (use apply_headers_chain [OF es(2)] in blast)
  ultimately show ?thesis using best by blast
qed

section \<open>A file and a run\<close>

definition demo_blk :: bulk_crate where
  "demo_blk =
     \<lparr>bc_de_u32 = (\<lambda>s. if length s < 4 then None else Some (of_nat (le_value (take 4 s)))),
      bc_de_block = (\<lambda>_. Some demo_genesis), bc_sort_rows = sort_key row_key\<rparr>"

interpretation refblk: blk_codec demo_blk "\<lambda>x. le_bytes 4 (unat x)" "\<lambda>s. of_nat (le_value s)"
  by unfold_locales (simp_all add: demo_blk_def word32_le_bytes)

definition demo_entries :: "blk_entry list" where
  "demo_entries = [Torn 9, Full demo_genesis]"

definition demo_blob :: Bytes where
  "demo_blob = concat (map (entry_bytes (\<lambda>x. le_bytes 4 (unat x)) (\<lambda>_. [1, 0, 0, 0, 0]) 7) demo_entries) @ replicate 5 0"

lemma le_value_zeros: "le_value (replicate n 0) = 0"
  by (induction n) auto

lemma demo_padding: "bc_de_u32 demo_blk (drop k (replicate 5 0)) \<noteq> Some 7"
  by (simp add: demo_blk_def le_value_zeros)

lemma demo_blk_ok: "blk_ok demo_blk (\<lambda>_. [1, 0, 0, 0, 0]) 7 demo_genesis"
  by (simp add: blk_ok_def demo_blk_def)

definition demo_entry :: HeaderEntry where
  "demo_entry = \<lparr>he_height = 0, he_hash = lib_block_hash std_libs (blk_header demo_genesis), he_header = blk_header demo_genesis\<rparr>"

definition demo_parser :: Parser where
  "demo_parser = \<lparr>ps_magic = 7,
     ps_current_headers = \<lparr>hl_headers = [demo_entry], hl_heights = [he_hash demo_entry \<mapsto> 0]\<rparr>,
     ps_cashaccount_activation_height = 0\<rparr>"

section \<open>Properties\<close>



text \<open>C20: However the threads of a bulk import interleave, the import ends: no run of the pipeline is
  infinite, and a run that was not interrupted can go no further exactly when the reader and all
  indexers have ended, or when every indexer has failed while the reader still has a file to hand
  over; in that case \<^verbatim>\<open>index_blk_files\<close> waits for ever.\<close>

theorem bulk_runs_end:
  assumes "(bulk_step L C P put)\<^sup>*\<^sup>* (pipeline_start files n seen s) p" "pl_stopped p = None"
  shows "wfp (\<lambda>p' p. bulk_step L C P put p p') \<and>
    ((\<nexists>p'. bulk_step L C P put p p') \<longleftrightarrow> bulk_ended p \<or> bulk_deadlock p)"
  using bulk_step_wf bulk_stuck [OF ends_ok_reachable [OF assms(1)] assms(2)] by blast

theorem bulk_runs_end_witness:
  "\<exists>p'. bulk_step std_libs demo_blk demo_parser (dbstore_write btree_db) (pipeline_start [Inr demo_blob] 2 {} demo_store) p'"
proof -
  have "\<not> bulk_ended (pipeline_start [Inr demo_blob] 2 {} demo_store)"
    "\<not> bulk_deadlock (pipeline_start [Inr demo_blob] 2 {} demo_store)"
    by (simp_all add: pipeline_start_def bulk_ended_def bulk_deadlock_def numeral_2_eq_2)
  moreover have stop: "pl_stopped (pipeline_start [Inr demo_blob] 2 {} demo_store) = None" by (simp add: pipeline_start_def)
  ultimately show ?thesis
    using bulk_runs_end [OF rtranclp.rtrancl_refl stop, of std_libs demo_blk demo_parser "dbstore_write btree_db"] by blast
qed


lemma demo_parsed: "parse_blocks demo_blk 7 demo_blob = Inr [demo_genesis]"
  unfolding demo_blob_def parse_blocks_def
  by (subst refblk.parse_entries [OF _ _ demo_padding]) (simp_all add: demo_entries_def demo_blk_ok)

lemma demo_header_known: "header_by_blockhash (ps_current_headers demo_parser) (lib_block_hash std_libs (blk_header demo_genesis)) = Some demo_entry"
  by (simp add: demo_parser_def header_by_blockhash_def headers_get_def demo_entry_def)

lemma demo_magic: "ps_magic demo_parser = 7"
  by (simp add: demo_parser_def)

lemma demo_bulk_run:
  "\<exists>s'. index_blk_files std_libs demo_blk demo_parser (dbstore_read btree_db) (dbstore_write btree_db) [Inr demo_blob] 1 demo_store (Inr s')"
proof -
  let ?step = "bulk_step std_libs demo_blk demo_parser (dbstore_write btree_db)"
    and ?h = "lib_block_hash std_libs (blk_header demo_genesis)"
  define pl :: "reader \<Rightarrow> indexer \<Rightarrow> BlockHash set \<Rightarrow> (Bytes \<times> Bytes) list DbStore \<Rightarrow> _" where
    "pl = (\<lambda>r w seen s. \<lparr>pl_reader = r, pl_indexers = [w], pl_indexed = seen, pl_store = s, pl_stopped = None\<rparr>)"
  obtain rows where rows: "index_block std_libs demo_genesis 0 (CashAccountParser_new (Some 0)) = Inr rows"
    using demo_block_rows by blast
  define s1 where "s1 = dbstore_write btree_db demo_store (bc_sort_rows demo_blk rows) False"
  have 0: "pipeline_start [Inr demo_blob] 1 {} demo_store = pl (Reading [Inr demo_blob]) Waiting {} demo_store"
    by (simp add: pl_def pipeline_start_def)
  have "?step (pl (Reading [Inr demo_blob]) Waiting {} demo_store) (pl (Reading []) (Indexing [demo_genesis] []) {} demo_store)"
    using bulk_step.hand_over [of "pl (Reading [Inr demo_blob]) Waiting {} demo_store" demo_blob "[]" 0
      std_libs demo_blk demo_parser "dbstore_write btree_db"]
    by (simp add: pl_def set_indexer_def receive_blob_def demo_parsed demo_magic)
  moreover have "?step (pl (Reading []) (Indexing [demo_genesis] []) {} demo_store) (pl (Reading []) (Indexing [] rows) {?h} demo_store)"
    using bulk_step.index [of "pl (Reading []) (Indexing [demo_genesis] []) {} demo_store" 0 demo_genesis "[]" "[]" std_libs demo_parser "{?h}" "Indexing [] rows"
        demo_blk "dbstore_write btree_db"] rows demo_header_known
    by (simp add: pl_def set_indexer_def index_one_def index_blk_block_def demo_entry_def Let_def) (simp add: demo_parser_def)
  moreover have "?step (pl (Reading []) (Indexing [] rows) {?h} demo_store) (pl (Reading []) Waiting {?h} s1)"
    using bulk_step.write_rows [of "pl (Reading []) (Indexing [] rows) {?h} demo_store" 0 rows std_libs demo_blk demo_parser
      "dbstore_write btree_db"]
    by (simp add: pl_def set_indexer_def s1_def)
  moreover have "?step (pl (Reading []) Waiting {?h} s1) (pl (ReaderEnded None) Waiting {?h} s1)"
    using bulk_step.read_all [of "pl (Reading []) Waiting {?h} s1" std_libs demo_blk demo_parser "dbstore_write btree_db"]
    by (simp add: pl_def)
  moreover have "?step (pl (ReaderEnded None) Waiting {?h} s1) (pl (ReaderEnded None) (IndexerEnded None) {?h} s1)"
    using bulk_step.no_more [of "pl (ReaderEnded None) Waiting {?h} s1" None 0 std_libs demo_blk demo_parser "dbstore_write btree_db"]
    by (simp add: pl_def set_indexer_def)
  ultimately have run: "?step\<^sup>*\<^sup>* (pl (Reading [Inr demo_blob]) Waiting {} demo_store) (pl (ReaderEnded None) (IndexerEnded None) {?h} s1)"
    by (meson r_into_rtranclp rtranclp.rtrancl_into_rtrancl)
  have ended: "bulk_ended (pl (ReaderEnded None) (IndexerEnded None) {?h} s1)"
    by (simp add: pl_def bulk_ended_def indexer_ended_def)
  have "\<exists>s'. bulk_finish std_libs demo_parser (dbstore_write btree_db) (pl (ReaderEnded None) (IndexerEnded None) {?h} s1) = Inr s'"
    by (simp add: pl_def bulk_finish_def last_indexed_row_def indexed_prefix_def demo_parser_def demo_entry_def)
  then obtain s' where fin: "Inr s' = bulk_finish std_libs demo_parser (dbstore_write btree_db)
      (pl (ReaderEnded None) (IndexerEnded None) {?h} s1)" by metis
  have hs: "read_indexed_blockhashes std_libs (dbstore_read btree_db demo_store) = Inr []"
    by (simp add: read_indexed_blockhashes_def dbstore_read_def dbstore_scan_def demo_store_def btree_db_def bt_range_from_def)
  have "index_blk_files std_libs demo_blk demo_parser (dbstore_read btree_db) (dbstore_write btree_db) [Inr demo_blob] 1 demo_store (Inr s')"
    unfolding index_blk_files_def hs sum.case list.set 0 using run ended fin by blast
  then show ?thesis ..
qed


end
