(* ===== verification/App.thy ===== *)
theory App
  imports Bulk Rpc
begin

text \<open>
  The application (\<^verbatim>\<open>src/src/app.rs\<close>) and the main program around it
  (\<^verbatim>\<open>src/src/bin/electrscash.rs\<close>): opening the database, the initial import, and the body of the
  main loop, which follows the node's chain and mempool and announces what changed.
\<close>

section \<open>The application\<close>

record 's App =
  ap_store :: 's
  ap_index :: Index
  ap_banner :: string
  ap_tip :: BlockHash

definition app_new :: "daemon_api \<Rightarrow> 's \<Rightarrow> Index \<Rightarrow> string \<Rightarrow> 's App result" where
  "app_new D store ix banner =
     and_then (dm_reconnect D) (\<lambda>_.
     Inr \<lparr>ap_store = store, ap_index = ix, ap_banner = banner, ap_tip = null_hash\<rparr>)"

text \<open>The store and the index it leaves, also when it fails.\<close>

definition app_update :: "libs \<Rightarrow> ('s \<Rightarrow> Row list \<Rightarrow> bool \<Rightarrow> 's) \<Rightarrow> ('s \<Rightarrow> 's) \<Rightarrow> daemon_api \<Rightarrow> (nat \<Rightarrow> unit result) \<Rightarrow>
    's App \<Rightarrow> 's App \<times> (HeaderEntry list \<times> HeaderEntry option) result" where
  "app_update L put sync_all D poll app =
     (case dm_getbestblockhash D of
        Inl e \<Rightarrow> (app, Inl e)
      | Inr best \<Rightarrow>
          if ap_tip app \<noteq> best then
            (case index_update L put sync_all D poll (ap_index app) (ap_store app) of
               (s, ix, Inl e) \<Rightarrow> (app\<lparr>ap_store := s, ap_index := ix\<rparr>, Inl e)
             | (s, ix, Inr (new_headers, new_tip)) \<Rightarrow>
                 (app\<lparr>ap_store := s, ap_index := ix, ap_tip := he_hash new_tip\<rparr>, Inr (new_headers, Some new_tip)))
          else (app, Inr ([], None)))"

section \<open>Starting the server\<close>

text \<open>A database of another version is removed; \<open>path\<close> is the database found at the path, if any.\<close>

definition open_database :: "'db rocksdb \<Rightarrow> 'db option \<Rightarrow> bool \<Rightarrow> 'db DbStore" where
  "open_database R path low_memory =
     (let store = dbstore_open R path low_memory;
          compatible = is_compatible_version (dbstore_read R store);
          path' = (if compatible then Some (ds_db store) else None)
      in dbstore_open R path' low_memory)"

text \<open>
  The initial import: nothing when the database was compacted before, else the blocks come from the
  node's calls or from its files; \<open>bulk\<close> is the outcome of \<^verbatim>\<open>index_blk_files\<close>.
\<close>

definition initial_import :: "libs \<Rightarrow> 'db rocksdb \<Rightarrow> daemon_api \<Rightarrow> (nat \<Rightarrow> unit result) \<Rightarrow> ('db DbStore \<Rightarrow> 'db DbStore result) \<Rightarrow>
    bool \<Rightarrow> 'db DbStore \<Rightarrow> Index \<Rightarrow> ('db DbStore \<times> Index) result" where
  "initial_import L R D poll bulk jsonrpc_import store ix =
     and_then
       (if is_fully_compacted (dbstore_read R store) then Inr (store, ix)
        else if jsonrpc_import then
          and_then (index_reload L (dbstore_read R store) ix) (\<lambda>ix1.
          case index_update L (dbstore_write R) (dbstore_flush R) D poll ix1 store of
            (s, ix2, Inl e) \<Rightarrow> Inl e
          | (s, ix2, Inr _) \<Rightarrow> Inr (full_compaction R s, ix2))
        else
          and_then (bulk store) (\<lambda>s.
          let s1 = full_compaction R s in
          and_then (index_reload L (dbstore_read R s1) ix) (\<lambda>ix1. Inr (s1, ix1))))
       (\<lambda>(s, ix'). Inr (dbstore_enable_compaction s, ix'))"

definition start_server :: "libs \<Rightarrow> 'db rocksdb \<Rightarrow> daemon_api \<Rightarrow> (nat \<Rightarrow> unit result) \<Rightarrow> ('db DbStore \<Rightarrow> 'db DbStore result) \<Rightarrow>
    bool \<Rightarrow> nat \<Rightarrow> u32 \<Rightarrow> string \<Rightarrow> 'db DbStore \<Rightarrow> 'db DbStore App result" where
  "start_server L R D poll bulk jsonrpc_import batch_size cashaccount_activation_height banner store =
     and_then (index_load L (dbstore_read R store) D batch_size cashaccount_activation_height) (\<lambda>ix.
     and_then (initial_import L R D poll bulk jsonrpc_import store ix) (\<lambda>(s, ix').
     app_new D s ix' banner))"

section \<open>The main loop\<close>

text \<open>
  One pass: the chain, then the mempool, then the announcements (script hashes first), none before
  the first pass has started the RPC server.  The query reads the application's store and index.
\<close>

definition main_loop_pass :: "crates \<Rightarrow> 'f f32_ops \<Rightarrow> ('f MempoolEntry list \<Rightarrow> 'f MempoolEntry list) \<Rightarrow>
    (FullHash list \<Rightarrow> FullHash list) \<Rightarrow> ('s \<Rightarrow> ReadStore) \<Rightarrow> ('s \<Rightarrow> Row list \<Rightarrow> bool \<Rightarrow> 's) \<Rightarrow> ('s \<Rightarrow> 's) \<Rightarrow> daemon_api \<Rightarrow>
    'f mempool_api \<Rightarrow> (nat \<Rightarrow> unit result) \<Rightarrow> bool \<Rightarrow> 's App \<Rightarrow> 'f Query \<Rightarrow>
    's App \<times> 'f Query \<times> Notification list result" where
  "main_loop_pass K F sort_entries drain rs put sync_all D M poll started app q =
     (case app_update (cr_libs K) put sync_all D poll app of
        (app', Inl e) \<Rightarrow> (app', q\<lparr>q_store := rs (ap_store app'), q_index := ap_index app'\<rparr>, Inl e)
      | (app', Inr (headers_changed, new_tip)) \<Rightarrow>
          let q1 = q\<lparr>q_store := rs (ap_store app'), q_index := ap_index app'\<rparr> in
          (case update_mempool K F sort_entries M q1 of
             Inl e \<Rightarrow> (app', q1, Inl e)
           | Inr (q2, txs_changed) \<Rightarrow>
               (app', q2,
                if started then
                  and_then (notify_scripthash_subscriptions (cr_libs K) drain q2 headers_changed txs_changed) (\<lambda>ns.
                  Inr (ns @ (case new_tip of Some header \<Rightarrow> notify_subscriptions_chaintip header | None \<Rightarrow> [])))
                else Inr [])))"

text \<open>The wait at the end of a pass: any error ends the loop, and \<^verbatim>\<open>run_server\<close> returns \<^verbatim>\<open>Ok\<close>.\<close>

definition main_loop_continues :: "recv_timeout \<Rightarrow> bool" where
  "main_loop_continues ev = is_ok (waiter_wait ev)"

section \<open>Lemmas\<close>

lemma index_update_tip:
  assumes "index_update L put sync_all D poll ix s = (s', ix', Inr (es, t))"
  shows "dm_getbestblockhash D = Inr (he_hash t) \<and> headers_tip (ix_headers ix') = Some t"
  using assms
  by (auto simp: index_update_def update_headers_def Let_def result_simps split: sum.splits prod.splits if_splits)

text \<open>A database that was opened is of the right version.\<close>

lemma open_database_compatible:
  assumes "rocksdb_store R dinv dmap"
  shows "is_compatible_version (dbstore_read R (open_database R path low))"
proof (cases "is_compatible_version (dbstore_read R (dbstore_open R path low))")
  case True
  then show ?thesis
    by (simp add: open_database_def Let_def dbstore_open_def dbstore_open_opts_def [of _ "Some _"] is_compatible_version_def
        dbstore_read_def dbstore_get_def)
next
  case False
  then show ?thesis
    using open_and_compact [OF assms, of "dbstore_open R None low" low] rocksdb_store.open_new_map [OF assms, of low]
    by (simp add: open_database_def Let_def)
qed

text \<open>A scan is determined by what the store has under the prefix.\<close>

context read_store
begin

lemma scan_determined:
  assumes "invar s" "invar t" "\<And>k. prefix p k \<Longrightarrow> contents s k = contents t k"
  shows "rs_scan (rs s) p = rs_scan (rs t) p"
proof (rule map_sorted_distinct_set_unique [where f = row_key])
  show set: "set (rs_scan (rs s) p) = set (rs_scan (rs t) p)"
    using assms by (auto simp: scan_mem)
  show "inj_on row_key (set (rs_scan (rs s) p) \<union> set (rs_scan (rs t) p))"
    unfolding set by (rule inj_onI) (auto simp: scan_mem [OF assms(2)])
qed (use scan_sorted [OF assms(1), of p] scan_sorted [OF assms(2), of p] in \<open>simp_all add: strict_sorted_iff\<close>)

end

lemma compaction_keeps_headers:
  assumes R: "rocksdb_store R dinv dmap" and s: "dinv (ds_db s)"
  shows "read_indexed_headers L (dbstore_read R (full_compaction R s)) = read_indexed_headers L (dbstore_read R s)"
proof -
  note st = rocksdb_store.dbs_write_store [OF R, THEN write_store.axioms(1)]
  note full = rocksdb_store.full_compaction_map [OF R s]
  have F: "row_key full_compaction_marker = [0x46]" by (simp add: full_compaction_marker_def ascii_def)
  have "rs_get (dbstore_read R (full_compaction R s)) [0x4C] = rs_get (dbstore_read R s) [0x4C]"
    using full s by (simp add: read_store.get_contents [OF st] F)
  moreover have "rs_scan (dbstore_read R (full_compaction R s)) [0x42] = rs_scan (dbstore_read R s) [0x42]"
    using full s by (intro read_store.scan_determined [OF st]) (auto simp: F)
  ultimately show ?thesis by (simp add: read_indexed_headers_def)
qed

lemma enable_compaction_read: "dbstore_read R (dbstore_enable_compaction s) = dbstore_read R s"
  by (simp add: dbstore_enable_compaction_def dbstore_read_def dbstore_get_def dbstore_scan_def fun_eq_iff)

text \<open>An update that finds no new headers writes nothing.\<close>

lemma index_update_no_headers:
  assumes "index_update L put sync_all D poll ix s = (s', ix', Inr ([], t))"
  shows "s' = sync_all s \<and> (\<exists>best. apply_headers (ix_headers ix) [] best = Inr (ix_headers ix'))"
proof -
  from assms obtain best new s1 prev where u: "update_headers L D ix = Inr (best, new)"
    and l: "update_loop L put D poll ix new s = (s1, Inr prev)"
    by (auto simp: index_update_def Let_def split: sum.splits prod.splits)
  with assms have "new = []" by (auto simp: index_update_def Let_def result_simps split: sum.splits)
  moreover with l have "s1 = s" "prev = None" by (auto simp: update_loop_def split: sum.splits)
  ultimately show ?thesis
    using assms u l by (auto simp: index_update_def Let_def split: sum.splits)
qed

lemma apply_none_prefix:
  assumes "apply_headers hl [] best = Inr hl'"
  shows "prefix (hl_headers hl') (hl_headers hl)"
proof (cases "best = null_hash")
  case True
  with assms show ?thesis by (auto simp: apply_headers_def result_simps empty_headers_def)
next
  case False
  from apply_headers_chain [OF assms False] show ?thesis by (auto simp: take_is_prefix)
qed

text \<open>The index in memory and the one in the store: a restart reads a well-formed chain, at least the one in memory.\<close>

definition in_step :: "libs \<Rightarrow> 'db rocksdb \<Rightarrow> 'db DbStore \<Rightarrow> Index \<Rightarrow> bool" where
  "in_step L R s ix \<longleftrightarrow>
     (case read_indexed_headers L (dbstore_read R s) of
        Inr hl \<Rightarrow> wf_headers (lib_block_hash L) hl \<and> prefix (hl_headers (ix_headers ix)) (hl_headers hl)
      | Inl _ \<Rightarrow> False)"

lemma reload_in_step:
  "index_reload L (dbstore_read R s) ix = Inr ix' \<Longrightarrow>
     \<exists>hl. read_indexed_headers L (dbstore_read R s) = Inr hl \<and> wf_headers (lib_block_hash L) hl \<Longrightarrow> in_step L R s ix'"
  by (auto simp: index_reload_def in_step_def result_simps)

lemma index_loop_invar:
  assumes "write_store rs invar contents put sync_all" "invar s"
  shows "invar (fst (index_loop L put D poll hm ca i prev bhs s))"
  using assms(2)
  by (induction bhs arbitrary: i prev s)
     (auto simp: Let_def write_store.write_invar [OF assms(1)] split: sum.splits option.splits)

lemma index_update_invar:
  assumes ws: "write_store rs invar contents put sync_all" "invar s"
  shows "invar (fst (index_update L put sync_all D poll ix s))"
proof (cases "update_headers L D ix")
  case (Inr th)
  obtain best new where th: "th = (best, new)" by fastforce
  obtain s1 r where l: "update_loop L put D poll ix new s = (s1, r)" by fastforce
  have "invar (fst (update_loop L put D poll ix new s))" unfolding update_loop_def by (rule index_loop_invar [OF ws])
  with l have "invar s1" by simp
  with Inr th l show ?thesis
    by (auto simp: index_update_def Let_def write_store.write_invar [OF ws(1)] write_store.flush_invar [OF ws(1)]
        split: sum.splits option.splits)
qed (use ws(2) in \<open>simp add: index_update_def\<close>)

lemma index_blk_files_invar:
  assumes ws: "write_store rs invar contents put sync_all" "invar s" and run: "index_blk_files L C P rs put files n s (Inr s')"
  shows "invar s'"
proof -
  from run obtain seen p where reach: "(bulk_step L C P put)\<^sup>*\<^sup>* (pipeline_start files n seen s) p"
    and fin: "bulk_finish L P put p = Inr s'"
    by (auto simp: index_blk_files_def split: sum.splits)
  from reach have "invar (pl_store p)"
  proof (induction rule: rtranclp_induct)
    case base
    show ?case using ws(2) by (simp add: pipeline_start_def)
  next
    case (step p p')
    then show ?case by (elim bulk_stepE) (auto simp: write_store.write_invar [OF ws(1)])
  qed
  with fin show ?thesis
    by (auto simp: bulk_finish_def result_simps write_store.write_invar [OF ws(1)] split: option.splits)
qed

lemma in_step_compaction:
  assumes "rocksdb_store R dinv dmap" "dinv (ds_db s)" "in_step L R s ix"
  shows "in_step L R (full_compaction R s) ix"
  using assms by (simp add: in_step_def compaction_keeps_headers)

lemma enable_in_step [simp]: "in_step L R (dbstore_enable_compaction s) ix = in_step L R s ix"
  by (simp add: in_step_def enable_compaction_read)

text \<open>The store on which an import starts: it persists a chain of the universe \<open>S\<close>.\<close>

definition start_store :: "libs \<Rightarrow> BlockHeader set \<Rightarrow> (Bytes \<rightharpoonup> Bytes) \<Rightarrow> HeaderEntry list \<Rightarrow> bool" where
  "start_store L S c es \<longleftrightarrow> persists L c es \<and> store_rows L S c \<and> chained (lib_block_hash L) 0 null_hash es \<and>
     he_header ` set es \<subseteq> S"

context codec_laws
begin

lemma start_store_read:
  assumes R: "rocksdb_store R dinv dmap" "dinv (ds_db s)"
    and S: "collision_free (lib_block_hash L) S" "\<forall>h\<in>S. wf_header h" and st: "start_store L S (dmap (ds_db s)) es"
  shows "\<exists>hl. read_indexed_headers L (dbstore_read R s) = Inr hl \<and> wf_headers (lib_block_hash L) hl \<and> hl_headers hl = es"
proof -
  note rs = rocksdb_store.dbs_write_store [OF R(1), THEN write_store.axioms(1)]
  from st have es: "persists L (dmap (ds_db s)) es" "chained (lib_block_hash L) 0 null_hash es" "he_header ` set es \<subseteq> S"
    by (simp_all add: start_store_def)
  from universe_subset [OF S es(3)] have "collision_free (lib_block_hash L) (he_header ` set es)"
    "\<forall>e\<in>set es. wf_header (he_header e)" by auto
  from read_persisted [OF rs _ es(1,2) this] R(2) show ?thesis by simp
qed

lemma update_in_step:
  assumes R: "rocksdb_store R dinv dmap" "dinv (ds_db s)" and td: "trusted_daemon L S D"
    and st: "start_store L S (dmap (ds_db s)) es" and ix: "index_reload L (dbstore_read R s) ix = Inr ix1"
    and run: "index_update L (dbstore_write R) (dbstore_flush R) D poll ix1 s = (s', ix', Inr (new, t))"
  shows "in_step L R s' ix'"
proof -
  note ws = rocksdb_store.dbs_write_store [OF R(1)]
  from td have S: "collision_free (lib_block_hash L) S" "\<forall>h\<in>S. wf_header h" by (simp_all add: trusted_daemon_def)
  from start_store_read [OF R S st] ix have hl: "wf_headers (lib_block_hash L) (ix_headers ix1)" "hl_headers (ix_headers ix1) = es"
    by (auto simp: index_reload_def)
  show ?thesis
  proof (cases "new = []")
    case False
    from st hl(2) have pre: "he_header ` set (hl_headers (ix_headers ix1)) \<subseteq> S"
      "persists L (dmap (ds_db s)) (hl_headers (ix_headers ix1))" by (simp_all add: start_store_def)
    from update_restart [OF ws R(2) td hl(1) pre run] obtain hl' where
      "read_indexed_headers L (dbstore_read R s') = Inr hl'" "wf_headers (lib_block_hash L) hl'"
      "\<forall>es t'. Inr (new, t) = Inr (es, t') \<and> es \<noteq> [] \<longrightarrow> hl_headers hl' = hl_headers (ix_headers ix')" by blast
    with False show ?thesis by (simp add: in_step_def)
  next
    case True
    from index_update_no_headers [OF run [unfolded True]] have s': "s' = dbstore_flush R s"
      and ap: "\<exists>best. apply_headers (ix_headers ix1) [] best = Inr (ix_headers ix')" by blast+
    have "dinv (ds_db s')" "dmap (ds_db s') = dmap (ds_db s)"
      using write_store.flush_invar [OF ws R(2)] write_store.flush_contents [OF ws R(2)] by (simp_all add: s')
    with start_store_read [OF R(1) _ S, of s' es] st obtain hl' where
      hl': "read_indexed_headers L (dbstore_read R s') = Inr hl'" "wf_headers (lib_block_hash L) hl'" "hl_headers hl' = es"
      by auto
    from ap obtain best where "apply_headers (ix_headers ix1) [] best = Inr (ix_headers ix')" ..
    from apply_none_prefix [OF this] hl(2) hl' show ?thesis by (simp add: in_step_def)
  qed
qed

end

text \<open>The three ways through the initial import.\<close>

lemma initial_import_cases:
  assumes "initial_import L R D poll bulk jsonrpc s ix = Inr (s', ix')"
  obtains "is_fully_compacted (dbstore_read R s)" "s' = dbstore_enable_compaction s" "ix' = ix"
  | t ix1 new tip_header where "index_reload L (dbstore_read R s) ix = Inr ix1"
      "index_update L (dbstore_write R) (dbstore_flush R) D poll ix1 s = (t, ix', Inr (new, tip_header))"
      "s' = dbstore_enable_compaction (full_compaction R t)"
  | t where "bulk s = Inr t" "index_reload L (dbstore_read R (full_compaction R t)) ix = Inr ix'"
      "s' = dbstore_enable_compaction (full_compaction R t)"
proof (cases "\<not> is_fully_compacted (dbstore_read R s) \<and> jsonrpc")
  case True
  with assms obtain ix1 where ix1: "index_reload L (dbstore_read R s) ix = Inr ix1"
    by (auto simp: initial_import_def result_simps)
  obtain t ix2 r where "index_update L (dbstore_write R) (dbstore_flush R) D poll ix1 s = (t, ix2, r)"
    by (rule prod_cases3)
  with True assms ix1 that(2) show thesis by (cases r) (auto simp: initial_import_def)
next
  case False
  with assms that(1,3) show thesis
    by (auto simp: initial_import_def Let_def result_simps split: if_splits)
qed

text \<open>What a bulk import needs of the node's files and headers.\<close>

definition bulk_source :: "libs \<Rightarrow> bulk_crate \<Rightarrow> Parser \<Rightarrow> BlockHeader set \<Rightarrow> bool" where
  "bulk_source L C P S \<longleftrightarrow> wf_headers (lib_block_hash L) (ps_current_headers P) \<and>
     he_header ` set (hl_headers (ps_current_headers P)) \<subseteq> S \<and>
     (\<forall>bytes b. bc_de_block C bytes = Some b \<longrightarrow> blk_header b \<in> S) \<and>
     (\<forall>rows. set (bc_sort_rows C rows) = set rows)"

context codec_laws
begin

lemma initial_import_in_step:
  assumes R: "rocksdb_store R dinv dmap" "dinv (ds_db s)" and td: "trusted_daemon L S D"
    and st: "start_store L S (dmap (ds_db s)) es" and src: "bulk_source L C P S"
    and bulk: "\<And>s'. bulk s = Inr s' \<Longrightarrow> index_blk_files L C P (dbstore_read R) (dbstore_write R) files n s (Inr s')"
    and ld: "index_load L (dbstore_read R s) D batch height = Inr ix"
    and run: "initial_import L R D poll bulk jsonrpc s ix = Inr (s', ix')"
  shows "in_step L R s' ix' \<and> is_fully_compacted (dbstore_read R s')"
proof -
  note ws = rocksdb_store.dbs_write_store [OF R(1)]
  from td have S: "collision_free (lib_block_hash L) S" "\<forall>h\<in>S. wf_header h" by (simp_all add: trusted_daemon_def)
  have compacted: "is_fully_compacted (dbstore_read R (full_compaction R t))" if "dinv (ds_db t)" for t
    using open_and_compact [OF R(1) that] by simp
  from run show ?thesis
  proof (cases rule: initial_import_cases)
    case 1
    with start_store_read [OF R S st] ld show ?thesis
      by (auto simp: in_step_def index_load_def result_simps enable_compaction_read)
  next
    case (2 t ix1 new tip_header)
    have "dinv (ds_db t)" using index_update_invar [OF ws R(2), of L D poll ix1] 2(2) by simp
    with update_in_step [OF R td st 2(1,2)] 2(3) show ?thesis
      by (simp add: enable_compaction_read compacted in_step_compaction [OF R(1)])
  next
    case (3 t)
    from src st have "\<exists>hl. read_indexed_headers L (dbstore_read R t) = Inr hl \<and> wf_headers (lib_block_hash L) hl"
      using bulk_import_chain [OF ws R(2) _ S _ _ _ _ bulk [OF 3(1)]] by (auto simp: bulk_source_def start_store_def)
    moreover have "dinv (ds_db t)" using index_blk_files_invar [OF ws R(2) bulk [OF 3(1)]] .
    ultimately show ?thesis
      using reload_in_step [OF 3(2)] 3(3) compacted by (simp add: compaction_keeps_headers [OF R(1)] enable_compaction_read)
  qed
qed

end

section \<open>Properties\<close>

text \<open>C22: After an update of the application its recorded tip is the node's best block; a new tip that it
  reports is that block and the tip of the index; and a further update finds nothing to do until
  the node's best block changes.\<close>

theorem app_update_follows:
  assumes "app_update L put sync_all D poll app = (app', Inr (new_headers, new_tip))"
  shows "dm_getbestblockhash D = Inr (ap_tip app') \<and>
    (\<forall>t. new_tip = Some t \<longrightarrow> he_hash t = ap_tip app' \<and> headers_tip (ix_headers (ap_index app')) = Some t) \<and>
    app_update L put sync_all D poll app' = (app', Inr ([], None))"
  using assms index_update_tip [of L put sync_all D poll "ap_index app" "ap_store app"]
  by (auto simp: app_update_def split: sum.splits prod.splits if_splits)

lemma demo_app_update:
  "\<exists>app' t. app_update std_libs (dbstore_write btree_db) (dbstore_flush btree_db) demo_daemon (\<lambda>_. Inr ())
     \<lparr>ap_store = demo_store, ap_index = demo_index, ap_banner = [], ap_tip = null_hash\<rparr> = (app', Inr ([t], Some t))"
proof -
  obtain e where e: "snd (snd demo_update) = Inr ([e], e)" using demo_update_ok by blast
  then have "index_update std_libs (dbstore_write btree_db) (dbstore_flush btree_db) demo_daemon (\<lambda>_. Inr ()) demo_index demo_store =
      (fst demo_update, fst (snd demo_update), Inr ([e], e))"
    by (simp add: demo_update_def prod_eq_iff)
  then show ?thesis
    using demo_block_hash by (simp add: app_update_def demo_daemon_def)
qed

theorem app_update_follows_witness:
  "\<exists>app' t. he_hash t = ap_tip app' \<and> headers_tip (ix_headers (ap_index app')) = Some t \<and>
     app_update std_libs (dbstore_write btree_db) (dbstore_flush btree_db) demo_daemon (\<lambda>_. Inr ()) app' = (app', Inr ([], None))"
proof -
  obtain app' t where "app_update std_libs (dbstore_write btree_db) (dbstore_flush btree_db) demo_daemon (\<lambda>_. Inr ())
     \<lparr>ap_store = demo_store, ap_index = demo_index, ap_banner = [], ap_tip = null_hash\<rparr> = (app', Inr ([t], Some t))"
    using demo_app_update by blast
  from app_update_follows [OF this] show ?thesis by blast
qed

text \<open>A start on an empty database over the node's calls.\<close>

lemma demo_read_empty: "read_indexed_headers std_libs (dbstore_read btree_db demo_store) = Inr empty_headers"
proof -
  have "walk_headers [] null_hash [] = Inr []" by (subst walk_headers.simps) simp
  then show ?thesis
    by (simp add: read_indexed_headers_def dbstore_read_def dbstore_get_def dbstore_scan_def demo_store_def btree_db_def
        bt_range_from_def order_def hash_headers_def apply_headers_def)
qed

lemma demo_start:
  "\<exists>app. start_server std_libs btree_db demo_daemon (\<lambda>_. Inr ()) (\<lambda>_. bail []) True 10 0 [] demo_store = Inr app"
proof -
  obtain e where e: "snd (snd demo_update) = Inr ([e], e)" using demo_update_ok by blast
  then have "index_update std_libs (dbstore_write btree_db) (dbstore_flush btree_db) demo_daemon (\<lambda>_. Inr ()) demo_index demo_store =
      (fst demo_update, fst (snd demo_update), Inr ([e], e))"
    by (simp add: demo_update_def prod_eq_iff)
  moreover have "index_load std_libs (dbstore_read btree_db demo_store) demo_daemon 10 0 = Inr demo_index"
    "index_reload std_libs (dbstore_read btree_db demo_store) demo_index = Inr demo_index"
    by (simp_all add: index_load_def index_reload_def demo_read_empty demo_daemon_def demo_index_def)
  moreover have "\<not> is_fully_compacted (dbstore_read btree_db demo_store)"
    by (simp add: is_fully_compacted_def dbstore_read_def dbstore_get_def demo_store_def btree_db_def)
  ultimately show ?thesis
    by (simp add: start_server_def initial_import_def app_new_def) (simp add: demo_daemon_def)
qed

end
