(* ===== verification/WsFrame.thy ===== *)
theory WsFrame
  imports Codec
begin

unbundle bit_operations_syntax

text \<open>
  The frames of the WebSocket proxy (\<^verbatim>\<open>src/src/wstcp/opcode.rs\<close>, \<^verbatim>\<open>src/src/wstcp/frame.rs\<close>): the encoder
  that turns what the RPC server sends into frames and the decoder that turns the client's frames
  into what the RPC server reads.  Both work on whatever part of the data their buffers hold.
\<close>

section \<open>Opcodes and headers\<close>

text \<open>
  The crates: how many bytes an encoder of \<open>n\<close> pending bytes writes into a buffer of \<open>m\<close>, how
  many a decoder that misses \<open>n\<close> bytes takes from \<open>m\<close> (\<open>None\<close> when the stream ends before), and
  the big-endian numbers.
\<close>

record ws_crates =
  wc_encode :: "nat \<Rightarrow> nat \<Rightarrow> nat"
  wc_decode :: "nat \<Rightarrow> nat \<Rightarrow> bool \<Rightarrow> nat option"
  wc_write_u16 :: "u16 \<Rightarrow> Bytes"
  wc_write_u64 :: "u64 \<Rightarrow> Bytes"
  wc_read_u16 :: "Bytes \<Rightarrow> u16"
  wc_read_u64 :: "Bytes \<Rightarrow> u64"

text \<open>An error of the codec crate; its text is not kept.\<close>

definition ws_error :: "'a result" where
  "ws_error = bail_kind (WebSocket ''bytecodec error'')"

datatype Opcode = ContinuationFrame | TextFrame | BinaryFrame | ConnectionClose | Ping | Pong

fun opcode_u8 :: "Opcode \<Rightarrow> u8" where
  "opcode_u8 ContinuationFrame = 0x0"
| "opcode_u8 TextFrame = 0x1"
| "opcode_u8 BinaryFrame = 0x2"
| "opcode_u8 ConnectionClose = 0x8"
| "opcode_u8 Ping = 0x9"
| "opcode_u8 Pong = 0xA"

definition opcode_from_u8 :: "u8 \<Rightarrow> Opcode result" where
  "opcode_from_u8 n =
     (if n = 0x0 then Inr ContinuationFrame
      else if n = 0x1 then Inr TextFrame
      else if n = 0x2 then Inr BinaryFrame
      else if n = 0x8 then Inr ConnectionClose
      else if n = 0x9 then Inr Ping
      else if n = 0xA then Inr Pong
      else ws_error)"

fun is_control :: "Opcode \<Rightarrow> bool" where
  "is_control ConnectionClose = True"
| "is_control Ping = True"
| "is_control Pong = True"
| "is_control _ = False"

definition FIN_FLAG :: u8 where
  "FIN_FLAG = 0x80"

definition MASK_FLAG :: u8 where
  "MASK_FLAG = 0x80"

definition BUF_SIZE :: nat where
  "BUF_SIZE = 4096"

datatype Frame = CloseFrame u16 Bytes | PingFrame Bytes | PongFrame Bytes | DataFrame

record FrameHeader =
  fh_fin_flag :: bool
  fh_opcode :: Opcode
  fh_mask :: "Bytes option"
  fh_payload_len :: u64

definition header_from_bytes :: "u8 \<Rightarrow> u8 \<Rightarrow> FrameHeader result" where
  "header_from_bytes b0 b1 =
     and_then (opcode_from_u8 (b0 AND 0xF)) (\<lambda>opcode.
     Inr \<lparr>fh_fin_flag = (b0 AND FIN_FLAG \<noteq> 0), fh_opcode = opcode,
          fh_mask = (if b1 AND MASK_FLAG \<noteq> 0 then Some [0, 0, 0, 0] else None),
          fh_payload_len = ucast (b1 AND 0x7F)\<rparr>)"

section \<open>The encoder\<close>

text \<open>The states of a stream, and what one read from the RPC server's connection gives.\<close>

datatype StreamState = Normal | WouldBlock | Eos

datatype read_result = ReadWouldBlock | ReadError string | ReadOk Bytes

text \<open>
  The header is the part of its bytes still to be written, if one was started; the payload buffer has
  4096 bytes.
\<close>

record FrameEncoder =
  fe_header :: "Bytes option"
  fe_payload :: Bytes
  fe_payload_offset :: nat
  fe_payload_length :: nat
  fe_first_frame :: bool

definition encoder_default :: FrameEncoder where
  "encoder_default = \<lparr>fe_header = None, fe_payload = replicate BUF_SIZE 0, fe_payload_offset = 0,
     fe_payload_length = 0, fe_first_frame = True\<rparr>"

definition encoder_is_idle :: "FrameEncoder \<Rightarrow> bool" where
  "encoder_is_idle e \<longleftrightarrow> fe_header e = None \<and> fe_payload_length e = 0"

definition header_bytes_of :: "ws_crates \<Rightarrow> Opcode \<Rightarrow> nat \<Rightarrow> bool \<Rightarrow> Bytes" where
  "header_bytes_of W opcode payload_len end_of_message =
     (if end_of_message then FIN_FLAG OR opcode_u8 opcode else opcode_u8 opcode) #
     (if payload_len < 126 then [of_nat payload_len]
      else if payload_len < 0x10000 then 126 # wc_write_u16 W (of_nat payload_len)
      else 127 # wc_write_u64 W (of_nat payload_len))"

definition start_encoding_header :: "ws_crates \<Rightarrow> Opcode \<Rightarrow> nat \<Rightarrow> bool \<Rightarrow> FrameEncoder \<Rightarrow> FrameEncoder" where
  "start_encoding_header W opcode payload_len end_of_message e =
     e\<lparr>fe_header := Some (header_bytes_of W opcode payload_len end_of_message), fe_payload_length := payload_len\<rparr>"

text \<open>
  The loop that cuts the newlines off the end of what was read.  An idle encoder has the offset 0; with
  no byte left the index wraps around and is out of range.
\<close>

fun trim_newlines :: "Bytes \<Rightarrow> nat \<Rightarrow> bool \<Rightarrow> Bytes \<times> nat \<times> bool" where
  "trim_newlines payload 0 end_of_message = (payload, 0, end_of_message)"
| "trim_newlines payload (Suc n) end_of_message =
     (if n < length payload \<and> payload ! n = 0x0A then trim_newlines (payload[n := 0]) n True
      else (payload, Suc n, end_of_message))"

definition start_encoding_data :: "ws_crates \<Rightarrow> FrameEncoder \<Rightarrow> read_result \<Rightarrow> FrameEncoder \<times> StreamState result" where
  "start_encoding_data W e rd =
     (if \<not> encoder_is_idle e then (e, Inr Normal)
      else case rd of
        ReadWouldBlock \<Rightarrow> (e, Inr WouldBlock)
      | ReadError m \<Rightarrow> (e, bail_kind (WebSocket m))
      | ReadOk bs \<Rightarrow>
          if bs = [] then (e, Inr Eos)
          else let (payload, resize, end_of_message) =
                     trim_newlines (bs @ drop (length bs) (fe_payload e)) (length bs) False;
                   e1 = e\<lparr>fe_payload := payload\<rparr>
               in if resize = 0 then (e1, Inr Normal)
                  else (start_encoding_header W
                          (if fe_first_frame e then TextFrame else ContinuationFrame) resize end_of_message
                          (e1\<lparr>fe_first_frame := end_of_message\<rparr>), Inr Normal))"

text \<open>One call of \<^verbatim>\<open>encode\<close> with a buffer of \<open>room\<close> bytes: the bytes written.\<close>

definition encode_payload :: "FrameEncoder \<Rightarrow> nat \<Rightarrow> FrameEncoder \<times> Bytes" where
  "encode_payload e room =
     (let n = min room (fe_payload_length e - fe_payload_offset e);
          out = take n (drop (fe_payload_offset e) (fe_payload e));
          off = fe_payload_offset e + n
      in if off = fe_payload_length e
         then (e\<lparr>fe_payload_length := 0, fe_payload_offset := 0, fe_header := None\<rparr>, out)
         else (e\<lparr>fe_payload_offset := off\<rparr>, out))"

definition encoder_encode :: "ws_crates \<Rightarrow> FrameEncoder \<Rightarrow> nat \<Rightarrow> FrameEncoder \<times> Bytes" where
  "encoder_encode W e room =
     (case fe_header e of
        Some (b # bs) \<Rightarrow>
          let n = wc_encode W (length (b # bs)) room;
              e1 = e\<lparr>fe_header := Some (drop n (b # bs))\<rparr>
          in if drop n (b # bs) \<noteq> [] then (e1, take n (b # bs))
             else (case encode_payload e1 (room - n) of (e2, out) \<Rightarrow> (e2, take n (b # bs) @ out))
      | _ \<Rightarrow> encode_payload e room)"

definition encoder_start_encoding :: "ws_crates \<Rightarrow> FrameEncoder \<Rightarrow> Frame \<Rightarrow> FrameEncoder \<times> unit result" where
  "encoder_start_encoding W e item =
     (if \<not> encoder_is_idle e then (e, ws_error)
      else case item of
        CloseFrame code reason \<Rightarrow>
          let e1 = start_encoding_header W ConnectionClose (2 + length reason) True e in
          if length (fe_payload e) < 2 + length reason then (e1, ws_error)
          else (e1\<lparr>fe_payload := wc_write_u16 W code @ reason @ drop (2 + length reason) (fe_payload e)\<rparr>, Inr ())
      | PongFrame data \<Rightarrow>
          let e1 = start_encoding_header W Pong (length data) True e in
          if length (fe_payload e) < length data then (e1, ws_error)
          else (e1\<lparr>fe_payload := data @ drop (length data) (fe_payload e)\<rparr>, Inr ())
      | _ \<Rightarrow> (e, Inl (Panic ''internal error: entered unreachable code'')))"

section \<open>The decoder of headers\<close>

text \<open>The bytes collected so far of the fixed part and of the extended part, whose size the fixed part fixes.\<close>

record FrameHeaderDecoder =
  hd_fixed_bytes :: Bytes
  hd_extended_bytes :: Bytes
  hd_extended_size :: nat
  hd_header :: "FrameHeader option"
  hd_completed :: bool

definition header_decoder_default :: FrameHeaderDecoder where
  "header_decoder_default = \<lparr>hd_fixed_bytes = [], hd_extended_bytes = [], hd_extended_size = 0, hd_header = None,
     hd_completed = False\<rparr>"

definition extended_size :: "FrameHeader \<Rightarrow> nat" where
  "extended_size header =
     (if fh_mask header \<noteq> None then 4 else 0) +
     (if fh_payload_len header = 126 then 2 else if fh_payload_len header = 127 then 8 else 0)"

definition complete_header :: "ws_crates \<Rightarrow> FrameHeader \<Rightarrow> Bytes \<Rightarrow> FrameHeader" where
  "complete_header W header b =
     (let (len, bytes) =
            (if fh_payload_len header = 126 then (ucast (wc_read_u16 W (take 2 b)), drop 2 b)
             else if fh_payload_len header = 127 then (wc_read_u64 W (take 8 b), drop 8 b)
             else (fh_payload_len header, b))
      in header\<lparr>fh_payload_len := len,
           fh_mask := (if fh_mask header \<noteq> None then Some (take 4 bytes) else None)\<rparr>)"

definition header_decode_extended :: "ws_crates \<Rightarrow> FrameHeaderDecoder \<Rightarrow> FrameHeader \<Rightarrow> nat \<Rightarrow> Bytes \<Rightarrow> bool \<Rightarrow>
    FrameHeaderDecoder \<times> nat result" where
  "header_decode_extended W h header offset buf eos =
     (case wc_decode W (hd_extended_size h - length (hd_extended_bytes h)) (length buf - offset) eos of
        None \<Rightarrow> (h, ws_error)
      | Some n \<Rightarrow>
          let b = hd_extended_bytes h @ take n (drop offset buf) in
          if length b < hd_extended_size h then (h\<lparr>hd_extended_bytes := b\<rparr>, Inr (offset + n))
          else (h\<lparr>hd_extended_bytes := [], hd_header := Some (complete_header W header b), hd_completed := True\<rparr>,
                Inr (offset + n)))"

definition header_decode :: "ws_crates \<Rightarrow> FrameHeaderDecoder \<Rightarrow> Bytes \<Rightarrow> bool \<Rightarrow> FrameHeaderDecoder \<times> nat result" where
  "header_decode W h buf eos =
     (if hd_completed h then (h, Inr 0)
      else case hd_header h of
        Some header \<Rightarrow> header_decode_extended W h header 0 buf eos
      | None \<Rightarrow>
          (case wc_decode W (2 - length (hd_fixed_bytes h)) (length buf) eos of
             None \<Rightarrow> (h, ws_error)
           | Some n \<Rightarrow>
               let b = hd_fixed_bytes h @ take n buf in
               if length b < 2 then (h\<lparr>hd_fixed_bytes := b\<rparr>, Inr n)
               else (case header_from_bytes (b ! 0) (b ! 1) of
                       Inl e \<Rightarrow> (h\<lparr>hd_fixed_bytes := []\<rparr>, Inl e)
                     | Inr header \<Rightarrow>
                         header_decode_extended W
                           (h\<lparr>hd_fixed_bytes := [], hd_extended_size := extended_size header, hd_header := Some header\<rparr>)
                           header n buf eos)))"

definition header_finish_decoding :: "FrameHeaderDecoder \<Rightarrow> FrameHeaderDecoder \<times> FrameHeader result" where
  "header_finish_decoding h =
     (if \<not> hd_completed h then (h, ws_error)
      else case hd_header h of
        Some header \<Rightarrow> (h\<lparr>hd_header := None, hd_completed := False\<rparr>, Inr header)
      | None \<Rightarrow> (h, ws_error))"

section \<open>The decoder of payloads\<close>

text \<open>The buffer up to \<^verbatim>\<open>buf_end\<close>; the bytes before \<^verbatim>\<open>buf_start\<close> have been passed on.\<close>

record FramePayloadDecoder =
  pd_buf :: Bytes
  pd_buf_start :: nat
  pd_payload_offset :: nat
  pd_mask_offset :: nat
  pd_header :: "FrameHeader option"

definition payload_decoder_default :: FramePayloadDecoder where
  "payload_decoder_default = \<lparr>pd_buf = [], pd_buf_start = 0, pd_payload_offset = 0, pd_mask_offset = 0, pd_header = None\<rparr>"

fun unmask :: "Bytes \<Rightarrow> nat \<Rightarrow> Bytes \<Rightarrow> Bytes" where
  "unmask key k [] = []"
| "unmask key k (b # bs) = (b XOR key ! k) # unmask key ((k + 1) mod 4) bs"

definition payload_decode :: "FramePayloadDecoder \<Rightarrow> Bytes \<Rightarrow> bool \<Rightarrow> FramePayloadDecoder \<times> nat result" where
  "payload_decode p buf eos =
     (case pd_header p of
        None \<Rightarrow> (p, Inr 0)
      | Some header \<Rightarrow>
          let n = min (min (unat (fh_payload_len header) - pd_payload_offset p) (length buf)) (BUF_SIZE - length (pd_buf p));
              off = pd_payload_offset p + n;
              p1 = (case fh_mask header of
                      None \<Rightarrow> p\<lparr>pd_buf := pd_buf p @ take n buf, pd_payload_offset := off\<rparr>
                    | Some key \<Rightarrow>
                        p\<lparr>pd_buf := pd_buf p @ unmask key (pd_mask_offset p) (take n buf), pd_payload_offset := off,
                          pd_mask_offset := (pd_mask_offset p + n) mod 4\<rparr>)
          in (p1, if off \<noteq> unat (fh_payload_len header) \<and> eos then ws_error else Inr n))"

definition payload_is_idle :: "FramePayloadDecoder \<Rightarrow> bool" where
  "payload_is_idle p =
     (case pd_header p of
        None \<Rightarrow> False
      | Some header \<Rightarrow>
          unat (fh_payload_len header) = pd_payload_offset p \<and>
          (is_control (fh_opcode header) \<or> pd_buf_start p = length (pd_buf p)))"

text \<open>The reset at the end of \<^verbatim>\<open>finish_decoding\<close>; on an error only the header is gone.\<close>

definition payload_reset :: FramePayloadDecoder where
  "payload_reset = \<lparr>pd_buf = [], pd_buf_start = 0, pd_payload_offset = 0, pd_mask_offset = 0, pd_header = None\<rparr>"

definition payload_finish_decoding :: "ws_crates \<Rightarrow> FramePayloadDecoder \<Rightarrow> FramePayloadDecoder \<times> Frame result" where
  "payload_finish_decoding W p =
     (if \<not> payload_is_idle p then (p, ws_error)
      else case pd_header p of
        None \<Rightarrow> (p, ws_error)
      | Some header \<Rightarrow>
          let p1 = p\<lparr>pd_header := None\<rparr> in
          (case fh_opcode header of
             ConnectionClose \<Rightarrow>
               if pd_buf_start p \<noteq> 0 \<or> length (pd_buf p) < 2 then (p1, ws_error)
               else (payload_reset, Inr (CloseFrame (wc_read_u16 W (take 2 (pd_buf p))) (drop 2 (pd_buf p))))
           | Ping \<Rightarrow>
               if pd_buf_start p \<noteq> 0 then (p1, Inl (Panic ''assert_eq'')) else (payload_reset, Inr (PingFrame (pd_buf p)))
           | Pong \<Rightarrow>
               if pd_buf_start p \<noteq> 0 then (p1, Inl (Panic ''assert_eq'')) else (payload_reset, Inr (PongFrame (pd_buf p)))
           | _ \<Rightarrow>
               if pd_buf_start p \<noteq> length (pd_buf p) then (p1, Inl (Panic ''assert_eq''))
               else (payload_reset, Inr DataFrame)))"

section \<open>The decoder of frames\<close>

record FrameDecoder =
  fd_header :: FrameHeaderDecoder
  fd_payload :: FramePayloadDecoder

definition decoder_default :: FrameDecoder where
  "decoder_default = \<lparr>fd_header = header_decoder_default, fd_payload = payload_decoder_default\<rparr>"

definition is_data_empty :: "FrameDecoder \<Rightarrow> bool" where
  "is_data_empty d =
     (case pd_header (fd_payload d) of
        None \<Rightarrow> True
      | Some h \<Rightarrow> is_control (fh_opcode h) \<or> pd_buf_start (fd_payload d) = length (pd_buf (fd_payload d)))"

text \<open>What the writer accepted of the data offered: the bytes, or that it would block or failed.\<close>

datatype write_result = WriteWouldBlock | WriteError string | WriteOk nat

definition write_decoded_data :: "FrameDecoder \<Rightarrow> (Bytes \<Rightarrow> write_result) \<Rightarrow> FrameDecoder \<times> StreamState result" where
  "write_decoded_data d writer =
     (if is_data_empty d then (d, Inr Normal)
      else let p = fd_payload d in
        (case writer (drop (pd_buf_start p) (pd_buf p)) of
           WriteWouldBlock \<Rightarrow> (d, Inr WouldBlock)
         | WriteError m \<Rightarrow> (d, bail_kind (WebSocket m))
         | WriteOk n \<Rightarrow>
             if n = 0 then (d, Inr Eos)
             else if pd_buf_start p + n = length (pd_buf p)
             then (d\<lparr>fd_payload := p\<lparr>pd_buf := [], pd_buf_start := 0\<rparr>\<rparr>, Inr Normal)
             else (d\<lparr>fd_payload := p\<lparr>pd_buf_start := pd_buf_start p + n\<rparr>\<rparr>, Inr Normal)))"

definition decoder_decode :: "ws_crates \<Rightarrow> FrameDecoder \<Rightarrow> Bytes \<Rightarrow> bool \<Rightarrow> FrameDecoder \<times> nat result" where
  "decoder_decode W d buf eos =
     (if pd_header (fd_payload d) \<noteq> None then
        (case payload_decode (fd_payload d) buf eos of (p, r) \<Rightarrow> (d\<lparr>fd_payload := p\<rparr>, r))
      else (case header_decode W (fd_header d) buf eos of
        (h, Inl e) \<Rightarrow> (d\<lparr>fd_header := h\<rparr>, Inl e)
      | (h, Inr offset) \<Rightarrow>
          if \<not> hd_completed h then (d\<lparr>fd_header := h\<rparr>, Inr offset)
          else (case header_finish_decoding h of
                  (h1, Inl e) \<Rightarrow> (d\<lparr>fd_header := h1\<rparr>, Inl e)
                | (h1, Inr header) \<Rightarrow>
                    (case payload_decode ((fd_payload d)\<lparr>pd_header := Some header\<rparr>) (drop offset buf) eos of
                       (p, r) \<Rightarrow> (\<lparr>fd_header = h1, fd_payload = p\<rparr>, and_then r (\<lambda>n. Inr (offset + n)))))))"

definition decoder_finish_decoding :: "ws_crates \<Rightarrow> FrameDecoder \<Rightarrow> FrameDecoder \<times> Frame result" where
  "decoder_finish_decoding W d =
     (case payload_finish_decoding W (fd_payload d) of (p, r) \<Rightarrow> (d\<lparr>fd_payload := p\<rparr>, r))"

section \<open>Laws\<close>

text \<open>What the crates document: as much as fits is copied, and a number that was written is read back.\<close>

locale ws_laws =
  fixes W :: ws_crates
  assumes encode_min: "wc_encode W n m = min n m"
    and decode_min: "wc_decode W n m eos = (if eos \<and> m < n then None else Some (min n m))"
    and u16_length: "length (wc_write_u16 W x) = 2"
    and u64_length: "length (wc_write_u64 W y) = 8"
    and u16_read: "wc_read_u16 W (wc_write_u16 W x) = x"
    and u64_read: "wc_read_u64 W (wc_write_u64 W y) = y"

section \<open>Encoding\<close>

text \<open>The bytes of the current frame that are still to be written.\<close>

definition frame_left :: "FrameEncoder \<Rightarrow> Bytes" where
  "frame_left e = (case fe_header e of None \<Rightarrow> [] | Some h \<Rightarrow> h) @
     take (fe_payload_length e - fe_payload_offset e) (drop (fe_payload_offset e) (fe_payload e))"

definition encoder_ok :: "FrameEncoder \<Rightarrow> bool" where
  "encoder_ok e \<longleftrightarrow> length (fe_payload e) = BUF_SIZE \<and>
     (case fe_header e of
        None \<Rightarrow> fe_payload_length e = 0 \<and> fe_payload_offset e = 0
      | Some [] \<Rightarrow> fe_payload_offset e < fe_payload_length e \<and> fe_payload_length e \<le> BUF_SIZE
      | Some (b # bs) \<Rightarrow> fe_payload_offset e = 0 \<and> fe_payload_length e \<le> BUF_SIZE)"

lemma encoder_ok_default: "encoder_ok encoder_default"
  by (simp add: encoder_ok_def encoder_default_def)

lemma idle_iff_nothing_left: "encoder_ok e \<Longrightarrow> encoder_is_idle e \<longleftrightarrow> frame_left e = []"
  by (auto simp: encoder_ok_def encoder_is_idle_def frame_left_def split: option.splits list.splits)

lemma encode_payload_step:
  assumes "length (fe_payload e) = BUF_SIZE" "fe_payload_offset e \<le> fe_payload_length e" "fe_payload_length e \<le> BUF_SIZE"
    and "fe_header e = None \<or> fe_header e = Some []" "fe_header e = None \<Longrightarrow> fe_payload_length e = 0"
    and run: "encode_payload e room = (e', out)"
  shows "out = take room (frame_left e) \<and> frame_left e' = drop room (frame_left e) \<and> encoder_ok e' \<and>
    fe_first_frame e' = fe_first_frame e"
proof -
  let ?l = "fe_payload_length e - fe_payload_offset e"
  have left: "frame_left e = take ?l (drop (fe_payload_offset e) (fe_payload e))"
    using assms(4) by (auto simp: frame_left_def)
  show ?thesis
  proof (cases "?l \<le> room")
    case True
    with assms run left show ?thesis
      by (auto simp: encode_payload_def Let_def frame_left_def encoder_ok_def min_def split: if_splits)
  next
    case False
    then have ne: "fe_payload_offset e + room \<noteq> fe_payload_length e" "room < ?l" by auto
    then have e': "e' = e\<lparr>fe_payload_offset := fe_payload_offset e + room\<rparr>"
      "out = take room (drop (fe_payload_offset e) (fe_payload e))"
      using run False by (auto simp: encode_payload_def Let_def min_def split: if_splits)
    with assms ne have "encoder_ok e'" by (auto simp: encoder_ok_def)
    moreover have "frame_left e' = drop room (frame_left e)"
      using e' assms(4,5) ne by (auto simp: frame_left_def left drop_take add.commute)
    ultimately show ?thesis using e' ne by (simp add: left)
  qed
qed

context ws_laws
begin

lemma encode_step:
  assumes ok: "encoder_ok e" and run: "encoder_encode W e room = (e', out)"
  shows "out = take room (frame_left e) \<and> frame_left e' = drop room (frame_left e) \<and> encoder_ok e' \<and>
    fe_first_frame e' = fe_first_frame e"
proof (cases "\<exists>b bs. fe_header e = Some (b # bs)")
  case False
  then have h: "fe_header e = None \<or> fe_header e = Some []" by (metis neq_Nil_conv option.exhaust)
  with run have "encode_payload e room = (e', out)" by (auto simp: encoder_encode_def)
  from encode_payload_step [OF _ _ _ h _ this] ok h show ?thesis by (auto simp: encoder_ok_def)
next
  case True
  then obtain b bs where h: "fe_header e = Some (b # bs)" by blast
  let ?h = "b # bs" and ?n = "min (length (b # bs)) room"
  let ?e = "e\<lparr>fe_header := Some (drop ?n ?h)\<rparr>"
  have left: "frame_left e = ?h @ frame_left (e\<lparr>fe_header := Some []\<rparr>)" by (simp add: frame_left_def h)
  show ?thesis
  proof (cases "length ?h \<le> room")
    case True
    then obtain out' where out': "encode_payload (e\<lparr>fe_header := Some []\<rparr>) (room - length ?h) = (e', out')" "out = ?h @ out'"
      using run h by (auto simp: encoder_encode_def Let_def encode_min min_def split: prod.splits)
    from encode_payload_step [OF _ _ _ _ _ out'(1)] ok h have
      "out' = take (room - length ?h) (frame_left (e\<lparr>fe_header := Some []\<rparr>))"
      "frame_left e' = drop (room - length ?h) (frame_left (e\<lparr>fe_header := Some []\<rparr>))" "encoder_ok e'"
      "fe_first_frame e' = fe_first_frame e"
      by (auto simp: encoder_ok_def)
    with True out'(2) show ?thesis by (cases room) (simp_all add: left)
  next
    case False
    then have "drop room ?h \<noteq> []" by simp
    with run h False have "e' = e\<lparr>fe_header := Some (drop room ?h)\<rparr>" "out = take room ?h"
      by (auto simp: encoder_encode_def Let_def encode_min min_def split: if_splits)
    moreover have "take room (frame_left e) = take room ?h"
      "drop room (frame_left e) = drop room ?h @ frame_left (e\<lparr>fe_header := Some []\<rparr>)"
      using False unfolding left take_append drop_append by simp_all
    moreover have "frame_left (e\<lparr>fe_header := Some (drop room ?h)\<rparr>) = drop room ?h @ frame_left (e\<lparr>fe_header := Some []\<rparr>)"
      by (simp add: frame_left_def)
    moreover have "encoder_ok (e\<lparr>fe_header := Some (drop room ?h)\<rparr>)"
      using ok h \<open>drop room ?h \<noteq> []\<close> by (simp add: encoder_ok_def split: list.splits)
    ultimately show ?thesis by simp
  qed
qed

end

text \<open>A frame written through buffers of any sizes.\<close>

fun encode_run :: "ws_crates \<Rightarrow> FrameEncoder \<Rightarrow> nat list \<Rightarrow> FrameEncoder \<times> Bytes" where
  "encode_run W e [] = (e, [])"
| "encode_run W e (room # rooms) =
     (case encoder_encode W e room of (e1, out1) \<Rightarrow>
      case encode_run W e1 rooms of (e2, out2) \<Rightarrow> (e2, out1 @ out2))"

context ws_laws
begin

lemma encode_run_all:
  "encoder_ok e \<Longrightarrow> encode_run W e rooms = (e', out) \<Longrightarrow>
     out = take (sum_list rooms) (frame_left e) \<and> frame_left e' = drop (sum_list rooms) (frame_left e) \<and>
     encoder_ok e' \<and> fe_first_frame e' = fe_first_frame e"
proof (induction rooms arbitrary: e out)
  case (Cons room rooms)
  obtain e1 out1 where 1: "encoder_encode W e room = (e1, out1)" by fastforce
  obtain out2 where 2: "encode_run W e1 rooms = (e', out2)" "out = out1 @ out2"
    using Cons.prems(2) 1 by (auto split: prod.splits)
  from encode_step [OF Cons.prems(1) 1] Cons.IH [OF _ 2(1)] 2(2) show ?case
    by (auto simp: take_add add.commute)
qed (simp add: frame_left_def)

end

subsection \<open>What is read from the server\<close>

definition trimmed :: "Bytes \<Rightarrow> Bytes" where
  "trimmed bs = rev (dropWhile (\<lambda>c. c = 0x0A) (rev bs))"

lemma trim_newlines_result:
  assumes "trim_newlines (bs @ r) (length bs) eom = (payload, n, eom')"
  shows "take n payload = trimmed bs \<and> n = length (trimmed bs) \<and> length payload = length bs + length r \<and>
    eom' = (eom \<or> bs \<noteq> [] \<and> last bs = 0x0A)"
  using assms
proof (induction bs arbitrary: r eom rule: rev_induct)
  case (snoc c bs)
  show ?case
  proof (cases "c = 0x0A")
    case True
    then have "trim_newlines (bs @ 0 # r) (length bs) True = (payload, n, eom')"
      using snoc.prems by (simp add: nth_append list_update_append)
    from snoc.IH [OF this] True show ?thesis by (auto simp: trimmed_def)
  next
    case False
    with snoc.prems show ?thesis by (auto simp: trimmed_def nth_append)
  qed
qed (simp add: trimmed_def)

lemma trimmed_length: "length (trimmed bs) \<le> length bs"
  using length_dropWhile_le [of "\<lambda>c. c = 0x0A" "rev bs"] by (simp add: trimmed_def)

lemma header_bytes_length: "length (header_bytes_of W op n fin) \<ge> 2"
  by (simp add: header_bytes_of_def)

lemma start_data:
  assumes ok: "encoder_ok e" "encoder_is_idle e" and bs: "bs \<noteq> []" "length bs \<le> BUF_SIZE" "trimmed bs \<noteq> []"
    and run: "start_encoding_data W e (ReadOk bs) = (e', r)"
  shows "r = Inr Normal \<and> encoder_ok e' \<and> fe_first_frame e' = (last bs = 0x0A) \<and>
    frame_left e' = header_bytes_of W (if fe_first_frame e then TextFrame else ContinuationFrame)
      (length (trimmed bs)) (last bs = 0x0A) @ trimmed bs"
proof -
  obtain payload n eom where t: "trim_newlines (bs @ drop (length bs) (fe_payload e)) (length bs) False = (payload, n, eom)"
    by (rule prod_cases3)
  from ok have len: "length (fe_payload e) = BUF_SIZE" "fe_payload_offset e = 0"
    by (auto simp: encoder_ok_def encoder_is_idle_def)
  from trim_newlines_result [OF t] bs len have r: "take n payload = trimmed bs" "n = length (trimmed bs)"
    "length payload = BUF_SIZE" "eom = (last bs = 0x0A)" "n \<noteq> 0" "n \<le> BUF_SIZE"
    using trimmed_length [of bs] by auto
  have ne: "header_bytes_of W op k fin \<noteq> []" for op k fin by (simp add: header_bytes_of_def)
  from run ok(2) bs(1) t r(5) have e': "r = Inr Normal" "e' = start_encoding_header W
      (if fe_first_frame e then TextFrame else ContinuationFrame) n eom (e\<lparr>fe_payload := payload, fe_first_frame := eom\<rparr>)"
    by (simp_all add: start_encoding_data_def)
  with r len ne show ?thesis
    by (auto simp: start_encoding_header_def frame_left_def encoder_ok_def split: list.splits)
qed

text \<open>
  When the newline that ends a message arrives alone, no frame says so, and the next message
  continues the one before.
\<close>

lemma lone_newline_lost:
  assumes "encoder_ok e" "encoder_is_idle e" "\<not> fe_first_frame e"
  shows "\<exists>e'. start_encoding_data W e (ReadOk [0x0A]) = (e', Inr Normal) \<and> frame_left e' = [] \<and> \<not> fe_first_frame e'"
proof -
  from assms obtain x xs where "fe_payload e = x # xs"
    by (cases "fe_payload e") (auto simp: encoder_ok_def BUF_SIZE_def)
  with assms show ?thesis
    by (auto simp: start_encoding_data_def encoder_is_idle_def frame_left_def encoder_ok_def)
qed

section \<open>Decoding\<close>

lemma low_bits:
  assumes "n < 128"
  shows "(of_nat n :: u8) AND 0x7F = of_nat n" "(of_nat n :: u8) AND MASK_FLAG = 0"
proof -
  have m: "(0x7F :: u8) = mask 7" by (simp add: mask_eq_exp_minus_1)
  show *: "(of_nat n :: u8) AND 0x7F = of_nat n"
    using assms by (simp add: m flip: take_bit_eq_mask) (simp add: take_bit_of_nat take_bit_nat_eq_self)
  have "(of_nat n :: u8) AND MASK_FLAG = (of_nat n AND 0x7F) AND MASK_FLAG" by (simp only: *)
  also have "\<dots> = 0" by (simp add: MASK_FLAG_def and.assoc)
  finally show "(of_nat n :: u8) AND MASK_FLAG = 0" .
qed

lemma small_ucast: "n < 128 \<Longrightarrow> ucast (of_nat n :: u8) = (of_nat n :: u64)"
  by (simp add: unsigned_of_nat take_bit_nat_eq_self)

lemma header_from_bytes_encoded:
  "header_from_bytes (if fin then FIN_FLAG OR opcode_u8 op else opcode_u8 op) b1 =
     Inr \<lparr>fh_fin_flag = fin, fh_opcode = op,
          fh_mask = (if b1 AND MASK_FLAG \<noteq> 0 then Some [0, 0, 0, 0] else None), fh_payload_len = ucast (b1 AND 0x7F)\<rparr>"
  by (cases op; cases fin) (simp_all add: header_from_bytes_def opcode_from_u8_def FIN_FLAG_def)

text \<open>The header that \<open>start_encoding_header\<close> describes.\<close>

definition plain_header :: "Opcode \<Rightarrow> nat \<Rightarrow> bool \<Rightarrow> FrameHeader" where
  "plain_header op n fin = \<lparr>fh_fin_flag = fin, fh_opcode = op, fh_mask = None, fh_payload_len = of_nat n\<rparr>"

context ws_laws
begin

lemma header_decode_two:
  assumes "header_from_bytes b0 b1 = Inr header" "length ext = extended_size header"
  shows "header_decode W header_decoder_default (b0 # b1 # ext @ rest) False =
    (header_decoder_default\<lparr>hd_extended_size := extended_size header, hd_header := Some (complete_header W header ext),
       hd_completed := True\<rparr>, Inr (2 + length ext))"
  using assms
  by (simp add: header_decode_def header_decoder_default_def decode_min Let_def header_decode_extended_def numeral_2_eq_2)

lemma header_roundtrip:
  assumes "n < 2 ^ 64"
  shows "\<exists>h. header_decode W header_decoder_default (header_bytes_of W op n fin @ rest) False =
      (h, Inr (length (header_bytes_of W op n fin))) \<and> hd_completed h \<and> hd_header h = Some (plain_header op n fin)"
proof -
  let ?b = "if fin then FIN_FLAG OR opcode_u8 op else opcode_u8 op"
  consider "n < 126" | "126 \<le> n" "n < 0x10000" | "0x10000 \<le> n" by linarith
  then show ?thesis
  proof cases
    case 1
    then have u: "unat (of_nat n :: u64) = n" by (simp add: unat_of_nat take_bit_nat_eq_self)
    have "of_nat n \<noteq> x" if "n < unat x" for x :: u64 using u that by auto
    from this [of 126] this [of 127] 1 have "of_nat n \<noteq> (126 :: u64)" "of_nat n \<noteq> (127 :: u64)" by simp_all
    with 1 header_decode_two [OF header_from_bytes_encoded [of fin op "of_nat n"], of "[]" rest] show ?thesis
      by (simp add: low_bits small_ucast extended_size_def complete_header_def header_bytes_of_def plain_header_def)
  next
    case 2
    have "ucast (of_nat n :: u16) = (of_nat n :: u64)" using 2 by (simp add: unsigned_of_nat take_bit_nat_eq_self)
    with 2 header_decode_two [OF header_from_bytes_encoded [of fin op 126], of "wc_write_u16 W (of_nat n)" rest] show ?thesis
      by (simp add: MASK_FLAG_def extended_size_def complete_header_def header_bytes_of_def plain_header_def u16_length u16_read)
  next
    case 3
    with header_decode_two [OF header_from_bytes_encoded [of fin op 127], of "wc_write_u64 W (of_nat n)" rest] show ?thesis
      by (simp add: MASK_FLAG_def extended_size_def complete_header_def header_bytes_of_def plain_header_def u64_length u64_read)
  qed
qed

end

subsection \<open>Relaying a frame\<close>

lemma unmask_append:
  "k < 4 \<Longrightarrow> unmask key k (a @ b) = unmask key k a @ unmask key ((k + length a) mod 4) b"
proof (induction a arbitrary: k)
  case (Cons x a)
  have "((k + 1) mod 4 + length a) mod 4 = (k + length (x # a)) mod 4" by (simp add: mod_add_left_eq)
  with Cons.IH [of "(k + 1) mod 4"] show ?case by simp
qed simp

lemma unmask_involution: "unmask key k (unmask key k bs) = bs"
  by (induction bs arbitrary: k) (simp_all add: xor.assoc)

lemma length_unmask [simp]: "length (unmask key k bs) = length bs"
  by (induction bs arbitrary: k) simp_all

text \<open>The data of a frame while bytes arrive from the client and the server's connection accepts some.\<close>

datatype relay_event = Arrive Bytes | Drain nat

fun relay_run :: "ws_crates \<Rightarrow> FrameDecoder \<Rightarrow> relay_event list \<Rightarrow> FrameDecoder \<times> Bytes \<times> Bytes" where
  "relay_run W d [] = (d, [], [])"
| "relay_run W d (Arrive buf # evs) =
     (case decoder_decode W d buf False of
        (d1, Inl e) \<Rightarrow> (d1, [], [])
      | (d1, Inr n) \<Rightarrow>
          (case relay_run W d1 evs of (d2, consumed, written) \<Rightarrow> (d2, take n buf @ consumed, written)))"
| "relay_run W d (Drain k # evs) =
     (let out = (if is_data_empty d then [] else take k (drop (pd_buf_start (fd_payload d)) (pd_buf (fd_payload d))))
      in case write_decoded_data d (\<lambda>b. WriteOk (length (take k b))) of
           (d1, r) \<Rightarrow> (case relay_run W d1 evs of (d2, consumed, written) \<Rightarrow> (d2, consumed, out @ written)))"

definition plain :: "FrameHeader \<Rightarrow> Bytes \<Rightarrow> Bytes" where
  "plain h bs = (case fh_mask h of None \<Rightarrow> bs | Some key \<Rightarrow> unmask key 0 bs)"

lemma length_plain [simp]: "length (plain h bs) = length bs"
  by (simp add: plain_def split: option.splits)

definition relay_inv :: "FrameHeader \<Rightarrow> FrameDecoder \<Rightarrow> Bytes \<Rightarrow> Bytes \<Rightarrow> bool" where
  "relay_inv h d consumed written \<longleftrightarrow>
     (let p = fd_payload d in
      pd_header p = Some h \<and> pd_payload_offset p = length consumed \<and> length consumed \<le> unat (fh_payload_len h) \<and>
      (fh_mask h \<noteq> None \<longrightarrow> pd_mask_offset p = length consumed mod 4) \<and> pd_buf_start p \<le> length (pd_buf p) \<and>
      written @ drop (pd_buf_start p) (pd_buf p) = plain h consumed)"

lemma relay_arrive:
  assumes inv: "relay_inv h d consumed written" and run: "decoder_decode W d buf False = (d', r)"
  shows "\<exists>n. r = Inr n \<and> relay_inv h d' (consumed @ take n buf) written"
proof -
  let ?p = "fd_payload d"
  define n where "n = min (min (unat (fh_payload_len h) - length consumed) (length buf)) (BUF_SIZE - length (pd_buf ?p))"
  from inv have p: "pd_header ?p = Some h" "pd_payload_offset ?p = length consumed" "length consumed \<le> unat (fh_payload_len h)"
    "pd_buf_start ?p \<le> length (pd_buf ?p)" "written @ drop (pd_buf_start ?p) (pd_buf ?p) = plain h consumed"
    by (simp_all add: relay_inv_def Let_def)
  have n: "length consumed + n \<le> unat (fh_payload_len h)" "n \<le> length buf" using p(3) by (auto simp: n_def)
  have m: "fh_mask h = Some key \<Longrightarrow> pd_mask_offset ?p = length consumed mod 4" for key
    using inv by (simp add: relay_inv_def Let_def)
  show ?thesis
  proof (cases "fh_mask h")
    case None
    with run p have "r = Inr n" "d' = d\<lparr>fd_payload := ?p\<lparr>pd_buf := pd_buf ?p @ take n buf, pd_payload_offset := length consumed + n\<rparr>\<rparr>"
      by (simp_all add: decoder_decode_def payload_decode_def Let_def n_def)
    with None p n show ?thesis by (simp add: relay_inv_def Let_def plain_def flip: append_assoc)
  next
    case (Some key)
    with run p have "r = Inr n" "d' = d\<lparr>fd_payload := ?p\<lparr>pd_buf := pd_buf ?p @ unmask key (pd_mask_offset ?p) (take n buf),
        pd_payload_offset := length consumed + n, pd_mask_offset := (pd_mask_offset ?p + n) mod 4\<rparr>\<rparr>"
      by (simp_all add: decoder_decode_def payload_decode_def Let_def n_def)
    with Some p n m [OF Some] show ?thesis
      by (simp add: relay_inv_def Let_def plain_def unmask_append mod_add_left_eq flip: append_assoc)
  qed
qed

lemma relay_drain:
  assumes inv: "relay_inv h d consumed written" and op: "\<not> is_control (fh_opcode h)"
    and run: "write_decoded_data d (\<lambda>b. WriteOk (length (take k b))) = (d', r)"
  shows "relay_inv h d' consumed (written @
    (if is_data_empty d then [] else take k (drop (pd_buf_start (fd_payload d)) (pd_buf (fd_payload d)))))"
proof (cases "is_data_empty d")
  case True
  with inv run show ?thesis by (simp add: write_decoded_data_def)
next
  case False
  let ?p = "fd_payload d"
  let ?avail = "drop (pd_buf_start ?p) (pd_buf ?p)"
  from inv have p: "pd_header ?p = Some h" "pd_buf_start ?p \<le> length (pd_buf ?p)" "written @ ?avail = plain h consumed"
    by (simp_all add: relay_inv_def Let_def)
  from False p(1) op have "pd_buf_start ?p \<noteq> length (pd_buf ?p)" by (simp add: is_data_empty_def)
  consider "k = 0" | "k \<noteq> 0" "length ?avail \<le> k" | "k \<noteq> 0" "k < length ?avail" by linarith
  then show ?thesis
  proof cases
    case 1
    with False run inv show ?thesis by (simp add: write_decoded_data_def Let_def)
  next
    case 2
    with False run p \<open>_ \<noteq> length (pd_buf ?p)\<close> have "d' = d\<lparr>fd_payload := ?p\<lparr>pd_buf := [], pd_buf_start := 0\<rparr>\<rparr>"
      by (simp add: write_decoded_data_def Let_def split: if_splits)
    with 2 False inv show ?thesis by (simp add: relay_inv_def Let_def)
  next
    case 3
    with False run p have "d' = d\<lparr>fd_payload := ?p\<lparr>pd_buf_start := pd_buf_start ?p + k\<rparr>\<rparr>"
      by (simp add: write_decoded_data_def Let_def split: if_splits)
    moreover have "take k ?avail @ drop (pd_buf_start ?p + k) (pd_buf ?p) = ?avail"
      using append_take_drop_id [of k ?avail] by (simp add: add.commute)
    ultimately show ?thesis using 3 False inv by (simp add: relay_inv_def Let_def)
  qed
qed

lemma relay_run_inv:
  assumes "relay_inv h d consumed written" "\<not> is_control (fh_opcode h)" "relay_run W d evs = (d', consumed', written')"
  shows "relay_inv h d' (consumed @ consumed') (written @ written')"
  using assms
proof (induction evs arbitrary: d consumed written consumed' written')
  case (Cons ev evs)
  show ?case
  proof (cases ev)
    case (Arrive buf)
    obtain d1 r where d1: "decoder_decode W d buf False = (d1, r)" by fastforce
    from relay_arrive [OF Cons.prems(1) d1] obtain n where n: "r = Inr n" "relay_inv h d1 (consumed @ take n buf) written" by blast
    obtain c where c: "relay_run W d1 evs = (d', c, written')" "consumed' = take n buf @ c"
      using Cons.prems(3) Arrive d1 n(1) by (auto split: prod.splits)
    from Cons.IH [OF n(2) Cons.prems(2) c(1)] c(2) show ?thesis by simp
  next
    case (Drain k)
    obtain d1 r where d1: "write_decoded_data d (\<lambda>b. WriteOk (length (take k b))) = (d1, r)" by fastforce
    let ?out = "if is_data_empty d then [] else take k (drop (pd_buf_start (fd_payload d)) (pd_buf (fd_payload d)))"
    obtain w where w: "relay_run W d1 evs = (d', consumed', w)" "written' = ?out @ w"
      using Cons.prems(3) Drain d1 by (auto simp: Let_def simp del: length_take split: prod.splits)
    from Cons.IH [OF relay_drain [OF Cons.prems(1,2) d1] Cons.prems(2) w(1)] w(2) show ?thesis by simp
  qed
qed simp

section \<open>The crates\<close>

definition std_ws :: ws_crates where
  "std_ws = \<lparr>wc_encode = min, wc_decode = (\<lambda>n m eos. if eos \<and> m < n then None else Some (min n m)),
     wc_write_u16 = (\<lambda>x. rev (le_bytes 2 (unat x))), wc_write_u64 = (\<lambda>x. rev (le_bytes 8 (unat x))),
     wc_read_u16 = (\<lambda>b. of_nat (le_value (rev b))), wc_read_u64 = (\<lambda>b. of_nat (le_value (rev b)))\<rparr>"

lemma word_le_value:
  fixes x :: "'a::len word"
  assumes "2 ^ LENGTH('a) = (256 :: nat) ^ k"
  shows "of_nat (le_value (le_bytes k (unat x))) = x"
proof -
  have "unat x < 256 ^ k" using unsigned_less [where 'a = nat, of x] assms by simp
  then show ?thesis by (simp add: le_value_bytes)
qed

interpretation stdws: ws_laws std_ws
  by unfold_locales (simp_all add: std_ws_def word_le_value)

definition demo_message :: Bytes where
  "demo_message = [0x7B, 0x7D, 0x0A]"

section \<open>Properties\<close>



text \<open>C30: The data of a client's frame reaches the RPC server unchanged, whatever the sizes in which it
  arrives and is written on: what was written is always a prefix of the unmasked bytes received, and
  when the frame is complete it is all of them, as many as the header says.\<close>

theorem ws_relay_exact:
  assumes "fd_payload d = payload_decoder_default\<lparr>pd_header := Some h\<rparr>" "\<not> is_control (fh_opcode h)" "fh_mask h = Some key"
    and "relay_run W d evs = (d', consumed, written)"
  shows "prefix written (unmask key 0 consumed) \<and>
    (payload_is_idle (fd_payload d') \<longrightarrow>
       length consumed = unat (fh_payload_len h) \<and> written = unmask key 0 consumed \<and> consumed = unmask key 0 written)"
proof -
  have "relay_inv h d [] []" using assms(1) by (simp add: relay_inv_def payload_decoder_default_def plain_def split: option.splits)
  from relay_run_inv [OF this assms(2,4)] assms(3) have inv: "pd_header (fd_payload d') = Some h"
    "pd_payload_offset (fd_payload d') = length consumed"
    "written @ drop (pd_buf_start (fd_payload d')) (pd_buf (fd_payload d')) = unmask key 0 consumed"
    by (simp_all add: relay_inv_def Let_def plain_def)
  have "prefix written (unmask key 0 consumed)" by (simp flip: inv(3))
  moreover have "length consumed = unat (fh_payload_len h)" "written = unmask key 0 consumed" if "payload_is_idle (fd_payload d')"
    using that inv assms(2) by (simp_all add: payload_is_idle_def flip: inv(3))
  ultimately show ?thesis by (metis unmask_involution)
qed

definition demo_masked :: FrameDecoder where
  "demo_masked = decoder_default\<lparr>fd_payload := payload_decoder_default\<lparr>pd_header := Some \<lparr>fh_fin_flag = True,
     fh_opcode = TextFrame, fh_mask = Some [1, 2, 3, 4], fh_payload_len = 5\<rparr>\<rparr>\<rparr>"

theorem ws_relay_exact_witness:
  "\<exists>d' written. relay_run std_ws demo_masked [Arrive [9, 9], Drain 1, Arrive [9, 9, 9, 9], Drain 7] = (d', [9, 9, 9, 9, 9], written) \<and>
     written = [8, 11, 10, 13, 8]"
proof -
  let ?h = "\<lparr>fh_fin_flag = True, fh_opcode = TextFrame, fh_mask = Some [1, 2, 3, 4], fh_payload_len = 5\<rparr>"
  have run: "relay_run std_ws demo_masked [Arrive [9, 9], Drain 1, Arrive [9, 9, 9, 9], Drain 7] =
      (demo_masked\<lparr>fd_payload := (fd_payload demo_masked)\<lparr>pd_payload_offset := 5, pd_mask_offset := 1\<rparr>\<rparr>, [9, 9, 9, 9, 9], [8, 11, 10, 13, 8])"
    by (simp add: demo_masked_def decoder_default_def payload_decoder_default_def decoder_decode_def payload_decode_def
        BUF_SIZE_def write_decoded_data_def is_data_empty_def Let_def)
  have "fd_payload demo_masked = payload_decoder_default\<lparr>pd_header := Some ?h\<rparr>" by (simp add: demo_masked_def)
  from ws_relay_exact [OF this _ _ run, of "[1, 2, 3, 4]"] run show ?thesis by simp
qed

end
