(* ===== verification/WsChannel.thy ===== *)
theory WsChannel
  imports WsFrame DosLimit
begin

text \<open>
  A channel of the WebSocket proxy (\<^verbatim>\<open>src/src/wstcp/channel.rs\<close>, \<^verbatim>\<open>src/src/wstcp/util.rs\<close>,
  \<^verbatim>\<open>src/src/wstcp/mod.rs\<close>): the check of the handshake request, the relay between the two streams,
  and the closing of the channel.
\<close>

section \<open>The handshake\<close>

record http_request =
  rq_method :: string
  rq_is_http_1_1 :: bool
  rq_fields :: "(string \<times> string) list"

definition lower :: "char \<Rightarrow> char" where
  "lower c = (let n = of_char c :: nat in if 65 \<le> n \<and> n \<le> 90 then char_of (n + 32) else c)"

definition eq_ignore_ascii_case :: "string \<Rightarrow> string \<Rightarrow> bool" where
  "eq_ignore_ascii_case a b \<longleftrightarrow> map lower a = map lower b"

text \<open>\<^verbatim>\<open>str::split(',')\<close> and \<^verbatim>\<open>str::trim\<close> on ASCII text.\<close>

fun split_comma :: "string \<Rightarrow> string list" where
  "split_comma [] = [[]]"
| "split_comma (c # s) =
     (if c = CHR '','' then [] # split_comma s
      else (case split_comma s of [] \<Rightarrow> [[c]] | p # ps \<Rightarrow> (c # p) # ps))"

definition is_space :: "char \<Rightarrow> bool" where
  "is_space c \<longleftrightarrow> (let n = of_char c :: nat in n = 32 \<or> 9 \<le> n \<and> n \<le> 13)"

definition trim :: "string \<Rightarrow> string" where
  "trim s = rev (dropWhile is_space (rev (dropWhile is_space s)))"

definition has_upgrade :: "string \<Rightarrow> bool" where
  "has_upgrade field_value = list_ex (\<lambda>v. trim v = ''Upgrade'') (split_comma field_value)"

fun handshake_fields :: "(string \<times> string) list \<Rightarrow> string option \<Rightarrow> string option result" where
  "handshake_fields [] key = Inr key"
| "handshake_fields ((name, field_value) # rest) key =
     (if eq_ignore_ascii_case name ''upgrade'' then
        (if field_value \<noteq> ''websocket''
         then bail_kind (rpc_invalid_request (''Invalid value for field '' @ [CHR 0x27] @ ''name''))
         else handshake_fields rest key)
      else if eq_ignore_ascii_case name ''connection'' then
        (if \<not> has_upgrade field_value
         then bail_kind (rpc_invalid_request (''Expected value '' @ [CHR 0x27] @ ''Upgrade'' @ [CHR 0x27] @
                '' not found in field '' @ [CHR 0x27] @ ''connection'' @ [CHR 0x27]))
         else handshake_fields rest key)
      else if eq_ignore_ascii_case name ''sec-websocket-key'' then handshake_fields rest (Some field_value)
      else if eq_ignore_ascii_case name ''sec-websocket-version'' \<and> field_value \<noteq> ''13''
      then bail_kind (rpc_invalid_request ''Websocket verison not supported'')
      else handshake_fields rest key)"

definition handle_handshake_request :: "http_request \<Rightarrow> string result" where
  "handle_handshake_request request =
     (if rq_method request \<noteq> ''GET'' then bail_kind (rpc_invalid_request ''Not a GET request'')
      else if \<not> rq_is_http_1_1 request then bail_kind (rpc_invalid_request ''Unsupported HTTP version'')
      else and_then (handshake_fields (rq_fields request) None) (\<lambda>key.
        ok_or (rpc_invalid_request ''sec-websocket-key missing'') key))"

definition GUID :: string where
  "GUID = ''258EAFA5-E914-47DA-95CA-C5AB0DC85B11''"

text \<open>
  What is not code of the repository, over a state \<open>'w\<close> of the two sockets, the read and the write buffer, the
  HTTP decoder, the connection attempt and the HTTP encoder: \<^verbatim>\<open>fill\<close> and \<^verbatim>\<open>flush\<close> of the buffers
  and their states; the request decoded so far (no request while the decoder is not idle); the attempt to
  connect (nothing while it is pending); the writing of a response (whether the encoder is idle after
  it); a read and a write of the server's stream; the running of a frame encoder into the write buffer
  and of a frame decoder on the read buffer; SHA-1 and base64.
\<close>

record http_response =
  rs_status :: nat
  rs_reason :: string
  rs_fields :: "(string \<times> string) list"

record 'w channel_io =
  io_fill :: "'w \<Rightarrow> 'w \<times> unit result"
  io_flush :: "'w \<Rightarrow> 'w \<times> unit result"
  io_rbuf_state :: "'w \<Rightarrow> StreamState"
  io_wbuf_state :: "'w \<Rightarrow> StreamState"
  io_wbuf_is_empty :: "'w \<Rightarrow> bool"
  io_request :: "'w \<Rightarrow> 'w \<times> http_request option result"
  io_start_connect :: "'w \<Rightarrow> 'w"
  io_poll_connect :: "'w \<Rightarrow> 'w \<times> unit result option"
  io_respond :: "http_response \<Rightarrow> 'w \<Rightarrow> 'w \<times> bool result"
  io_read :: "'w \<Rightarrow> 'w \<times> read_result"
  io_write :: "Bytes \<Rightarrow> 'w \<Rightarrow> 'w \<times> write_result"
  io_encode :: "(FrameEncoder \<Rightarrow> nat \<Rightarrow> FrameEncoder \<times> Bytes) \<Rightarrow> FrameEncoder \<Rightarrow> 'w \<Rightarrow> 'w \<times> FrameEncoder \<times> unit result"
  io_decode :: "(FrameDecoder \<Rightarrow> Bytes \<Rightarrow> bool \<Rightarrow> FrameDecoder \<times> nat result) \<Rightarrow> FrameDecoder \<Rightarrow> 'w \<Rightarrow> 'w \<times> FrameDecoder \<times> unit result"
  io_sha1 :: "string \<Rightarrow> Bytes"
  io_base64 :: "Bytes \<Rightarrow> string"

definition calc_accept_hash :: "'w channel_io \<Rightarrow> string \<Rightarrow> string" where
  "calc_accept_hash IO key = io_base64 IO (io_sha1 IO (key @ GUID))"

datatype Handshake = RecvRequest | ConnectToRealServer string | SendResponse http_response bool | HandshakeDone

definition response_accepted :: "'w channel_io \<Rightarrow> string \<Rightarrow> Handshake" where
  "response_accepted IO key = SendResponse
     \<lparr>rs_status = 101, rs_reason = ''Switching Protocols'',
      rs_fields = [(''Upgrade'', ''websocket''), (''Connection'', ''Upgrade''),
                   (''Sec-WebSocket-Accept'', calc_accept_hash IO key)]\<rparr> True"

definition response_bad_request :: Handshake where
  "response_bad_request = SendResponse
     \<lparr>rs_status = 400, rs_reason = ''Bad Request'', rs_fields = [(''Content-Length'', ''0'')]\<rparr> False"

definition response_unavailable :: Handshake where
  "response_unavailable = SendResponse
     \<lparr>rs_status = 503, rs_reason = ''Service Unavailable'', rs_fields = [(''Content-Length'', ''0'')]\<rparr> False"

datatype Closing = NotYet | InProgress bool | Closed

text \<open>The channel; \<open>pc_real_stream\<close> is whether the stream to the server is there.\<close>

record 'w ProxyChannel =
  pc_io :: 'w
  pc_real_stream :: bool
  pc_real_stream_rstate :: StreamState
  pc_real_stream_wstate :: StreamState
  pc_handshake :: Handshake
  pc_closing :: Closing
  pc_pending_pong :: "Bytes option"
  pc_pending_close :: "Frame option"
  pc_frame_decoder :: FrameDecoder
  pc_frame_encoder :: FrameEncoder

definition channel_new :: "'w \<Rightarrow> 'w ProxyChannel" where
  "channel_new w = \<lparr>pc_io = w, pc_real_stream = False, pc_real_stream_rstate = Normal,
     pc_real_stream_wstate = Normal, pc_handshake = RecvRequest, pc_closing = NotYet,
     pc_pending_pong = None, pc_pending_close = None, pc_frame_decoder = decoder_default,
     pc_frame_encoder = encoder_default\<rparr>"

text \<open>
  A pass of the loop of \<^verbatim>\<open>process_handshake\<close> goes on (no flag) or leaves the loop with the value returned.
  The state that was taken out by \<^verbatim>\<open>mem::replace\<close> is \<^verbatim>\<open>Done\<close> where no other is put back.
\<close>

definition handshake_pass :: "'w channel_io \<Rightarrow> 'w ProxyChannel \<Rightarrow> 'w ProxyChannel \<times> bool option" where
  "handshake_pass IO c =
     (case pc_handshake c of
        RecvRequest \<Rightarrow>
          (case io_request IO (pc_io c) of
             (w, Inr None) \<Rightarrow> (c\<lparr>pc_io := w\<rparr>, Some True)
           | (w, Inl e) \<Rightarrow> (c\<lparr>pc_io := w, pc_handshake := response_bad_request\<rparr>, None)
           | (w, Inr (Some request)) \<Rightarrow>
               (case handle_handshake_request request of
                  Inl e \<Rightarrow> (c\<lparr>pc_io := w, pc_handshake := response_bad_request\<rparr>, None)
                | Inr key \<Rightarrow> (c\<lparr>pc_io := io_start_connect IO w, pc_handshake := ConnectToRealServer key\<rparr>, None)))
      | ConnectToRealServer key \<Rightarrow>
          (case io_poll_connect IO (pc_io c) of
             (w, None) \<Rightarrow> (c\<lparr>pc_io := w\<rparr>, Some True)
           | (w, Some (Inl e)) \<Rightarrow> (c\<lparr>pc_io := w, pc_handshake := response_unavailable\<rparr>, None)
           | (w, Some (Inr u)) \<Rightarrow>
               (c\<lparr>pc_io := w, pc_handshake := response_accepted IO key, pc_real_stream := True\<rparr>, None))
      | SendResponse response succeeded \<Rightarrow>
          (case io_respond IO response (pc_io c) of
             (w, Inl e) \<Rightarrow> (c\<lparr>pc_io := w, pc_handshake := HandshakeDone\<rparr>, Some False)
           | (w, Inr idle) \<Rightarrow>
               if idle then (c\<lparr>pc_io := w, pc_handshake := HandshakeDone\<rparr>, Some succeeded)
               else (c\<lparr>pc_io := w\<rparr>, Some True))
      | HandshakeDone \<Rightarrow> (c, Some True))"

fun handshake_rank :: "Handshake \<Rightarrow> nat" where
  "handshake_rank RecvRequest = 2"
| "handshake_rank (ConnectToRealServer key) = 1"
| "handshake_rank _ = 0"

lemma handshake_pass_rank:
  "handshake_pass IO c = (c', None) \<Longrightarrow> handshake_rank (pc_handshake c') < handshake_rank (pc_handshake c)"
  by (auto simp: handshake_pass_def response_bad_request_def response_unavailable_def response_accepted_def
      split: Handshake.splits prod.splits sum.splits option.splits if_splits)

function process_handshake :: "'w channel_io \<Rightarrow> 'w ProxyChannel \<Rightarrow> 'w ProxyChannel \<times> bool" where
  "process_handshake IO c =
     (case handshake_pass IO c of
        (c', Some flag) \<Rightarrow> (c', flag)
      | (c', None) \<Rightarrow> process_handshake IO c')"
  by pat_completeness auto
termination
  by (relation "measure (\<lambda>(IO, c). handshake_rank (pc_handshake c))") (auto dest: handshake_pass_rank [OF sym])

declare process_handshake.simps [simp del]

section \<open>The relay\<close>

definition starts_closing :: "u16 \<Rightarrow> bool \<Rightarrow> 'w ProxyChannel \<Rightarrow> 'w ProxyChannel \<times> unit result" where
  "starts_closing code client_closed c =
     (if pc_closing c \<noteq> NotYet then (c, bail ''starts_closing called on invalid closing state'')
      else (c\<lparr>pc_real_stream := False, pc_real_stream_rstate := Eos, pc_real_stream_wstate := Eos,
              pc_closing := InProgress client_closed, pc_pending_close := Some (CloseFrame code [])\<rparr>, Inr ()))"

definition handle_frame :: "Frame \<Rightarrow> 'w ProxyChannel \<Rightarrow> 'w ProxyChannel \<times> unit result" where
  "handle_frame frame c =
     (case frame of
        CloseFrame code reason \<Rightarrow>
          (case pc_closing c of
             NotYet \<Rightarrow> starts_closing code True c
           | InProgress client_closed \<Rightarrow> (c\<lparr>pc_closing := InProgress True\<rparr>, Inr ())
           | Closed \<Rightarrow> (c, bail ''invalid closing state Closed''))
      | PingFrame data \<Rightarrow> (if pc_closing c = NotYet then c\<lparr>pc_pending_pong := Some data\<rparr> else c, Inr ())
      | PongFrame data \<Rightarrow> (c, Inr ())
      | DataFrame \<Rightarrow> (c, Inr ()))"

text \<open>A read takes place only if the encoder is idle, a write only if there is data.\<close>

definition real_read :: "'w channel_io \<Rightarrow> ws_crates \<Rightarrow> 'w ProxyChannel \<Rightarrow> 'w ProxyChannel \<times> unit result" where
  "real_read IO W c =
     (let (w, rd) = (if encoder_is_idle (pc_frame_encoder c) then io_read IO (pc_io c) else (pc_io c, ReadWouldBlock)) in
      case start_encoding_data W (pc_frame_encoder c) rd of
        (e, Inl err) \<Rightarrow> (c\<lparr>pc_io := w, pc_frame_encoder := e\<rparr>, Inl err)
      | (e, Inr st) \<Rightarrow> (c\<lparr>pc_io := w, pc_frame_encoder := e, pc_real_stream_rstate := st\<rparr>, Inr ()))"

definition real_write :: "'w channel_io \<Rightarrow> 'w ProxyChannel \<Rightarrow> 'w ProxyChannel \<times> unit result" where
  "real_write IO c =
     (let d = pc_frame_decoder c; data = drop (pd_buf_start (fd_payload d)) (pd_buf (fd_payload d));
          w = (if is_data_empty d then pc_io c else fst (io_write IO data (pc_io c))) in
      case write_decoded_data d (\<lambda>bs. snd (io_write IO bs (pc_io c))) of
        (d', Inl err) \<Rightarrow> (c\<lparr>pc_io := w, pc_frame_decoder := d'\<rparr>, Inl err)
      | (d', Inr st) \<Rightarrow> (c\<lparr>pc_io := w, pc_frame_decoder := d', pc_real_stream_wstate := st\<rparr>, Inr ()))"

definition handle_real_stream :: "'w channel_io \<Rightarrow> ws_crates \<Rightarrow> 'w ProxyChannel \<Rightarrow> 'w ProxyChannel \<times> unit result" where
  "handle_real_stream IO W c =
     (if pc_real_stream c then
        (case real_read IO W c of (c1, Inl e) \<Rightarrow> (c1, Inl e) | (c1, Inr u) \<Rightarrow> real_write IO c1)
      else (c, Inr ()))"

text \<open>\<^verbatim>\<open>handle_ws_stream\<close>: a pong, then a close frame that waits is started; the encoder and the decoder run.\<close>

definition start_pong :: "ws_crates \<Rightarrow> 'w ProxyChannel \<Rightarrow> 'w ProxyChannel \<times> unit result" where
  "start_pong W c =
     (case pc_pending_pong c of
        Some data \<Rightarrow>
          if encoder_is_idle (pc_frame_encoder c) then
            (case encoder_start_encoding W (pc_frame_encoder c) (PongFrame data) of
               (e, r) \<Rightarrow> (c\<lparr>pc_pending_pong := None, pc_frame_encoder := e\<rparr>, r))
          else (c, Inr ())
      | None \<Rightarrow> (c, Inr ()))"

definition start_close :: "ws_crates \<Rightarrow> 'w ProxyChannel \<Rightarrow> 'w ProxyChannel \<times> unit result" where
  "start_close W c =
     (case pc_pending_close c of
        Some frame \<Rightarrow>
          if encoder_is_idle (pc_frame_encoder c) then
            (case encoder_start_encoding W (pc_frame_encoder c) frame of
               (e, r) \<Rightarrow> (c\<lparr>pc_pending_close := None, pc_frame_encoder := e\<rparr>, r))
          else (c, Inr ())
      | None \<Rightarrow> (c, Inr ()))"

definition ws_encode :: "'w channel_io \<Rightarrow> ws_crates \<Rightarrow> 'w ProxyChannel \<Rightarrow> 'w ProxyChannel \<times> unit result" where
  "ws_encode IO W c =
     (case io_encode IO (encoder_encode W) (pc_frame_encoder c) (pc_io c) of
        (w, e, Inl err) \<Rightarrow> (c\<lparr>pc_io := w, pc_frame_encoder := e\<rparr>, Inl err)
      | (w, e, Inr u) \<Rightarrow>
          (let c1 = c\<lparr>pc_io := w, pc_frame_encoder := e\<rparr> in
           (if encoder_is_idle e \<and> pc_closing c1 = InProgress True then c1\<lparr>pc_closing := Closed\<rparr> else c1, Inr ())))"

definition ws_decode :: "'w channel_io \<Rightarrow> ws_crates \<Rightarrow> 'w ProxyChannel \<Rightarrow> 'w ProxyChannel \<times> unit result" where
  "ws_decode IO W c =
     (case io_decode IO (decoder_decode W) (pc_frame_decoder c) (pc_io c) of
        (w, d, Inl err) \<Rightarrow> (c\<lparr>pc_io := w, pc_frame_decoder := d\<rparr>, Inl err)
      | (w, d, Inr u) \<Rightarrow>
          (let c1 = c\<lparr>pc_io := w, pc_frame_decoder := d\<rparr> in
           if payload_is_idle (fd_payload d) then
             (case decoder_finish_decoding W d of
                (d', Inl err) \<Rightarrow> (c1\<lparr>pc_frame_decoder := d'\<rparr>, Inl err)
              | (d', Inr frame) \<Rightarrow> handle_frame frame (c1\<lparr>pc_frame_decoder := d'\<rparr>))
           else (c1, Inr ())))"

text \<open>Steps in sequence, up to the first error (the operator \<^verbatim>\<open>?\<close>).\<close>

definition seq_step :: "('s \<Rightarrow> 's \<times> unit result) \<Rightarrow> ('s \<Rightarrow> 's \<times> unit result) \<Rightarrow> 's \<Rightarrow> 's \<times> unit result" where
  "seq_step f g s = (case f s of (s', Inl e) \<Rightarrow> (s', Inl e) | (s', Inr u) \<Rightarrow> g s')"

definition handle_ws_stream :: "'w channel_io \<Rightarrow> ws_crates \<Rightarrow> 'w ProxyChannel \<Rightarrow> 'w ProxyChannel \<times> unit result" where
  "handle_ws_stream IO W =
     seq_step (start_pong W) (seq_step (start_close W) (seq_step (ws_encode IO W) (ws_decode IO W)))"

text \<open>An error of a step is answered by starting to close; a panic goes on unwinding.\<close>

definition on_error :: "u16 \<Rightarrow> 'w ProxyChannel \<times> unit result \<Rightarrow> 'w ProxyChannel \<times> unit result" where
  "on_error code r =
     (case r of
        (c, Inr u) \<Rightarrow> (c, Inr ())
      | (c, Inl (Error k ks)) \<Rightarrow> starts_closing code False c
      | (c, Inl (Panic m)) \<Rightarrow> (c, Inl (Panic m)))"

definition process_relay :: "'w channel_io \<Rightarrow> ws_crates \<Rightarrow> 'w ProxyChannel \<Rightarrow> 'w ProxyChannel \<times> unit result" where
  "process_relay IO W =
     seq_step (\<lambda>c. on_error 1001 (handle_real_stream IO W c)) (\<lambda>c. on_error 1002 (handle_ws_stream IO W c))"

definition is_ws_stream_eos :: "'w channel_io \<Rightarrow> 'w ProxyChannel \<Rightarrow> bool" where
  "is_ws_stream_eos IO c \<longleftrightarrow> io_rbuf_state IO (pc_io c) = Eos \<or> io_wbuf_state IO (pc_io c) = Eos"

definition is_real_stream_eos :: "'w ProxyChannel \<Rightarrow> bool" where
  "is_real_stream_eos c \<longleftrightarrow> pc_real_stream_rstate c = Eos \<or> pc_real_stream_wstate c = Eos"

definition would_ws_stream_block :: "'w channel_io \<Rightarrow> 'w ProxyChannel \<Rightarrow> bool" where
  "would_ws_stream_block IO c \<longleftrightarrow>
     io_rbuf_state IO (pc_io c) = WouldBlock \<and>
     (io_wbuf_is_empty IO (pc_io c) \<and> pc_pending_close c = None \<and> pc_pending_pong c = None \<or>
      io_wbuf_state IO (pc_io c) = WouldBlock)"

definition would_real_stream_block :: "'w ProxyChannel \<Rightarrow> bool" where
  "would_real_stream_block c \<longleftrightarrow>
     pc_real_stream_rstate c = WouldBlock \<and>
     (is_data_empty (pc_frame_decoder c) \<or> pc_real_stream_wstate c = WouldBlock)"

section \<open>The future\<close>

datatype poll_result = Again | Pending | Ready "unit result"

definition on_io :: "('w \<Rightarrow> 'w \<times> unit result) \<Rightarrow> 'w ProxyChannel \<Rightarrow> 'w ProxyChannel \<times> unit result" where
  "on_io f c = (case f (pc_io c) of (w, r) \<Rightarrow> (c\<lparr>pc_io := w\<rparr>, r))"

definition relay_pass :: "'w channel_io \<Rightarrow> ws_crates \<Rightarrow> 'w ProxyChannel \<Rightarrow> 'w ProxyChannel \<times> poll_result" where
  "relay_pass IO W c =
     (if pc_closing c = Closed then (c, Ready (Inr ()))
      else case seq_step (process_relay IO W)
             (\<lambda>c. if is_real_stream_eos c \<and> pc_closing c = NotYet then starts_closing 1000 False c else (c, Inr ())) c of
        (c1, Inl e) \<Rightarrow> (c1, Ready (Inl e))
      | (c1, Inr u) \<Rightarrow> (c1, if would_ws_stream_block IO c1 \<and> would_real_stream_block c1 then Pending else Again))"

definition poll_pass :: "'w channel_io \<Rightarrow> ws_crates \<Rightarrow> 'w ProxyChannel \<Rightarrow> 'w ProxyChannel \<times> poll_result" where
  "poll_pass IO W c =
     (case seq_step (on_io (io_fill IO)) (on_io (io_flush IO)) c of
        (c1, Inl e) \<Rightarrow> (c1, Ready (Inl e))
      | (c1, Inr u) \<Rightarrow>
          if is_ws_stream_eos IO c1 then (c1, Ready (Inr ()))
          else (case process_handshake IO c1 of
            (c2, ok) \<Rightarrow>
              if \<not> ok then (c2, Ready (Inr ()))
              else if pc_handshake c2 \<noteq> HandshakeDone
              then (c2, if would_ws_stream_block IO c2 then Pending else Again)
              else relay_pass IO W c2))"

text \<open>The loop of \<^verbatim>\<open>poll\<close> runs as long as the streams do not block.\<close>

partial_function (option) channel_poll :: "'w channel_io \<Rightarrow> ws_crates \<Rightarrow> 'w ProxyChannel \<Rightarrow> ('w ProxyChannel \<times> unit result option) option" where
  "channel_poll IO W c =
     (case poll_pass IO W c of
        (c', Again) \<Rightarrow> channel_poll IO W c'
      | (c', Pending) \<Rightarrow> Some (c', None)
      | (c', Ready r) \<Rightarrow> Some (c', Some r))"

section \<open>The start of the proxy\<close>

text \<open>The proxy forwards to the RPC server on the local host if that is bound to all addresses.\<close>

definition is_unspecified :: "IpAddr \<Rightarrow> bool" where
  "is_unspecified ip \<longleftrightarrow> list_all (\<lambda>b. b = 0) (octets ip)"

definition forward_addr :: "IpAddr \<times> u16 \<Rightarrow> IpAddr \<times> u16" where
  "forward_addr rpc_addr = (if is_unspecified (fst rpc_addr) then (V4 [127, 0, 0, 1], snd rpc_addr) else rpc_addr)"

lemma forward_addr_reachable:
  "\<not> is_unspecified (fst (forward_addr a)) \<and> snd (forward_addr a) = snd a"
  by (simp add: forward_addr_def is_unspecified_def)

section \<open>What the handshake accepts\<close>

definition keys :: "(string \<times> string) list \<Rightarrow> string list" where
  "keys fs = map snd (filter (\<lambda>(name, v). eq_ignore_ascii_case name ''sec-websocket-key'') fs)"

definition field_ok :: "string \<times> string \<Rightarrow> bool" where
  "field_ok f = (case f of (name, v) \<Rightarrow>
     (eq_ignore_ascii_case name ''upgrade'' \<longrightarrow> v = ''websocket'') \<and>
     (eq_ignore_ascii_case name ''connection'' \<longrightarrow> has_upgrade v) \<and>
     (eq_ignore_ascii_case name ''sec-websocket-version'' \<longrightarrow> v = ''13''))"

lemma distinct_field_names:
  "eq_ignore_ascii_case n ''upgrade'' \<Longrightarrow> \<not> eq_ignore_ascii_case n ''connection''"
  "eq_ignore_ascii_case n ''upgrade'' \<Longrightarrow> \<not> eq_ignore_ascii_case n ''sec-websocket-key''"
  "eq_ignore_ascii_case n ''upgrade'' \<Longrightarrow> \<not> eq_ignore_ascii_case n ''sec-websocket-version''"
  "eq_ignore_ascii_case n ''connection'' \<Longrightarrow> \<not> eq_ignore_ascii_case n ''sec-websocket-key''"
  "eq_ignore_ascii_case n ''connection'' \<Longrightarrow> \<not> eq_ignore_ascii_case n ''sec-websocket-version''"
  "eq_ignore_ascii_case n ''sec-websocket-key'' \<Longrightarrow> \<not> eq_ignore_ascii_case n ''sec-websocket-version''"
  by (simp_all add: eq_ignore_ascii_case_def lower_def)

lemma bail_kind_not_Inr: "bail_kind k \<noteq> Inr x"
  by (simp add: bail_kind_def)

text \<open>The chain of tests of the loop, whose conditions on the name exclude each other.\<close>

lemma field_tests:
  assumes "U \<Longrightarrow> \<not> C" "U \<Longrightarrow> \<not> K" "U \<Longrightarrow> \<not> V" "C \<Longrightarrow> \<not> K" "C \<Longrightarrow> \<not> V" "K \<Longrightarrow> \<not> V"
    and "e1 \<noteq> y" "e2 \<noteq> y" "e3 \<noteq> y"
  shows "(if U then if u \<noteq> u' then e1 else f x else if C then if \<not> h then e2 else f x
      else if K then f z else if V \<and> u \<noteq> v' then e3 else f x) = y \<longleftrightarrow>
    ((U \<longrightarrow> u = u') \<and> (C \<longrightarrow> h) \<and> (V \<longrightarrow> u = v')) \<and> f (if K then z else x) = y"
  using assms by auto

lemma handshake_fields_Cons:
  "handshake_fields ((name, v) # rest) key = Inr k \<longleftrightarrow>
     field_ok (name, v) \<and>
     handshake_fields rest (if eq_ignore_ascii_case name ''sec-websocket-key'' then Some v else key) = Inr k"
  unfolding handshake_fields.simps field_ok_def prod.case
  by (rule field_tests; (rule bail_kind_not_Inr | erule distinct_field_names))

declare handshake_fields.simps(2) [simp del]

lemma handshake_fields_ok:
  "handshake_fields fs key = Inr k \<longleftrightarrow>
     list_all field_ok fs \<and> k = (if keys fs = [] then key else Some (last (keys fs)))"
  by (induction fs arbitrary: key) (auto simp: handshake_fields_Cons keys_def)

lemma handle_handshake_request_iff:
  "handle_handshake_request request = Inr key \<longleftrightarrow>
     rq_method request = ''GET'' \<and> rq_is_http_1_1 request \<and> list_all field_ok (rq_fields request) \<and>
     keys (rq_fields request) \<noteq> [] \<and> key = last (keys (rq_fields request))"
proof -
  have "handle_handshake_request request = Inr key \<longleftrightarrow> rq_method request = ''GET'' \<and> rq_is_http_1_1 request \<and>
      handshake_fields (rq_fields request) None = Inr (Some key)"
    unfolding handle_handshake_request_def and_then_def ok_or_def bail_kind_def
    by (auto split: sum.splits option.splits)
  then show ?thesis
    by (auto simp: handshake_fields_ok)
qed

section \<open>Closing\<close>

definition channel_ok :: "'w ProxyChannel \<Rightarrow> bool" where
  "channel_ok c \<longleftrightarrow>
     (pc_closing c = NotYet \<longrightarrow> pc_pending_close c = None) \<and>
     (pc_closing c \<noteq> NotYet \<longrightarrow> \<not> pc_real_stream c \<and> pc_real_stream_rstate c = Eos \<and>
        pc_real_stream_wstate c = Eos \<and> pc_handshake c = HandshakeDone)"

text \<open>A step of the relay keeps the invariant and the state of the handshake, and changes the closing state by \<open>R\<close>.\<close>

definition keeps_ok :: "(Closing \<Rightarrow> Closing \<Rightarrow> bool) \<Rightarrow> ('w ProxyChannel \<Rightarrow> 'w ProxyChannel \<times> unit result) \<Rightarrow> bool" where
  "keeps_ok R f \<longleftrightarrow> (\<forall>c c' r. f c = (c', r) \<longrightarrow> channel_ok c \<longrightarrow> pc_handshake c = HandshakeDone \<longrightarrow>
     channel_ok c' \<and> pc_handshake c' = HandshakeDone \<and> R (pc_closing c) (pc_closing c'))"

lemma keeps_okD:
  "\<lbrakk>keeps_ok R f; f c = (c', r); channel_ok c; pc_handshake c = HandshakeDone\<rbrakk> \<Longrightarrow>
     channel_ok c' \<and> pc_handshake c' = HandshakeDone \<and> R (pc_closing c) (pc_closing c')"
  by (auto simp: keeps_ok_def)

lemma keeps_ok_mono: "\<lbrakk>keeps_ok R f; \<And>a b. R a b \<Longrightarrow> S a b\<rbrakk> \<Longrightarrow> keeps_ok S f"
  unfolding keeps_ok_def by blast

lemma keeps_ok_seq:
  assumes "keeps_ok R f" "keeps_ok S g" "\<And>a b. R a b \<Longrightarrow> T a b" "\<And>a b c. \<lbrakk>R a b; S b c\<rbrakk> \<Longrightarrow> T a c"
  shows "keeps_ok T (seq_step f g)"
  unfolding keeps_ok_def
proof (intro allI impI)
  fix c c' r assume *: "seq_step f g c = (c', r)" "channel_ok c" "pc_handshake c = HandshakeDone"
  obtain c1 r1 where f: "f c = (c1, r1)" by (cases "f c")
  note k = keeps_okD [OF assms(1) f *(2,3)]
  show "channel_ok c' \<and> pc_handshake c' = HandshakeDone \<and> T (pc_closing c) (pc_closing c')"
  proof (cases r1)
    case (Inl e)
    then show ?thesis using *(1) f k assms(3) by (simp add: seq_step_def)
  next
    case (Inr u)
    then have "g c1 = (c', r)" using *(1) f by (simp add: seq_step_def)
    then show ?thesis using keeps_okD [OF assms(2) _ k [THEN conjunct1]] k assms(4) by blast
  qed
qed

definition started :: "bool \<Rightarrow> Closing \<Rightarrow> Closing \<Rightarrow> bool" where
  "started client_closed a b \<longleftrightarrow> b = a \<or> a = NotYet \<and> b = InProgress client_closed"

lemma starts_closing_keeps: "keeps_ok (started x) (starts_closing code x)"
  by (auto simp: keeps_ok_def starts_closing_def channel_ok_def started_def split: if_splits)

lemma start_pong_keeps: "keeps_ok (=) (start_pong W)"
  by (auto simp: keeps_ok_def start_pong_def channel_ok_def split: option.splits if_splits prod.splits)

lemma start_close_keeps: "keeps_ok (=) (start_close W)"
  by (auto simp: keeps_ok_def start_close_def channel_ok_def split: option.splits if_splits prod.splits)

lemma ws_encode_keeps: "keeps_ok (\<lambda>a b. b = a \<or> a = InProgress True \<and> b = Closed) (ws_encode IO W)"
  by (auto simp: keeps_ok_def ws_encode_def channel_ok_def Let_def split: prod.splits sum.splits if_splits)

lemma handle_frame_keeps: "keeps_ok (\<lambda>a b. b = a \<or> a \<noteq> Closed \<and> b = InProgress True) (handle_frame frame)"
  by (auto simp: keeps_ok_def handle_frame_def starts_closing_def channel_ok_def
      split: Frame.splits Closing.splits if_splits)

lemma ws_decode_keeps: "keeps_ok (\<lambda>a b. b = a \<or> a \<noteq> Closed \<and> b = InProgress True) (ws_decode IO W)"
  unfolding keeps_ok_def
proof (intro allI impI)
  fix c c' r assume *: "ws_decode IO W c = (c', r)" "channel_ok c" "pc_handshake c = HandshakeDone"
  have ok: "channel_ok (c\<lparr>pc_io := w, pc_frame_decoder := d\<rparr>)" for w d
    using *(2) by (simp add: channel_ok_def)
  from *(1) consider w d where "c' = c\<lparr>pc_io := w, pc_frame_decoder := d\<rparr>"
    | w d frame where "handle_frame frame (c\<lparr>pc_io := w, pc_frame_decoder := d\<rparr>) = (c', r)"
    by (force simp: ws_decode_def Let_def split: prod.splits sum.splits if_splits)
  then show "channel_ok c' \<and> pc_handshake c' = HandshakeDone \<and>
      (pc_closing c' = pc_closing c \<or> pc_closing c \<noteq> Closed \<and> pc_closing c' = InProgress True)"
  proof cases
    case 1
    then show ?thesis using ok *(3) by simp
  next
    case 2
    then show ?thesis using keeps_okD [OF handle_frame_keeps 2 ok] *(3) by simp
  qed
qed

lemma real_read_closing:
  "real_read IO W c = (c', r) \<Longrightarrow> pc_closing c' = pc_closing c \<and> pc_pending_close c' = pc_pending_close c \<and>
     pc_handshake c' = pc_handshake c"
  by (auto simp: real_read_def Let_def split: prod.splits sum.splits)

lemma real_write_closing:
  "real_write IO c = (c', r) \<Longrightarrow> pc_closing c' = pc_closing c \<and> pc_pending_close c' = pc_pending_close c \<and>
     pc_handshake c' = pc_handshake c"
  by (auto simp: real_write_def Let_def split: prod.splits sum.splits)

lemma handle_real_stream_closing:
  "\<lbrakk>channel_ok c; pc_closing c \<noteq> NotYet\<rbrakk> \<Longrightarrow> handle_real_stream IO W c = (c, Inr ())"
  by (simp add: channel_ok_def handle_real_stream_def)

lemma handle_real_stream_keeps: "keeps_ok (=) (handle_real_stream IO W)"
  unfolding keeps_ok_def
proof (intro allI impI)
  fix c c' r assume *: "handle_real_stream IO W c = (c', r)" "channel_ok c" "pc_handshake c = HandshakeDone"
  show "channel_ok c' \<and> pc_handshake c' = HandshakeDone \<and> pc_closing c = pc_closing c'"
  proof (cases "pc_closing c = NotYet")
    case True
    moreover from *(1) have "pc_closing c' = pc_closing c \<and> pc_pending_close c' = pc_pending_close c \<and> pc_handshake c' = pc_handshake c"
      by (auto simp: handle_real_stream_def split: if_splits prod.splits sum.splits
          dest!: real_read_closing real_write_closing)
    ultimately show ?thesis using *(2,3) by (simp add: channel_ok_def)
  next
    case False
    then show ?thesis using * handle_real_stream_closing [OF *(2) False] by simp
  qed
qed

lemma on_error_keeps:
  assumes "keeps_ok R f"
  shows "keeps_ok (\<lambda>a b. R a b \<or> R a NotYet \<and> b = InProgress False) (\<lambda>c. on_error code (f c))"
  unfolding keeps_ok_def
proof (intro allI impI)
  fix c c' r assume *: "on_error code (f c) = (c', r)" "channel_ok c" "pc_handshake c = HandshakeDone"
  obtain c1 r1 where f: "f c = (c1, r1)" by (cases "f c")
  note k = keeps_okD [OF assms f *(2,3)]
  from *(1) f consider "c' = c1" | "starts_closing code False c1 = (c', r)"
    by (auto simp: on_error_def split: sum.splits error.splits)
  then show "channel_ok c' \<and> pc_handshake c' = HandshakeDone \<and>
      (R (pc_closing c) (pc_closing c') \<or> R (pc_closing c) NotYet \<and> pc_closing c' = InProgress False)"
  proof cases
    case 1
    then show ?thesis using k by simp
  next
    case 2
    then show ?thesis using keeps_okD [OF starts_closing_keeps 2] k by (auto simp: started_def)
  qed
qed

text \<open>What a pass may do to the closing state: it never goes back, and is closed only after the client closed.\<close>

definition closing_moves :: "Closing \<Rightarrow> Closing \<Rightarrow> bool" where
  "closing_moves a b \<longleftrightarrow> (a \<noteq> NotYet \<longrightarrow> b \<noteq> NotYet) \<and> (b = Closed \<longrightarrow> a = Closed \<or> a = InProgress True)"

lemma handle_ws_stream_keeps: "keeps_ok closing_moves (handle_ws_stream IO W)"
proof -
  have "keeps_ok closing_moves (seq_step (ws_encode IO W) (ws_decode IO W))"
    by (rule keeps_ok_seq [OF ws_encode_keeps ws_decode_keeps]) (auto simp: closing_moves_def)
  then have "keeps_ok closing_moves (seq_step (start_close W) (seq_step (ws_encode IO W) (ws_decode IO W)))"
    by (rule keeps_ok_seq [OF start_close_keeps]) (auto simp: closing_moves_def)
  then show ?thesis
    unfolding handle_ws_stream_def by (rule keeps_ok_seq [OF start_pong_keeps]) (auto simp: closing_moves_def)
qed

lemma process_relay_keeps: "keeps_ok closing_moves (process_relay IO W)"
  unfolding process_relay_def
  by (rule keeps_ok_seq [OF on_error_keeps [OF handle_real_stream_keeps] on_error_keeps [OF handle_ws_stream_keeps]])
    (auto simp: closing_moves_def)

lemma eos_closes_keeps:
  "keeps_ok (started False) (\<lambda>c. if is_real_stream_eos c \<and> pc_closing c = NotYet then starts_closing code False c else (c, Inr ()))"
  by (auto simp: keeps_ok_def starts_closing_def channel_ok_def started_def split: if_splits)

lemma relay_keeps:
  "keeps_ok closing_moves (seq_step (process_relay IO W)
     (\<lambda>c. if is_real_stream_eos c \<and> pc_closing c = NotYet then starts_closing 1000 False c else (c, Inr ())))"
  by (rule keeps_ok_seq [OF process_relay_keeps eos_closes_keeps]) (auto simp: closing_moves_def started_def)

lemma relay_pass_ok:
  assumes "relay_pass IO W c = (c', r)" "channel_ok c" "pc_handshake c = HandshakeDone"
  shows "channel_ok c' \<and> closing_moves (pc_closing c) (pc_closing c') \<and> (pc_closing c' \<noteq> NotYet \<longrightarrow> r \<noteq> Pending)"
proof (cases "pc_closing c = Closed")
  case True
  then show ?thesis using assms by (auto simp: relay_pass_def closing_moves_def)
next
  case False
  define f where "f = seq_step (process_relay IO W)
    (\<lambda>c. if is_real_stream_eos c \<and> pc_closing c = NotYet then starts_closing 1000 False c else (c, Inr ()))"
  obtain r1 where f: "f c = (c', r1)"
    using assms(1) False by (cases "f c") (auto simp: relay_pass_def f_def split: sum.splits)
  note k = keeps_okD [OF relay_keeps [of IO W, folded f_def] f assms(2,3)]
  have "r = Pending \<Longrightarrow> would_real_stream_block c'"
    using assms(1) False f by (auto simp: relay_pass_def f_def split: sum.splits if_splits)
  then show ?thesis
    using k by (auto simp: channel_ok_def would_real_stream_block_def)
qed

lemma handshake_pass_ok:
  "\<lbrakk>handshake_pass IO c = (c', r); channel_ok c\<rbrakk> \<Longrightarrow> channel_ok c' \<and> pc_closing c' = pc_closing c"
  by (auto simp: handshake_pass_def channel_ok_def split: Handshake.splits prod.splits sum.splits option.splits if_splits)

lemma process_handshake_ok:
  "\<lbrakk>process_handshake IO c = (c', ok); channel_ok c\<rbrakk> \<Longrightarrow> channel_ok c' \<and> pc_closing c' = pc_closing c"
proof (induction IO c rule: process_handshake.induct)
  case (1 IO c)
  obtain c1 r where p: "handshake_pass IO c = (c1, r)" by (cases "handshake_pass IO c")
  note k = handshake_pass_ok [OF p 1(3)]
  show ?case
  proof (cases r)
    case None
    then show ?thesis using 1(1) [OF p [symmetric] None] 1(2) p k by (simp add: process_handshake.simps [of IO c])
  next
    case (Some b)
    then show ?thesis using 1(2) p k by (simp add: process_handshake.simps [of IO c])
  qed
qed

lemma on_io_ok: "on_io f c = (c', r) \<Longrightarrow> (channel_ok c' \<longleftrightarrow> channel_ok c) \<and> pc_closing c' = pc_closing c"
  by (auto simp: on_io_def channel_ok_def split: prod.splits)

lemma buffers_ok:
  "seq_step (on_io f) (on_io g) c = (c', r) \<Longrightarrow> (channel_ok c' \<longleftrightarrow> channel_ok c) \<and> pc_closing c' = pc_closing c"
  by (auto simp: seq_step_def dest!: on_io_ok split: prod.splits sum.splits)

text \<open>Only the relay waits with a closing state that moved: before it the handshake is not done.\<close>

lemma poll_pass_ok:
  assumes "poll_pass IO W c = (c', r)" "channel_ok c"
  shows "channel_ok c' \<and> closing_moves (pc_closing c) (pc_closing c') \<and> (pc_closing c' \<noteq> NotYet \<longrightarrow> r \<noteq> Pending)"
proof -
  obtain c1 r1 where b: "seq_step (on_io (io_fill IO)) (on_io (io_flush IO)) c = (c1, r1)"
    by (cases "seq_step (on_io (io_fill IO)) (on_io (io_flush IO)) c")
  obtain c2 ok where h: "process_handshake IO c1 = (c2, ok)" by (cases "process_handshake IO c1")
  have c1: "channel_ok c1" "pc_closing c1 = pc_closing c" using buffers_ok [OF b] assms(2) by auto
  have c2: "channel_ok c2" "pc_closing c2 = pc_closing c" using process_handshake_ok [OF h c1(1)] c1(2) by auto
  from assms(1) consider "c' = c1" "r \<noteq> Pending" | "c' = c2" "r \<noteq> Pending" | "c' = c2" "pc_handshake c2 \<noteq> HandshakeDone"
    | "relay_pass IO W c2 = (c', r)" "pc_handshake c2 = HandshakeDone"
    by (auto simp: poll_pass_def b h split: sum.splits if_splits)
  then show ?thesis
  proof cases
    case 4
    then show ?thesis using relay_pass_ok [OF 4(1) c2(1) 4(2)] c2(2) by simp
  qed (use c1 c2 in \<open>auto simp: closing_moves_def channel_ok_def\<close>)
qed

text \<open>The channel between two passes; the streams and buffers may change in any way.\<close>

inductive channel_reach :: "'w channel_io \<Rightarrow> ws_crates \<Rightarrow> 'w ProxyChannel \<Rightarrow> bool" for IO W where
  channel_reach_new: "channel_reach IO W (channel_new w)"
| channel_reach_io: "channel_reach IO W c \<Longrightarrow> channel_reach IO W (c\<lparr>pc_io := w\<rparr>)"
| channel_reach_pass: "\<lbrakk>channel_reach IO W c; poll_pass IO W c = (c', r)\<rbrakk> \<Longrightarrow> channel_reach IO W c'"

lemma channel_reach_ok: "channel_reach IO W c \<Longrightarrow> channel_ok c"
proof (induction rule: channel_reach.induct)
  case (channel_reach_new w)
  show ?case by (simp add: channel_ok_def channel_new_def)
next
  case (channel_reach_io c w)
  then show ?case by (simp add: channel_ok_def)
next
  case (channel_reach_pass c c' r)
  then show ?case using poll_pass_ok by blast
qed

section \<open>Two defects of the closing\<close>

text \<open>
  A client that closes while a frame is being written gets no close frame: once that frame is written
  the channel counts as closed, with the close frame still waiting.
\<close>

lemma close_frame_lost:
  assumes "pc_closing c = InProgress True" "pc_pending_close c = Some frame" "\<not> encoder_is_idle (pc_frame_encoder c)"
    and "io_encode IO (encoder_encode W) (pc_frame_encoder c) (pc_io c) = (w, e, Inr ())" "encoder_is_idle e"
  shows "seq_step (start_pong W) (seq_step (start_close W) (ws_encode IO W)) c =
    (c\<lparr>pc_io := w, pc_frame_encoder := e, pc_closing := Closed\<rparr>, Inr ())"
  using assms by (simp add: seq_step_def start_pong_def start_close_def ws_encode_def split: option.splits)

text \<open>A pass that changes nothing is repeated for ever.\<close>

lemma channel_poll_stuck:
  assumes "poll_pass IO W c = (c, Again)"
  shows "channel_poll IO W c = None"
proof (rule ccontr)
  assume "channel_poll IO W c \<noteq> None"
  then obtain y where y: "channel_poll IO W c = Some y" by blast
  have "poll_pass IO W c \<noteq> (c, Again)"
  proof (rule channel_poll.raw_induct [of "\<lambda>IO W c y. poll_pass IO W c \<noteq> (c, Again)", OF _ y], goal_cases)
    case (1 f IO' W' c' y')
    then show ?case by (cases y') (auto split: prod.splits)
  qed
  then show False using assms by simp
qed

section \<open>An example\<close>

text \<open>
  A client that completes the handshake and then is silent, and a server that closes the stream at once.
  The write buffer takes whatever a frame encoder has.
\<close>

definition demo_upgrade :: http_request where
  "demo_upgrade = \<lparr>rq_method = ''GET'', rq_is_http_1_1 = True,
     rq_fields = [(''Connection'', ''keep-alive, Upgrade''), (''Upgrade'', ''websocket''),
       (''Sec-WebSocket-Version'', ''13''), (''Sec-WebSocket-Key'', ''dGhlIHNhbXBsZSBub25jZQ=='')]\<rparr>"

definition demo_io :: "unit channel_io" where
  "demo_io = \<lparr>io_fill = (\<lambda>w. (w, Inr ())), io_flush = (\<lambda>w. (w, Inr ())), io_rbuf_state = (\<lambda>w. WouldBlock),
     io_wbuf_state = (\<lambda>w. Normal), io_wbuf_is_empty = (\<lambda>w. True), io_request = (\<lambda>w. (w, Inr (Some demo_upgrade))),
     io_start_connect = (\<lambda>w. w), io_poll_connect = (\<lambda>w. (w, Some (Inr ()))), io_respond = (\<lambda>r w. (w, Inr True)),
     io_read = (\<lambda>w. (w, ReadOk [])), io_write = (\<lambda>bs w. (w, WriteOk (length bs))),
     io_encode = (\<lambda>f e w. (w, fst (f e 4096), Inr ())), io_decode = (\<lambda>f d w. (w, d, Inr ())),
     io_sha1 = (\<lambda>s. []), io_base64 = (\<lambda>b. [])\<rparr>"

lemma demo_upgrade_accepted: "handle_handshake_request demo_upgrade = Inr ''dGhlIHNhbXBsZSBub25jZQ==''"
  by (simp add: handle_handshake_request_iff demo_upgrade_def keys_def field_ok_def eq_ignore_ascii_case_def lower_def
      has_upgrade_def trim_def is_space_def char_of_eq_iff)

definition demo_closing :: "unit ProxyChannel" where
  "demo_closing = (channel_new ())\<lparr>pc_handshake := HandshakeDone, pc_real_stream_rstate := Eos,
     pc_real_stream_wstate := Eos, pc_closing := InProgress False, pc_pending_close := Some (CloseFrame 1000 [])\<rparr>"

lemma encoder_default_idle: "encoder_is_idle encoder_default"
  by (simp add: encoder_is_idle_def encoder_default_def)

lemma decoder_default_empty: "is_data_empty decoder_default" "\<not> payload_is_idle (fd_payload decoder_default)"
  by (simp_all add: is_data_empty_def payload_is_idle_def decoder_default_def payload_decoder_default_def)

lemma encode_default: "encoder_encode std_ws encoder_default 4096 = (encoder_default, [])"
  by (simp add: encoder_encode_def encode_payload_def encoder_default_def)

lemmas demo_simps = demo_io_def channel_new_def encoder_default_idle decoder_default_empty encode_default seq_step_def

lemma demo_handshake:
  "process_handshake demo_io (channel_new ()) = ((channel_new ())\<lparr>pc_handshake := HandshakeDone, pc_real_stream := True\<rparr>, True)"
proof -
  let ?k = "''dGhlIHNhbXBsZSBub25jZQ==''"
  let ?c1 = "(channel_new ())\<lparr>pc_handshake := ConnectToRealServer ?k\<rparr>"
  let ?c2 = "(channel_new ())\<lparr>pc_handshake := response_accepted demo_io ?k, pc_real_stream := True\<rparr>"
  have p: "handshake_pass demo_io (channel_new ()) = (?c1, None)" "handshake_pass demo_io ?c1 = (?c2, None)"
    "handshake_pass demo_io ?c2 = ((channel_new ())\<lparr>pc_handshake := HandshakeDone, pc_real_stream := True\<rparr>, Some True)"
    by (simp_all add: handshake_pass_def demo_upgrade_accepted channel_new_def response_accepted_def) (simp_all add: demo_io_def demo_upgrade_accepted)
  show ?thesis
    by (subst process_handshake.simps, simp only: p prod.case option.case)+
qed

lemma demo_first_pass: "poll_pass demo_io std_ws (channel_new ()) = (demo_closing, Again)"
proof -
  have "relay_pass demo_io std_ws ((channel_new ())\<lparr>pc_handshake := HandshakeDone, pc_real_stream := True\<rparr>) = (demo_closing, Again)"
    by (simp add: relay_pass_def process_relay_def handle_real_stream_def real_read_def start_encoding_data_def
        real_write_def write_decoded_data_def on_error_def handle_ws_stream_def start_pong_def start_close_def
        ws_encode_def ws_decode_def is_real_stream_eos_def starts_closing_def would_real_stream_block_def
        demo_closing_def demo_simps)
  moreover have "seq_step (on_io (io_fill demo_io)) (on_io (io_flush demo_io)) (channel_new ()) = (channel_new (), Inr ())"
    by (simp add: seq_step_def on_io_def demo_io_def channel_new_def)
  ultimately show ?thesis
    by (simp add: poll_pass_def demo_handshake is_ws_stream_eos_def) (simp add: demo_io_def)
qed

text \<open>The close frame is written in the second pass; the third changes nothing.\<close>

definition demo_silent :: "unit ProxyChannel" where
  "demo_silent = demo_closing\<lparr>pc_pending_close := None,
     pc_frame_encoder := encoder_default\<lparr>fe_payload := wc_write_u16 std_ws 1000 @ drop 2 (fe_payload encoder_default)\<rparr>\<rparr>"

lemma demo_close_encoded:
  "\<exists>e. encoder_start_encoding std_ws encoder_default (CloseFrame 1000 []) = (e, Inr ()) \<and>
     fst (encoder_encode std_ws e 4096) = pc_frame_encoder demo_silent"
proof -
  have len: "\<not> BUF_SIZE < Suc (Suc 0)"
    by (simp add: BUF_SIZE_def)
  have enc: "wc_encode std_ws = min"
    by (simp add: std_ws_def)
  have hdr: "header_bytes_of std_ws ConnectionClose (Suc (Suc 0)) True = [FIN_FLAG OR 0x8, 2]"
    by (simp add: header_bytes_of_def)
  show ?thesis
    using len encoder_default_idle
    by (simp add: encoder_start_encoding_def start_encoding_header_def hdr enc Let_def
        encoder_encode_def encode_payload_def demo_silent_def encoder_default_def)
qed

lemma demo_silent_idle: "encoder_is_idle (pc_frame_encoder demo_silent)"
  "encoder_encode std_ws (pc_frame_encoder demo_silent) 4096 = (pc_frame_encoder demo_silent, [])"
  by (simp_all add: demo_silent_def encoder_is_idle_def encoder_encode_def encode_payload_def encoder_default_def)

lemma process_handshake_done: "pc_handshake c = HandshakeDone \<Longrightarrow> process_handshake IO c = (c, True)"
  by (subst process_handshake.simps) (simp add: handshake_pass_def)

lemma demo_poll_pass:
  assumes "pc_handshake c = HandshakeDone"
  shows "poll_pass demo_io W c = relay_pass demo_io W c"
proof -
  have "seq_step (on_io (io_fill demo_io)) (on_io (io_flush demo_io)) c = (c, Inr ())"
    by (simp add: seq_step_def on_io_def demo_io_def)
  then show ?thesis
    by (simp add: poll_pass_def process_handshake_done [OF assms] assms is_ws_stream_eos_def) (simp add: demo_io_def)
qed

lemma demo_relay_pass:
  assumes "channel_ok c" "pc_closing c = InProgress False" "handle_ws_stream demo_io W c = (c', Inr ())"
    and "channel_ok c'" "pc_closing c' = InProgress False"
  shows "relay_pass demo_io W c = (c', Again)"
proof -
  have "process_relay demo_io W c = (c', Inr ())"
    using assms(2,3) handle_real_stream_closing [OF assms(1)] by (simp add: process_relay_def seq_step_def on_error_def)
  then show ?thesis
    using assms(2,4,5) by (auto simp: relay_pass_def seq_step_def would_real_stream_block_def channel_ok_def)
qed

lemmas demo_ws = handle_ws_stream_def start_pong_def start_close_def ws_encode_def ws_decode_def seq_step_def

lemma demo_second_pass: "poll_pass demo_io std_ws demo_closing = (demo_silent, Again)"
proof -
  obtain e where e: "encoder_start_encoding std_ws encoder_default (CloseFrame 1000 []) = (e, Inr ())"
    "fst (encoder_encode std_ws e 4096) = pc_frame_encoder demo_silent"
    using demo_close_encoded by blast
  have "handle_ws_stream demo_io std_ws demo_closing = (demo_silent, Inr ())"
    using e demo_silent_idle(1)
    by (simp add: demo_ws demo_closing_def channel_new_def encoder_default_idle demo_io_def decoder_default_empty)
      (simp add: demo_silent_def demo_closing_def channel_new_def)
  then show ?thesis
    by (subst demo_poll_pass; (intro demo_relay_pass)?)
      (simp_all add: demo_closing_def demo_silent_def channel_new_def channel_ok_def)
qed

lemma demo_third_pass: "poll_pass demo_io std_ws demo_silent = (demo_silent, Again)"
proof -
  have f: "pc_pending_pong demo_silent = None" "pc_pending_close demo_silent = None"
    "pc_frame_decoder demo_silent = decoder_default" "pc_closing demo_silent = InProgress False"
    by (simp_all add: demo_silent_def demo_closing_def channel_new_def)
  have "handle_ws_stream demo_io std_ws demo_silent = (demo_silent, Inr ())"
    by (simp add: demo_ws demo_io_def f demo_silent_idle decoder_default_empty)
  then show ?thesis
    by (subst demo_poll_pass; (intro demo_relay_pass)?)
      (simp_all add: demo_closing_def demo_silent_def channel_new_def channel_ok_def)
qed

text \<open>
  The server has closed, the close frame is sent and nothing is left to do but to wait for the client, but
  the future does not give up its thread: the closed stream does not count as one that would block.
\<close>

lemma closing_spins: "channel_poll demo_io std_ws (channel_new ()) = None"
proof -
  have "channel_poll demo_io std_ws demo_silent = None"
    by (rule channel_poll_stuck) (rule demo_third_pass)
  then show ?thesis
    by (simp add: channel_poll.simps [of demo_io std_ws "channel_new ()"] channel_poll.simps [of demo_io std_ws demo_closing]
        demo_first_pass demo_second_pass)
qed

section \<open>Properties\<close>



end
