(* ===== verification/Spec2Isabelle.thy ===== *)
theory Spec2Isabelle
  imports Headers Store Index Mempool RndCache DosLimit Merkle Status QueryUtil Indexed StatusQuery Json TxQuery Query Blockchain Rpc Daemon Bulk App WsFrame WsChannel
begin

text \<open>
  A verification development of ElectrsCash, an Electrum protocol server that indexes the Bitcoin
  Cash block chain (\<^verbatim>\<open>src/src\<close>).

  \<^bold>\<open>The program.\<close>  The server asks a full node for block headers, blocks and the contents of its mempool.  It
  writes rows for the transactions of each block to a key-value database, keeps the chain of headers
  and the rows of the mempool in memory, answers the calls of clients over TCP from the two stores,
  and announces changes to the clients that subscribed.  A proxy translates between WebSocket
  frames and the line-based TCP protocol.

  \<^bold>\<open>The theories\<close>, from the data up to the main program (paths below \<^verbatim>\<open>src/src\<close>).
  \<^item> Prelude: machine integers, errors (\<^verbatim>\<open>errors.rs\<close>), the result type, shared lemmas.  BTreeMap: the ordered map of
    the standard library.  Bitcoin: the structs of blocks and transactions.  Codec: the crates the
    indexer calls, as parameters with their laws.
  \<^item> Store (\<^verbatim>\<open>store.rs\<close>, \<^verbatim>\<open>fake.rs\<close>): rows, lazy scans, the compaction marker, over a RocksDB parameter.
    A scan returns exactly the rows with the prefix, in order.
  \<^item> Headers (\<^verbatim>\<open>util.rs\<close>): the chain of headers; a reorganisation gives the chain that branches off where
    it should, lookups afterwards never return stale entries, and the panics are characterised.
  \<^item> Scripthash, CashAccount, IndexRows, Index (\<^verbatim>\<open>scripthash.rs\<close>, \<^verbatim>\<open>cashaccount.rs\<close>, \<^verbatim>\<open>index.rs\<close>): the rows with
    their round trips, the rows of a block, the update loop, and what a restart reads back when an
    update was interrupted.
  \<^item> Mempool (\<^verbatim>\<open>mempool.rs\<close>): the tracker holds exactly the transactions and rows of the node's mempool
    after an update, and the fee histogram accounts for every byte.
  \<^item> RndCache (\<^verbatim>\<open>rndcache.rs\<close>, \<^verbatim>\<open>cache.rs\<close>) and DosLimit (\<^verbatim>\<open>doslimit.rs\<close>, \<^verbatim>\<open>timeout.rs\<close>): the eviction loop ends and
    keeps the accounting; the counters of connections agree with the open connections.
  \<^item> Merkle, Status, QueryUtil, Indexed, StatusQuery, TxQuery, Query (\<^verbatim>\<open>query/\<close>): lookups over the two stores, the
    status of a script with its balance, history and unspent outputs, Merkle branches, first use and
    spender of an output.  Indexed shows that the database and the mempool both provide the
    contract of the lookups; StatusQuery states the answers in terms of the indexed and tracked
    transactions.
  \<^item> Json, Blockchain, Rpc (\<^verbatim>\<open>rpc/\<close>): arguments, handlers with the state of a connection, dispatch, replies, the
    reader of requests, the reply loop and the notifier.  Replies come in order and carry the id
    of their request, the limits hold, subscribers are told every change once, a connection ends.
  \<^item> Daemon (\<^verbatim>\<open>daemon.rs\<close>, \<^verbatim>\<open>signal.rs\<close>): the client of the node over an abstract network.  A request survives lost
    connections, replies belong to their requests, and the walk back along the node's chain ends
    with exactly the new headers.
  \<^item> Bulk (\<^verbatim>\<open>bulk.rs\<close>): the parser of block files and the threads of the import as a step relation; the
    statements hold for every schedule.
  \<^item> App (\<^verbatim>\<open>app.rs\<close>, \<^verbatim>\<open>bin/electrscash.rs\<close>): the start of the server and a pass of the main loop.  This theory adds
    the statement about a start that spans the index, the import, the store and the application.
  \<^item> WsFrame, WsChannel (\<^verbatim>\<open>wstcp/\<close>): the encoder and decoder of frames for every sequence of buffer sizes, the
    handshake, the relay and the closing of a channel.

  \<^bold>\<open>Conventions.\<close>  A struct is a record, an enum a datatype, an operation a function from the state to the state after it
  and a result.  A failing function returns \<open>Inl\<close> with the error of the source; a failed assertion,
  \<^verbatim>\<open>unwrap\<close> or index is a panic, which is a value too.  Arithmetic wraps as in a release build where the
  width matters; heights and lengths far below the width are natural numbers.  The text of an
  error of a crate is not kept as a cause, and the debug form of a value in a message is its
  JSON text or is left out.  Hash maps are lists of bindings with the order of iteration as a
  parameter.  Threads and connections are step relations, and one call under a lock is one step.

  \<^bold>\<open>Parameters.\<close>  Crates are records of functions.  What the code relies on is a locale each: \<open>codec_laws\<close>,
  \<open>rocksdb_store\<close>, \<open>hex_codec\<close>, \<open>index_map\<close>, \<open>runtime_laws\<close>, \<open>version_order\<close>, \<open>blk_codec\<close>, \<open>ws_laws\<close>.  Each has a reference
  instance that follows the documented format and is used in the examples.  The contracts
  between components are \<open>read_store\<close>, \<open>write_store\<close>, \<open>chain_view\<close>, \<open>bounded_cache\<close>, \<open>tx_store\<close> and \<open>tracked_mempool\<close>; the
  model's own stores, header list, cache and tracker provide them.

  \<^bold>\<open>Loops.\<close>  No definition has fuel.  A loop that ends is a total function.  The eviction loop of the cache, the
  loops of the client of the node and the loop of a WebSocket channel are partial functions
  with the value \<open>None\<close> when they do not return; for the cache, for requests and for the walk
  back it is proved that they return, and for the channel that it need not.

  \<^bold>\<open>Defects shown.\<close>  The import of block files can hang when all indexers fail; a channel that waits for the client to
  close spins without giving up its thread, and can drop its close frame; a newline that arrives
  alone is lost by the encoder; the cache can exceed its capacity; a very large limit of
  connections rejects all of them; the target of a fee estimate wraps; a short version list
  panics.  Each is a lemma of its theory.

  \<^bold>\<open>Not modelled.\<close>
  \<^item> Command line and configuration (\<^verbatim>\<open>config.rs\<close>): generated argument parsing, files and name resolution; the
    values are arguments here.
  \<^item> Metrics (\<^verbatim>\<open>metrics.rs\<close>, \<^verbatim>\<open>rpc/rpcstats.rs\<close>) and all timers and gauges: no answer depends on them.
  \<^item> Sockets, the acceptor threads, joining threads and shutting down (parts of \<^verbatim>\<open>rpc/mod.rs\<close>, \<^verbatim>\<open>wstcp/server.rs\<close>,
    \<^verbatim>\<open>bin/electrscash.rs\<close>, \<^verbatim>\<open>util.rs\<close>): calls of the operating system and the runtime; what passes through them is modelled.
  \<^item> \<^verbatim>\<open>notify.rs\<close> is not compiled: no module declares it.
\<close>

section \<open>Properties across components\<close>



end
